(* ===== verification/Prelude.thy ===== *)
theory Prelude
  imports Complex_Main "HOL-Library.Word"
begin

text \<open>
  Shared vocabulary of the development: the fixed-width integer types of the C sources, the
  rule collections the components add to, and generic facts on bytes, words, lists and index
  loops.  Nothing here models a file of the program.
\<close>

unbundle bit_operations_syntax

section \<open>Names for the C integer types\<close>

type_synonym u8 = "8 word"
type_synonym u16 = "16 word"
type_synonym u32 = "32 word"
type_synonym u64 = "64 word"

section \<open>Rule collections\<close>

named_theorems wire_simps \<open>unfolding rules of the wire codec\<close>
named_theorems kernel_defs \<open>definitions of the state-vector kernel\<close>
named_theorems frontend_defs \<open>definitions of the device frontend\<close>
named_theorems adapter_defs \<open>definitions of the qcpud adapter\<close>

section \<open>Bytes of a word\<close>

text \<open>Byte \<open>k\<close> of a word, counted from the least significant end.\<close>

definition byte_of :: "'a::len word \<Rightarrow> nat \<Rightarrow> u8" where
  "byte_of v k = ucast (drop_bit (8 * k) v)"

lemma bit_byte_of: "bit (byte_of (v :: 'a::len word) k) n \<longleftrightarrow> n < 8 \<and> bit v (8 * k + n)"
  by (auto simp: byte_of_def bit_simps dest: bit_imp_le_length)

lemma byte_of_inj:
  fixes v w :: "'a::len word"
  assumes "\<And>k. 8 * k < LENGTH('a) \<Longrightarrow> byte_of v k = byte_of w k"
  shows "v = w"
proof (rule bit_word_eqI)
  fix n
  assume n: "n < LENGTH('a)"
  then have "8 * (n div 8) < LENGTH('a)" by arith
  then have "bit (byte_of v (n div 8)) (n mod 8) = bit (byte_of w (n div 8)) (n mod 8)"
    using assms by simp
  then show "bit v n = bit w n" by (simp add: bit_byte_of)
qed

text \<open>The bits of a word that is put together from bytes by shifting and or-ing.\<close>

lemma bit_foldl_or_bytes:
  fixes b :: "nat \<Rightarrow> u8"
  shows "bit (foldl (\<lambda>acc i. acc OR push_bit (i * 8) (ucast (b i))) (0 :: 'a::len word) [0..<m]) n
     \<longleftrightarrow> n < LENGTH('a) \<and> n div 8 < m \<and> bit (b (n div 8)) (n mod 8)"
proof (induction m)
  case 0
  then show ?case by simp
next
  case (Suc m)
  have split: "m * 8 \<le> n \<and> n - m * 8 < 8 \<longleftrightarrow> n div 8 = m" by arith
  have mod: "n div 8 = m \<Longrightarrow> n - m * 8 = n mod 8" by arith
  have "bit (push_bit (m * 8) (ucast (b m)) :: 'a word) n
     \<longleftrightarrow> n < LENGTH('a) \<and> n div 8 = m \<and> bit (b m) (n mod 8)"
    using split mod by (auto simp: bit_simps dest: bit_imp_le_length)
  then show ?case using Suc.IH by (auto simp: bit_simps less_Suc_eq)
qed

lemma byte_of_foldl_or:
  fixes b :: "nat \<Rightarrow> u8"
  assumes "k < m" and "8 * m \<le> LENGTH('a)"
  shows "byte_of (foldl (\<lambda>acc i. acc OR push_bit (i * 8) (ucast (b i))) (0 :: 'a::len word) [0..<m]) k
     = b k"
  using assms by (intro bit_word_eqI) (auto simp: bit_byte_of bit_foldl_or_bytes)

lemma ucast_and_ff: "(ucast (v AND 0xff :: 'a::len word) :: u8) = ucast v"
proof -
  have "v AND 0xff = take_bit 8 v" by (simp add: take_bit_eq_mask mask_eq_exp_minus_1)
  then show ?thesis
    by (intro bit_word_eqI) (auto simp: bit_simps dest: bit_imp_le_length)
qed

section \<open>Index loops over lists\<close>

text \<open>A counted loop that stores \<open>f k\<close> at \<open>off + k\<close>.\<close>

lemma length_foldl_update [simp]:
  "length (foldl (\<lambda>out k. out[g k := f k]) xs ks) = length xs"
  by (induction ks arbitrary: xs) auto

lemma nth_foldl_update:
  assumes "i < length xs"
  shows "foldl (\<lambda>out k. out[off + k := f k]) xs [0..<m] ! i =
     (if off \<le> i \<and> i < off + m then f (i - off) else xs ! i)"
proof (induction m)
  case 0
  then show ?case by auto
next
  case (Suc m)
  then show ?case using assms by (auto simp: nth_list_update less_Suc_eq)
qed

text \<open>
  A counted loop over a partner map \<open>flip\<close> that, at the indices selected by \<open>P\<close>, replaces an
  element and its partner.  Each pair is touched once, so the result can be read off pointwise
  from the list the loop started with.
\<close>

lemma length_foldl_step:
  assumes "\<And>ys i. length (step ys i) = length ys"
  shows "length (foldl step xs is) = length xs"
  using assms by (induction "is" arbitrary: xs) auto

lemma nth_pair_loop:
  fixes xs :: "'a list"
  assumes step: "\<And>ys i. i < n \<Longrightarrow> length ys = n \<Longrightarrow> step ys i =
            (if P i then ys[i := f (ys ! i) (ys ! flip i), flip i := g (ys ! i) (ys ! flip i)] else ys)"
    and bound: "\<And>i. i < n \<Longrightarrow> flip i < n"
    and inv: "\<And>i. i < n \<Longrightarrow> flip (flip i) = i"
    and part: "\<And>i. i < n \<Longrightarrow> P i \<Longrightarrow> \<not> P (flip i)"
    and len: "length xs = n" and j: "j < n"
  shows "foldl step xs [0..<n] ! j =
     (if P j then f (xs ! j) (xs ! flip j)
      else if P (flip j) then g (xs ! flip j) (xs ! j) else xs ! j)"
proof -
  have "m \<le> n \<Longrightarrow> length (foldl step xs [0..<m]) = n \<and> (\<forall>j < n. foldl step xs [0..<m] ! j =
     (if P j \<and> j < m then f (xs ! j) (xs ! flip j)
      else if P (flip j) \<and> flip j < m then g (xs ! flip j) (xs ! j) else xs ! j))" for m
  proof (induction m)
    case 0
    then show ?case using len by simp
  next
    case (Suc m)
    define ys where "ys = foldl step xs [0..<m]"
    have m: "m < n" and ys: "length ys = n"
      "\<And>j. j < n \<Longrightarrow> ys ! j = (if P j \<and> j < m then f (xs ! j) (xs ! flip j)
        else if P (flip j) \<and> flip j < m then g (xs ! flip j) (xs ! j) else xs ! j)"
      using Suc by (auto simp: ys_def)
    have fold: "foldl step xs [0..<Suc m] = step ys m" by (simp add: ys_def)
    have own: "ys ! m = xs ! m" "ys ! flip m = xs ! flip m" if "P m"
      using that ys(2) [OF m] ys(2) [OF bound [OF m]] part [OF m that] inv [OF m] by simp_all
    have other: "flip j = m \<longleftrightarrow> j = flip m" if "j < n" for j
      using inv m that by auto
    have len': "length (step ys m) = n" using m ys(1) by (simp add: step)
    have "step ys m ! j = (if P j \<and> j < Suc m then f (xs ! j) (xs ! flip j)
        else if P (flip j) \<and> flip j < Suc m then g (xs ! flip j) (xs ! j) else xs ! j)"
      if j: "j < n" for j
    proof (cases "P m")
      case False
      then have "P j \<and> j < Suc m \<longleftrightarrow> P j \<and> j < m" "P (flip j) \<and> flip j < Suc m \<longleftrightarrow> P (flip j) \<and> flip j < m"
        by (auto simp: less_Suc_eq)
      then show ?thesis using False m ys(1) ys(2) [OF j] by (simp add: step)
    next
      case True
      consider "j = m" | "j \<noteq> m" "j = flip m" | "j \<noteq> m" "j \<noteq> flip m" by blast
      then show ?thesis
      proof cases
        case 1
        have "flip m \<noteq> m" using part [OF m True] True by auto
        then show ?thesis using 1 True m ys(1) own by (simp add: step)
      next
        case 2
        then show ?thesis using True m ys(1) own part [OF m True] inv [OF m] bound [OF m]
          by (simp add: step)
      next
        case 3
        then have "P j \<and> j < Suc m \<longleftrightarrow> P j \<and> j < m" "P (flip j) \<and> flip j < Suc m \<longleftrightarrow> P (flip j) \<and> flip j < m"
          using other [OF j] by (auto simp: less_Suc_eq)
        then show ?thesis using 3 True m ys(1) ys(2) [OF j] by (simp add: step)
      qed
    qed
    with len' show ?case unfolding fold by blast
  qed
  from this [of n] show ?thesis using bound j by simp
qed

section \<open>Single bits of an index\<close>

lemma nat_less_exp_iff_bits: "(i :: nat) < 2 ^ q \<longleftrightarrow> (\<forall>k \<ge> q. \<not> bit i k)"
proof -
  have "i < 2 ^ q \<longleftrightarrow> take_bit q i = i" by (simp add: take_bit_nat_eq_self_iff)
  also have "\<dots> \<longleftrightarrow> (\<forall>k. (k < q \<and> bit i k) = bit i k)" by (simp add: bit_eq_iff bit_take_bit_iff)
  also have "\<dots> \<longleftrightarrow> (\<forall>k \<ge> q. \<not> bit i k)" by (meson leD leI)
  finally show ?thesis .
qed

lemma flip_bit_less_exp: "b < q \<Longrightarrow> (i :: nat) < 2 ^ q \<Longrightarrow> flip_bit b i < 2 ^ q"
  by (auto simp: nat_less_exp_iff_bits bit_simps)

lemma flip_bit_flip_bit [simp]: "flip_bit b (flip_bit b i) = (i :: nat)"
  by (rule bit_eqI) (auto simp: bit_simps)

lemma bit_flip_bit_same [simp]: "bit (flip_bit b i :: nat) b \<longleftrightarrow> \<not> bit i b"
  by (simp add: bit_simps)

lemma and_exp_neq_0_iff: "0 < (i :: nat) AND 2 ^ b \<longleftrightarrow> bit i b" "(i :: nat) AND 2 ^ b = 0 \<longleftrightarrow> \<not> bit i b"
  using and_exp_eq_0_iff_not_bit [of i b] by auto

lemma or_exp_eq_flip_bit: "\<not> bit i b \<Longrightarrow> (i :: nat) OR 2 ^ b = flip_bit b i"
  by (rule bit_eqI) (auto simp: bit_simps)

end
