(* ===== verification/Wire.thy ===== *)
theory Wire
  imports Prelude
begin

text \<open>
  The v4.6 wire format: \<^verbatim>\<open>src/src/device/qcpu_device_protocol.h\<close> (constants and the two packet
  structs) and \<^verbatim>\<open>src/src/device/qcpu_device_wire.c\<close> (the explicit little-endian codec).  A buffer
  is a byte list, a pointer that may be \<^verbatim>\<open>NULL\<close> an option, and a write through an output pointer
  returns the updated buffer.  A C \<^verbatim>\<open>double\<close> that is only stored, copied and sent is its 64-bit
  object representation.
\<close>

section \<open>Protocol constants and packets\<close>

definition QCPU_DEVICE_PROTOCOL_VERSION :: u16 where
  "QCPU_DEVICE_PROTOCOL_VERSION = 1"

definition QCPU_DEVICE_REQUEST_MAGIC :: u32 where
  "QCPU_DEVICE_REQUEST_MAGIC = 0x51445631"

definition QCPU_DEVICE_RESPONSE_MAGIC :: u32 where
  "QCPU_DEVICE_RESPONSE_MAGIC = 0x51525631"

definition QCPU_DEVICE_MAX_QUBITS :: u32 where
  "QCPU_DEVICE_MAX_QUBITS = 20"

definition QCPU_DEVICE_MAX_SHOTS :: u32 where
  "QCPU_DEVICE_MAX_SHOTS = 100"

definition QCPU_DEVICE_COMMAND_STATUS :: u16 where
  "QCPU_DEVICE_COMMAND_STATUS = 1"

definition QCPU_DEVICE_COMMAND_RUN_GHZ :: u16 where
  "QCPU_DEVICE_COMMAND_RUN_GHZ = 2"

datatype QCPUDeviceStatus =
    QCPU_DEVICE_STATUS_OK
  | QCPU_DEVICE_STATUS_BAD_MAGIC
  | QCPU_DEVICE_STATUS_BAD_VERSION
  | QCPU_DEVICE_STATUS_BAD_COMMAND
  | QCPU_DEVICE_STATUS_RANGE
  | QCPU_DEVICE_STATUS_KERNEL
  | QCPU_DEVICE_STATUS_IO

text \<open>The enumerator values, as they are stored in the 16-bit status field.\<close>

fun device_status_code :: "QCPUDeviceStatus \<Rightarrow> u16" where
  "device_status_code QCPU_DEVICE_STATUS_OK = 0"
| "device_status_code QCPU_DEVICE_STATUS_BAD_MAGIC = 1"
| "device_status_code QCPU_DEVICE_STATUS_BAD_VERSION = 2"
| "device_status_code QCPU_DEVICE_STATUS_BAD_COMMAND = 3"
| "device_status_code QCPU_DEVICE_STATUS_RANGE = 4"
| "device_status_code QCPU_DEVICE_STATUS_KERNEL = 5"
| "device_status_code QCPU_DEVICE_STATUS_IO = 6"

definition QCPU_DEVICE_FLAG_SOFTWARE_VIRTUAL_QCPU :: u32 where
  "QCPU_DEVICE_FLAG_SOFTWARE_VIRTUAL_QCPU = push_bit 0 1"

definition QCPU_DEVICE_FLAG_CLASSICAL_HOST :: u32 where
  "QCPU_DEVICE_FLAG_CLASSICAL_HOST = push_bit 1 1"

definition QCPU_DEVICE_FLAG_PHYSICAL_QPU_ABSENT :: u32 where
  "QCPU_DEVICE_FLAG_PHYSICAL_QPU_ABSENT = push_bit 2 1"

definition QCPU_DEVICE_FLAG_Q0_MOST_SIGNIFICANT :: u32 where
  "QCPU_DEVICE_FLAG_Q0_MOST_SIGNIFICANT = push_bit 3 1"

record QCPUDeviceRequest =
  dq_magic :: u32
  dq_version :: u16
  dq_command :: u16
  dq_qubits :: u32
  dq_shots :: u32
  dq_seed :: u64

record QCPUDeviceResponse =
  dr_magic :: u32
  dr_version :: u16
  dr_status :: u16
  dr_flags :: u32
  dr_qubits :: u32
  dr_basis_states :: u64
  dr_shots :: u64
  dr_measured_state :: u64
  dr_invalid_results :: u64
  dr_norm :: u64 \<comment> \<open>the bits of the C \<^verbatim>\<open>double\<close>\<close>

definition QCPU_DEVICE_REQUEST_WIRE_SIZE :: nat where
  "QCPU_DEVICE_REQUEST_WIRE_SIZE = 24"

definition QCPU_DEVICE_RESPONSE_WIRE_SIZE :: nat where
  "QCPU_DEVICE_RESPONSE_WIRE_SIZE = 56"

lemmas protocol_consts =
  QCPU_DEVICE_PROTOCOL_VERSION_def QCPU_DEVICE_REQUEST_MAGIC_def QCPU_DEVICE_RESPONSE_MAGIC_def
  QCPU_DEVICE_MAX_QUBITS_def QCPU_DEVICE_MAX_SHOTS_def
  QCPU_DEVICE_COMMAND_STATUS_def QCPU_DEVICE_COMMAND_RUN_GHZ_def

section \<open>Little-endian stores and loads\<close>

definition put_u16_le :: "u8 list \<Rightarrow> nat \<Rightarrow> u16 \<Rightarrow> u8 list" where
  "put_u16_le output off value =
     output[off := ucast (value AND 0xff), off + 1 := ucast (drop_bit 8 value)]"

definition put_u32_le :: "u8 list \<Rightarrow> nat \<Rightarrow> u32 \<Rightarrow> u8 list" where
  "put_u32_le output off value =
     output[off := ucast (value AND 0xff),
            off + 1 := ucast (drop_bit 8 value AND 0xff),
            off + 2 := ucast (drop_bit 16 value AND 0xff),
            off + 3 := ucast (drop_bit 24 value)]"

definition put_u64_le :: "u8 list \<Rightarrow> nat \<Rightarrow> u64 \<Rightarrow> u8 list" where
  "put_u64_le output off value =
     foldl (\<lambda>out index. out[off + index := ucast (drop_bit (index * 8) value)]) output [0..<8]"

definition get_u16_le :: "u8 list \<Rightarrow> nat \<Rightarrow> u16" where
  "get_u16_le input off = ucast (input ! off) OR push_bit 8 (ucast (input ! (off + 1)))"

definition get_u32_le :: "u8 list \<Rightarrow> nat \<Rightarrow> u32" where
  "get_u32_le input off =
     ((ucast (input ! off) OR
       push_bit 8 (ucast (input ! (off + 1)))) OR
       push_bit 16 (ucast (input ! (off + 2)))) OR
       push_bit 24 (ucast (input ! (off + 3)))"

definition get_u64_le :: "u8 list \<Rightarrow> nat \<Rightarrow> u64" where
  "get_u64_le input off =
     foldl (\<lambda>value index. value OR push_bit (index * 8) (ucast (input ! (off + index)))) 0 [0..<8]"

text \<open>Both conversions are a \<^verbatim>\<open>memcpy\<close> of the eight bytes of the object.\<close>

definition double_to_u64 :: "u64 \<Rightarrow> u64" where
  "double_to_u64 value = value"

definition u64_to_double :: "u64 \<Rightarrow> u64" where
  "u64_to_double bits = bits"


section \<open>Encoding and decoding packets\<close>

definition qcpu_device_encode_request ::
  "u8 list option \<Rightarrow> QCPUDeviceRequest option \<Rightarrow> QCPUDeviceStatus \<times> u8 list option" where
  "qcpu_device_encode_request output request =
     (case (output, request) of
        (Some out, Some r) \<Rightarrow>
          (let out = put_u32_le out 0 (dq_magic r);
               out = put_u16_le out 4 (dq_version r);
               out = put_u16_le out 6 (dq_command r);
               out = put_u32_le out 8 (dq_qubits r);
               out = put_u32_le out 12 (dq_shots r);
               out = put_u64_le out 16 (dq_seed r)
           in (QCPU_DEVICE_STATUS_OK, Some out))
      | _ \<Rightarrow> (QCPU_DEVICE_STATUS_IO, output))"

definition qcpu_device_decode_request ::
  "QCPUDeviceRequest option \<Rightarrow> u8 list option \<Rightarrow> nat \<Rightarrow>
     QCPUDeviceStatus \<times> QCPUDeviceRequest option" where
  "qcpu_device_decode_request request input input_size =
     (case (request, input) of
        (Some _, Some inp) \<Rightarrow>
          (if input_size \<noteq> QCPU_DEVICE_REQUEST_WIRE_SIZE then (QCPU_DEVICE_STATUS_IO, request)
           else
             (let r = \<lparr> dq_magic = get_u32_le inp 0,
                        dq_version = get_u16_le inp 4,
                        dq_command = get_u16_le inp 6,
                        dq_qubits = get_u32_le inp 8,
                        dq_shots = get_u32_le inp 12,
                        dq_seed = get_u64_le inp 16 \<rparr>
              in if dq_magic r \<noteq> QCPU_DEVICE_REQUEST_MAGIC
                 then (QCPU_DEVICE_STATUS_BAD_MAGIC, Some r)
                 else if dq_version r \<noteq> QCPU_DEVICE_PROTOCOL_VERSION
                 then (QCPU_DEVICE_STATUS_BAD_VERSION, Some r)
                 else (QCPU_DEVICE_STATUS_OK, Some r)))
      | _ \<Rightarrow> (QCPU_DEVICE_STATUS_IO, request))"

definition qcpu_device_encode_response ::
  "u8 list option \<Rightarrow> QCPUDeviceResponse option \<Rightarrow> QCPUDeviceStatus \<times> u8 list option" where
  "qcpu_device_encode_response output response =
     (case (output, response) of
        (Some out, Some r) \<Rightarrow>
          (let out = put_u32_le out 0 (dr_magic r);
               out = put_u16_le out 4 (dr_version r);
               out = put_u16_le out 6 (dr_status r);
               out = put_u32_le out 8 (dr_flags r);
               out = put_u32_le out 12 (dr_qubits r);
               out = put_u64_le out 16 (dr_basis_states r);
               out = put_u64_le out 24 (dr_shots r);
               out = put_u64_le out 32 (dr_measured_state r);
               out = put_u64_le out 40 (dr_invalid_results r);
               out = put_u64_le out 48 (double_to_u64 (dr_norm r))
           in (QCPU_DEVICE_STATUS_OK, Some out))
      | _ \<Rightarrow> (QCPU_DEVICE_STATUS_IO, output))"

definition qcpu_device_decode_response ::
  "QCPUDeviceResponse option \<Rightarrow> u8 list option \<Rightarrow> nat \<Rightarrow>
     QCPUDeviceStatus \<times> QCPUDeviceResponse option" where
  "qcpu_device_decode_response response input input_size =
     (case (response, input) of
        (Some _, Some inp) \<Rightarrow>
          (if input_size \<noteq> QCPU_DEVICE_RESPONSE_WIRE_SIZE then (QCPU_DEVICE_STATUS_IO, response)
           else
             (let r = \<lparr> dr_magic = get_u32_le inp 0,
                        dr_version = get_u16_le inp 4,
                        dr_status = get_u16_le inp 6,
                        dr_flags = get_u32_le inp 8,
                        dr_qubits = get_u32_le inp 12,
                        dr_basis_states = get_u64_le inp 16,
                        dr_shots = get_u64_le inp 24,
                        dr_measured_state = get_u64_le inp 32,
                        dr_invalid_results = get_u64_le inp 40,
                        dr_norm = u64_to_double (get_u64_le inp 48) \<rparr>
              in if dr_magic r \<noteq> QCPU_DEVICE_RESPONSE_MAGIC
                 then (QCPU_DEVICE_STATUS_BAD_MAGIC, Some r)
                 else if dr_version r \<noteq> QCPU_DEVICE_PROTOCOL_VERSION
                 then (QCPU_DEVICE_STATUS_BAD_VERSION, Some r)
                 else (QCPU_DEVICE_STATUS_OK, Some r)))
      | _ \<Rightarrow> (QCPU_DEVICE_STATUS_IO, response))"

section \<open>The contract of a fixed-width field\<close>

text \<open>
  What the codec relies on of a store/load pair of width \<open>w\<close>: the store changes exactly the bytes
  \<open>off ..< off + w\<close>, to the bytes of the value, and the load returns the value with those bytes.
  Every other law (a load after a store, stores to other offsets, the reverse round trip)
  follows inside the locale.
\<close>

locale le_field =
  fixes put :: "u8 list \<Rightarrow> nat \<Rightarrow> 'v::len word \<Rightarrow> u8 list"
    and get :: "u8 list \<Rightarrow> nat \<Rightarrow> 'v word"
    and w :: nat
  assumes width: "LENGTH('v) = 8 * w"
    and put_length [simp]: "length (put b off v) = length b"
    and put_nth: "i < length b \<Longrightarrow>
          put b off v ! i = (if off \<le> i \<and> i < off + w then byte_of v (i - off) else b ! i)"
    and get_byte: "k < w \<Longrightarrow> byte_of (get b off) k = b ! (off + k)"
begin

lemma get_eqI:
  assumes "\<And>k. k < w \<Longrightarrow> b ! (off + k) = byte_of v k"
  shows "get b off = v"
proof (rule byte_of_inj)
  fix k
  assume "8 * k < LENGTH('v)"
  then show "byte_of (get b off) k = byte_of v k"
    using assms width by (simp add: get_byte)
qed

lemma get_put [simp]:
  assumes "off + w \<le> length b"
  shows "get (put b off v) off = v"
  using assms by (intro get_eqI) (simp add: put_nth)

lemma get_cong:
  assumes "\<And>i. off \<le> i \<Longrightarrow> i < off + w \<Longrightarrow> b ! i = b' ! i"
  shows "get b off = get b' off"
proof (rule get_eqI)
  fix k
  assume "k < w"
  then show "b ! (off + k) = byte_of (get b' off) k"
    using assms [of "off + k"] by (simp add: get_byte [of k b' off])
qed

lemma put_get_nth:
  assumes "i < length b" and "off \<le> i" and "i < off + w"
  shows "put b off (get b' off) ! i = b' ! i"
  using assms by (simp add: put_nth get_byte)

end

text \<open>Two fields at ranges that do not overlap do not disturb each other.\<close>

locale le_field_pair =
  f: le_field put get w + g: le_field put' get' w'
  for put :: "u8 list \<Rightarrow> nat \<Rightarrow> 'v::len word \<Rightarrow> u8 list"
    and get :: "u8 list \<Rightarrow> nat \<Rightarrow> 'v word" and w :: nat
    and put' :: "u8 list \<Rightarrow> nat \<Rightarrow> 'x::len word \<Rightarrow> u8 list"
    and get' :: "u8 list \<Rightarrow> nat \<Rightarrow> 'x word" and w' :: nat
begin

lemma get_put_other [simp]:
  assumes "off + w \<le> length b" and "off + w \<le> off' \<or> off' + w' \<le> off"
  shows "get (put' b off' v) off = get b off"
  using assms by (intro f.get_cong) (auto simp: g.put_nth)

end

interpretation u16: le_field put_u16_le get_u16_le 2
proof unfold_locales
  fix b :: "u8 list" and off i k :: nat and v :: u16
  show "LENGTH(16) = 8 * 2" by simp
  show "length (put_u16_le b off v) = length b" by (simp add: put_u16_le_def)
  show "i < length b \<Longrightarrow> put_u16_le b off v ! i =
      (if off \<le> i \<and> i < off + 2 then byte_of v (i - off) else b ! i)"
    by (auto simp: put_u16_le_def nth_list_update byte_of_def ucast_and_ff less_Suc_eq
        numeral_2_eq_2)
  have "get_u16_le b off = foldl (\<lambda>acc i. acc OR push_bit (i * 8) (ucast (b ! (off + i)))) 0 [0..<2]"
    by (simp add: get_u16_le_def upt_rec)
  then show "k < 2 \<Longrightarrow> byte_of (get_u16_le b off) k = b ! (off + k)"
    by (simp add: byte_of_foldl_or)
qed

interpretation u32: le_field put_u32_le get_u32_le 4
proof unfold_locales
  fix b :: "u8 list" and off i k :: nat and v :: u32
  show "LENGTH(32) = 8 * 4" by simp
  show "length (put_u32_le b off v) = length b" by (simp add: put_u32_le_def)
  have four: "off \<le> i \<and> i < off + 4 \<longleftrightarrow> i = off \<or> i = off + 1 \<or> i = off + 2 \<or> i = off + 3"
    by arith
  show "i < length b \<Longrightarrow> put_u32_le b off v ! i =
      (if off \<le> i \<and> i < off + 4 then byte_of v (i - off) else b ! i)"
    unfolding four
    by (auto simp: put_u32_le_def nth_list_update byte_of_def ucast_and_ff)
  have "get_u32_le b off = foldl (\<lambda>acc i. acc OR push_bit (i * 8) (ucast (b ! (off + i)))) 0 [0..<4]"
    by (simp add: get_u32_le_def upt_rec numeral_3_eq_3)
  then show "k < 4 \<Longrightarrow> byte_of (get_u32_le b off) k = b ! (off + k)"
    by (simp add: byte_of_foldl_or)
qed

interpretation u64: le_field put_u64_le get_u64_le 8
proof unfold_locales
  fix b :: "u8 list" and off i k :: nat and v :: u64
  show "LENGTH(64) = 8 * 8" by simp
  show "length (put_u64_le b off v) = length b" by (simp add: put_u64_le_def)
  show "i < length b \<Longrightarrow> put_u64_le b off v ! i =
      (if off \<le> i \<and> i < off + 8 then byte_of v (i - off) else b ! i)"
    by (simp add: put_u64_le_def nth_foldl_update byte_of_def mult.commute)
  show "k < 8 \<Longrightarrow> byte_of (get_u64_le b off) k = b ! (off + k)"
    by (simp add: get_u64_le_def byte_of_foldl_or)
qed

interpretation u16_u16: le_field_pair put_u16_le get_u16_le 2 put_u16_le get_u16_le 2 ..
interpretation u16_u32: le_field_pair put_u16_le get_u16_le 2 put_u32_le get_u32_le 4 ..
interpretation u16_u64: le_field_pair put_u16_le get_u16_le 2 put_u64_le get_u64_le 8 ..
interpretation u32_u16: le_field_pair put_u32_le get_u32_le 4 put_u16_le get_u16_le 2 ..
interpretation u32_u32: le_field_pair put_u32_le get_u32_le 4 put_u32_le get_u32_le 4 ..
interpretation u32_u64: le_field_pair put_u32_le get_u32_le 4 put_u64_le get_u64_le 8 ..
interpretation u64_u16: le_field_pair put_u64_le get_u64_le 8 put_u16_le get_u16_le 2 ..
interpretation u64_u32: le_field_pair put_u64_le get_u64_le 8 put_u32_le get_u32_le 4 ..
interpretation u64_u64: le_field_pair put_u64_le get_u64_le 8 put_u64_le get_u64_le 8 ..

section \<open>Round trips\<close>

lemmas wire_size_defs = QCPU_DEVICE_REQUEST_WIRE_SIZE_def QCPU_DEVICE_RESPONSE_WIRE_SIZE_def

lemmas wire_codec_defs =
  qcpu_device_encode_request_def qcpu_device_decode_request_def
  qcpu_device_encode_response_def qcpu_device_decode_response_def
  double_to_u64_def u64_to_double_def wire_size_defs

text \<open>The verdict of a decoder on a packet header.\<close>

definition header_status :: "u32 \<Rightarrow> u32 \<Rightarrow> u16 \<Rightarrow> QCPUDeviceStatus" where
  "header_status expected magic version =
     (if magic \<noteq> expected then QCPU_DEVICE_STATUS_BAD_MAGIC
      else if version \<noteq> QCPU_DEVICE_PROTOCOL_VERSION then QCPU_DEVICE_STATUS_BAD_VERSION
      else QCPU_DEVICE_STATUS_OK)"

text \<open>
  Decoding what \<^verbatim>\<open>qcpu_device_encode_request\<close> wrote gives back every field of the request, for
  every request and whatever the output buffer held before; the status is decided by the magic
  and then by the version.
\<close>

theorem request_roundtrip:
  assumes "length out = QCPU_DEVICE_REQUEST_WIRE_SIZE"
  shows "qcpu_device_decode_request (Some junk)
           (snd (qcpu_device_encode_request (Some out) (Some r))) QCPU_DEVICE_REQUEST_WIRE_SIZE
         = (header_status QCPU_DEVICE_REQUEST_MAGIC (dq_magic r) (dq_version r), Some r)"
  using assms by (simp add: wire_codec_defs header_status_def Let_def)

theorem request_roundtrip_witness:
  "qcpu_device_decode_request
     (Some \<lparr>dq_magic = 0, dq_version = 0, dq_command = 0, dq_qubits = 0, dq_shots = 0, dq_seed = 0\<rparr>)
     (snd (qcpu_device_encode_request (Some (replicate 24 0xAA))
        (Some \<lparr>dq_magic = 0x51445631, dq_version = 1, dq_command = 2, dq_qubits = 20,
               dq_shots = 100, dq_seed = 0xDEADBEEF\<rparr>))) QCPU_DEVICE_REQUEST_WIRE_SIZE
   = (QCPU_DEVICE_STATUS_OK,
      Some \<lparr>dq_magic = 0x51445631, dq_version = 1, dq_command = 2, dq_qubits = 20,
            dq_shots = 100, dq_seed = 0xDEADBEEF\<rparr>)"
  by (subst request_roundtrip) (simp_all add: wire_size_defs header_status_def protocol_consts)

text \<open>
  Decoding what \<^verbatim>\<open>qcpu_device_encode_response\<close> wrote gives back every field of the response,
  the bits of the norm included.
\<close>

theorem response_roundtrip:
  assumes "length out = QCPU_DEVICE_RESPONSE_WIRE_SIZE"
  shows "qcpu_device_decode_response (Some junk)
           (snd (qcpu_device_encode_response (Some out) (Some r))) QCPU_DEVICE_RESPONSE_WIRE_SIZE
         = (header_status QCPU_DEVICE_RESPONSE_MAGIC (dr_magic r) (dr_version r), Some r)"
  using assms by (simp add: wire_codec_defs header_status_def Let_def)

theorem response_roundtrip_witness:
  "qcpu_device_decode_response
     (Some \<lparr>dr_magic = 0, dr_version = 0, dr_status = 0, dr_flags = 0, dr_qubits = 0,
            dr_basis_states = 0, dr_shots = 0, dr_measured_state = 0, dr_invalid_results = 0,
            dr_norm = 0\<rparr>)
     (snd (qcpu_device_encode_response (Some (replicate 56 0xFF))
        (Some \<lparr>dr_magic = 0x51525631, dr_version = 2, dr_status = 0, dr_flags = 15, dr_qubits = 3,
               dr_basis_states = 8, dr_shots = 50, dr_measured_state = 7, dr_invalid_results = 0,
               dr_norm = 0x3ff0000000000000\<rparr>))) QCPU_DEVICE_RESPONSE_WIRE_SIZE
   = (QCPU_DEVICE_STATUS_BAD_VERSION,
      Some \<lparr>dr_magic = 0x51525631, dr_version = 2, dr_status = 0, dr_flags = 15, dr_qubits = 3,
            dr_basis_states = 8, dr_shots = 50, dr_measured_state = 7, dr_invalid_results = 0,
            dr_norm = 0x3ff0000000000000\<rparr>)"
  by (subst response_roundtrip) (simp_all add: wire_size_defs header_status_def protocol_consts)

lemmas field_nth = u16.put_nth u32.put_nth u64.put_nth

text \<open>Storing back, at its own offset, what was loaded from \<open>inp\<close> reproduces the bytes of \<open>inp\<close>.\<close>

lemma encode_decoded_request_nth:
  assumes "length out = 24" and "i < 24"
  shows "put_u64_le (put_u32_le (put_u32_le (put_u16_le (put_u16_le (put_u32_le out
            0 (get_u32_le inp 0)) 4 (get_u16_le inp 4)) 6 (get_u16_le inp 6))
            8 (get_u32_le inp 8)) 12 (get_u32_le inp 12)) 16 (get_u64_le inp 16) ! i = inp ! i"
  using assms by (simp add: field_nth u16.get_byte u32.get_byte u64.get_byte)

lemma encode_decoded_response_nth:
  assumes "length out = 56" and "i < 56"
  shows "put_u64_le (put_u64_le (put_u64_le (put_u64_le (put_u64_le
           (put_u32_le (put_u32_le (put_u16_le (put_u16_le (put_u32_le out
            0 (get_u32_le inp 0)) 4 (get_u16_le inp 4)) 6 (get_u16_le inp 6))
            8 (get_u32_le inp 8)) 12 (get_u32_le inp 12)) 16 (get_u64_le inp 16))
            24 (get_u64_le inp 24)) 32 (get_u64_le inp 32)) 40 (get_u64_le inp 40))
            48 (get_u64_le inp 48) ! i = inp ! i"
  using assms by (simp add: field_nth u16.get_byte u32.get_byte u64.get_byte)

text \<open>The decoders fill the struct on every header, also on one they refuse.\<close>

lemma snd_decode_request:
  "snd (qcpu_device_decode_request (Some rq) (Some inp) 24) =
     Some \<lparr> dq_magic = get_u32_le inp 0, dq_version = get_u16_le inp 4,
            dq_command = get_u16_le inp 6, dq_qubits = get_u32_le inp 8,
            dq_shots = get_u32_le inp 12, dq_seed = get_u64_le inp 16 \<rparr>"
  by (simp add: qcpu_device_decode_request_def wire_size_defs Let_def)

lemma snd_decode_response:
  "snd (qcpu_device_decode_response (Some rs) (Some inp) 56) =
     Some \<lparr> dr_magic = get_u32_le inp 0, dr_version = get_u16_le inp 4,
            dr_status = get_u16_le inp 6, dr_flags = get_u32_le inp 8,
            dr_qubits = get_u32_le inp 12, dr_basis_states = get_u64_le inp 16,
            dr_shots = get_u64_le inp 24, dr_measured_state = get_u64_le inp 32,
            dr_invalid_results = get_u64_le inp 40, dr_norm = get_u64_le inp 48 \<rparr>"
  by (simp add: qcpu_device_decode_response_def wire_size_defs u64_to_double_def Let_def)

text \<open>
  C33: the codec is a bijection on packets of the right size.  Encoding the request (response) that
  the decoder read out of any 24 (56) bytes writes exactly those bytes again: no byte of a packet
  is ignored and none is written twice.
\<close>

theorem wire_bytes_roundtrip:
  "(length inp = 24 \<and> length out = 24 \<longrightarrow>
      snd (qcpu_device_encode_request (Some out)
        (snd (qcpu_device_decode_request (Some rq) (Some inp) 24))) = Some inp) \<and>
   (length inp = 56 \<and> length out = 56 \<longrightarrow>
      snd (qcpu_device_encode_response (Some out)
        (snd (qcpu_device_decode_response (Some rs) (Some inp) 56))) = Some inp)"
  unfolding snd_decode_request snd_decode_response
  by (auto simp: qcpu_device_encode_request_def qcpu_device_encode_response_def double_to_u64_def
      Let_def encode_decoded_request_nth encode_decoded_response_nth intro!: nth_equalityI)

theorem wire_bytes_roundtrip_witness:
  "snd (qcpu_device_encode_request (Some (replicate 24 0))
     (snd (qcpu_device_decode_request
       (Some \<lparr>dq_magic = 0, dq_version = 0, dq_command = 0, dq_qubits = 0, dq_shots = 0, dq_seed = 0\<rparr>)
       (Some (replicate 24 0x5A)) 24))) = Some (replicate 24 0x5A)"
  using wire_bytes_roundtrip [of "replicate 24 0x5A" "replicate 24 0"
      "\<lparr>dq_magic = 0, dq_version = 0, dq_command = 0, dq_qubits = 0, dq_shots = 0, dq_seed = 0\<rparr>"]
  by simp

end
