(* ===== verification/Binary64.thy ===== *)
theory Binary64
  imports Prelude
begin

text \<open>
  The floating-point layer.  Arithmetic on C \<^verbatim>\<open>double\<close> (and \<^verbatim>\<open>long double\<close>) is arithmetic on reals
  followed by a rounding function, which the operations of the program take as an argument: at
  \<open>rnd_double\<close>, binary64 with round-to-nearest-even, they compute what the hardware computes
  (as long as no operation is contracted and no result leaves the normal range, which the
  components show where it matters), and at the identity they compute exactly.  The second half
  reads the sign, exponent and fraction fields of the 64-bit object representation.
\<close>

section \<open>Rounding to \<open>p\<close> significant bits\<close>

definition rne :: "real \<Rightarrow> int" where
  "rne y = (let f = \<lfloor>y\<rfloor>; d = y - of_int f
            in if d < 1 / 2 then f else if d > 1 / 2 then f + 1 else if even f then f else f + 1)"

definition rnd_prec :: "nat \<Rightarrow> real \<Rightarrow> real" where
  "rnd_prec p x =
     (if x = 0 then 0
      else let k = int p - 1 - \<lfloor>log 2 \<bar>x\<bar>\<rfloor> in of_int (rne (x * 2 powi k)) * 2 powi (- k))"

definition rnd_double :: "real \<Rightarrow> real" where
  "rnd_double = rnd_prec 53"

text \<open>The numbers a \<open>p\<close>-bit significand and an unbounded exponent can hold.\<close>

definition representable :: "nat \<Rightarrow> real \<Rightarrow> bool" where
  "representable p x \<longleftrightarrow> (\<exists>m e. x = of_int m * 2 powi e \<and> \<bar>m\<bar> \<le> 2 ^ p)"

text \<open>What the components rely on of a rounding function.\<close>

locale fp_rounding =
  fixes p :: nat and rnd :: "real \<Rightarrow> real"
  assumes prec: "2 \<le> p"
    and exact: "representable p x \<Longrightarrow> rnd x = x"
    and result: "representable p (rnd x)"
    and error: "\<bar>rnd x - x\<bar> \<le> \<bar>x\<bar> / 2 ^ p"
begin

lemma rnd_rnd [simp]: "rnd (rnd x) = rnd x"
  by (rule exact [OF result])

lemma rnd_dyadic: "\<bar>m\<bar> \<le> 2 ^ p \<Longrightarrow> rnd (of_int m * 2 powi e) = of_int m * 2 powi e"
  by (rule exact) (auto simp: representable_def)

lemma rnd_of_int: "\<bar>m\<bar> \<le> 2 ^ p \<Longrightarrow> rnd (of_int m) = of_int m"
  using rnd_dyadic [of m 0] by simp

lemma rnd_0 [simp]: "rnd 0 = 0"
  using rnd_of_int [of 0] by simp

lemma rnd_1 [simp]: "rnd 1 = 1"
  using rnd_of_int [of 1] by simp

lemma rnd_close: "0 \<le> x \<Longrightarrow> \<bar>rnd x - x\<bar> \<le> x / 2 ^ p"
  using error [of x] by simp

end

lemma rne_of_int: "rne (of_int m) = m"
  by (simp add: rne_def)

lemma rne_close: "\<bar>of_int (rne y) - y\<bar> \<le> 1 / 2"
proof -
  have "of_int \<lfloor>y\<rfloor> \<le> y" "y \<le> of_int \<lfloor>y\<rfloor> + 1" by linarith+
  then show ?thesis unfolding rne_def Let_def abs_if by (simp, linarith)
qed

lemma rne_le: "\<bar>y\<bar> \<le> of_int n \<Longrightarrow> \<bar>rne y\<bar> \<le> n"
proof -
  assume "\<bar>y\<bar> \<le> of_int n"
  then have "y \<le> of_int n" "- of_int n \<le> y" by auto
  then have "\<lfloor>y\<rfloor> \<le> n" "- n \<le> \<lfloor>y\<rfloor>" by linarith+
  moreover have "y - of_int \<lfloor>y\<rfloor> \<ge> 1 / 2 \<Longrightarrow> \<lfloor>y\<rfloor> + 1 \<le> n"
    using \<open>y \<le> of_int n\<close> by linarith
  moreover have "rne y = \<lfloor>y\<rfloor> \<or> rne y = \<lfloor>y\<rfloor> + 1 \<and> y - of_int \<lfloor>y\<rfloor> \<ge> 1 / 2"
    by (simp add: rne_def Let_def)
  ultimately show ?thesis by auto
qed

text \<open>The scaled significand lies in \<open>[2 ^ (p - 1), 2 ^ p)\<close>.\<close>

lemma scaled_bounds:
  fixes x :: real
  assumes "x \<noteq> 0" and "k = int p - 1 - \<lfloor>log 2 \<bar>x\<bar>\<rfloor>"
  shows "2 powi (int p - 1) \<le> \<bar>x * 2 powi k\<bar>" and "\<bar>x * 2 powi k\<bar> < 2 powi int p"
proof -
  define l where "l = \<lfloor>log 2 \<bar>x\<bar>\<rfloor>"
  have pos: "0 < \<bar>x\<bar>" using assms by simp
  have lo: "2 powr of_int l \<le> \<bar>x\<bar>"
    using pos by (simp add: l_def powr_le_iff)
  have hi: "\<bar>x\<bar> < 2 powr (of_int l + 1)"
    using pos by (simp add: l_def less_powr_iff)
  have k: "k = int p - 1 - l" using assms by (simp add: l_def)
  have pow: "(2 :: real) powi i = 2 powr of_int i" for i :: int
    by (simp add: powr_real_of_int')
  have abs: "\<bar>x * 2 powi k\<bar> = \<bar>x\<bar> * 2 powr of_int k" by (simp add: abs_mult pow)
  have "(2 :: real) powi (int p - 1) = 2 powr of_int l * 2 powr of_int k"
    unfolding pow by (simp add: k flip: powr_add)
  also have "\<dots> \<le> \<bar>x\<bar> * 2 powr of_int k" by (rule mult_right_mono [OF lo]) simp
  finally show "2 powi (int p - 1) \<le> \<bar>x * 2 powi k\<bar>" by (simp only: abs)
  have "\<bar>x\<bar> * 2 powr of_int k < 2 powr (of_int l + 1) * 2 powr of_int k"
    by (rule mult_strict_right_mono [OF hi]) simp
  also have "\<dots> = 2 powi int p"
    unfolding pow by (simp add: k flip: powr_add)
  finally show "\<bar>x * 2 powi k\<bar> < 2 powi int p" by (simp only: abs)
qed

lemma powi_cancel: "(2 :: real) powi k * 2 powi (- k) = 1"
  by (simp flip: power_int_add)

lemma rnd_prec_exact:
  assumes "representable p x" and "1 \<le> p"
  shows "rnd_prec p x = x"
proof (cases "x = 0")
  case False
  obtain m e where x: "x = of_int m * 2 powi e" and m: "\<bar>m\<bar> \<le> 2 ^ p"
    using assms by (auto simp: representable_def)
  define k where "k = int p - 1 - \<lfloor>log 2 \<bar>x\<bar>\<rfloor>"
  have lo: "2 powi (int p - 1) \<le> \<bar>x * 2 powi k\<bar>" 
    using scaled_bounds [OF False k_def] by simp
  have y: "x * 2 powi k = of_int m * 2 powi (e + k)"
    by (simp add: x power_int_add)
  have m': "\<bar>of_int m\<bar> \<le> (2 :: real) ^ p" using m by (metis of_int_abs of_int_le_iff of_int_numeral of_int_power)
  have "\<exists>n. x * 2 powi k = of_int n"
  proof (cases "0 \<le> e + k")
    case True
    then have "x * 2 powi k = of_int (m * 2 ^ nat (e + k))"
      unfolding y by (simp add: power_int_def)
    then show ?thesis by blast
  next
    case neg: False
    have "\<bar>x * 2 powi k\<bar> = \<bar>of_int m\<bar> * 2 powi (e + k)" by (simp add: y abs_mult)
    also have "\<dots> \<le> 2 ^ p * 2 powi (- 1)"
      using neg m' by (intro mult_mono power_int_increasing) auto
    also have "\<dots> = 2 powi (int p - 1)" by (simp add: power_int_diff)
    finally have "\<bar>x * 2 powi k\<bar> = 2 powi (int p - 1)" using lo by simp
    also have "\<dots> = of_int (2 ^ (p - 1))"
      using assms(2) by (simp add: power_int_def nat_diff_distrib)
    finally have "x * 2 powi k = of_int (2 ^ (p - 1)) \<or> x * 2 powi k = of_int (- (2 ^ (p - 1)))"
      by (auto simp: abs_if split: if_splits)
    then show ?thesis by blast
  qed
  then obtain n where n: "x * 2 powi k = of_int n" by blast
  have "rnd_prec p x = of_int n * 2 powi (- k)"
    using False by (simp add: rnd_prec_def Let_def rne_of_int n flip: k_def)
  also have "\<dots> = x * (2 powi k * 2 powi (- k))" by (simp add: n flip: mult.assoc)
  finally show ?thesis by (simp only: powi_cancel mult_1_right)
qed (simp add: rnd_prec_def)


lemma rnd_prec_result: "representable p (rnd_prec p x)"
proof (cases "x = 0")
  case True
  then show ?thesis unfolding representable_def rnd_prec_def by (intro exI [of _ 0]) simp
next
  case False
  define k where "k = int p - 1 - \<lfloor>log 2 \<bar>x\<bar>\<rfloor>"
  have "\<bar>x * 2 powi k\<bar> \<le> of_int (2 ^ p)"
    using scaled_bounds(2) [OF False k_def] by (simp add: power_int_def)
  then have "\<bar>rne (x * 2 powi k)\<bar> \<le> 2 ^ p" by (rule rne_le)
  then show ?thesis
    using False unfolding representable_def rnd_prec_def Let_def k_def [symmetric] by auto
qed

lemma rnd_prec_error: "\<bar>rnd_prec p x - x\<bar> \<le> \<bar>x\<bar> / 2 ^ p"
proof (cases "x = 0")
  case False
  define k where "k = int p - 1 - \<lfloor>log 2 \<bar>x\<bar>\<rfloor>"
  define y where "y = x * 2 powi k"
  have lo: "2 powi (int p - 1) \<le> \<bar>y\<bar>"
    using scaled_bounds(1) [OF False k_def] by (simp add: y_def)
  have half: "(2 :: real) powi (int p - 1) = 2 ^ p / 2" by (simp add: power_int_diff)
  have x: "x = y * 2 powi (- k)"
    by (simp add: y_def mult.assoc powi_cancel del: power_int_minus)
  have "rnd_prec p x = of_int (rne y) * 2 powi (- k)"
    using False by (simp add: rnd_prec_def Let_def y_def flip: k_def)
  then have "\<bar>rnd_prec p x - x\<bar> = \<bar>of_int (rne y) - y\<bar> * 2 powi (- k)"
    by (subst (2) x) (simp add: abs_mult del: power_int_minus flip: left_diff_distrib)
  also have "\<dots> \<le> 1 / 2 * 2 powi (- k)"
    using rne_close by (intro mult_right_mono) auto
  also have "\<dots> \<le> (\<bar>y\<bar> / 2 ^ p) * 2 powi (- k)"
    using lo half by (intro mult_right_mono) (auto simp: field_simps)
  also have "\<dots> = \<bar>x\<bar> / 2 ^ p" by (subst x) (simp add: abs_mult)
  finally show ?thesis .
qed (simp add: rnd_prec_def)

lemma fp_rounding_rnd_prec: "2 \<le> p \<Longrightarrow> fp_rounding p (rnd_prec p)"
  by unfold_locales (auto simp: rnd_prec_exact rnd_prec_result rnd_prec_error)

interpretation dbl: fp_rounding 53 rnd_double
  unfolding rnd_double_def by (rule fp_rounding_rnd_prec) simp

section \<open>The object representation of a binary64 number\<close>

definition dbl_sign :: "u64 \<Rightarrow> bool" where
  "dbl_sign w = bit w 63"

definition dbl_exponent :: "u64 \<Rightarrow> nat" where
  "dbl_exponent w = unat (take_bit 11 (drop_bit 52 w))"

definition dbl_fraction :: "u64 \<Rightarrow> nat" where
  "dbl_fraction w = unat (take_bit 52 w)"

text \<open>\<^verbatim>\<open>isfinite\<close>: neither a NaN nor an infinity.\<close>

definition dbl_isfinite :: "u64 \<Rightarrow> bool" where
  "dbl_isfinite w \<longleftrightarrow> dbl_exponent w \<noteq> 2047"

definition dbl_value :: "u64 \<Rightarrow> real" where
  "dbl_value w =
     (if dbl_sign w then -1 else 1) *
     (if dbl_exponent w = 0 then of_nat (dbl_fraction w) * 2 powi (- 1074)
      else of_nat (2 ^ 52 + dbl_fraction w) * 2 powi (int (dbl_exponent w) - 1075))"

text \<open>The pattern of a number of the normal range (and of zero).\<close>

definition dbl_bits :: "real \<Rightarrow> u64" where
  "dbl_bits x =
     (if x = 0 then 0
      else let e = \<lfloor>log 2 \<bar>x\<bar>\<rfloor> in
        push_bit 63 (of_bool (x < 0)) OR push_bit 52 (word_of_int (e + 1023)) OR
        word_of_int (\<lfloor>\<bar>x\<bar> * 2 powi (52 - e)\<rfloor> - 2 ^ 52))"

lemma dbl_fraction_less: "dbl_fraction w < 2 ^ 52"
  unfolding dbl_fraction_def unsigned_take_bit_eq by (rule take_bit_nat_less_exp)

lemma dbl_bits_one: "dbl_bits 1 = 0x3ff0000000000000"
  by (simp add: dbl_bits_def power_int_def push_bit_eq_mult)

lemma dbl_value_one: "dbl_isfinite 0x3ff0000000000000" "dbl_value 0x3ff0000000000000 = 1"
  by (simp_all add: dbl_isfinite_def dbl_value_def dbl_sign_def dbl_exponent_def dbl_fraction_def
      power_int_def power_divide)

end
