(* ===== verification/Kernel.thy ===== *)
theory Kernel
  imports Binary64
begin

text \<open>
  The state-vector kernel, \<^verbatim>\<open>src/src/quantum/qcpu_kernel.c\<close> and its header.  A kernel object is a
  record, the amplitude array a list of complex numbers (\<open>None\<close> for the \<^verbatim>\<open>NULL\<close> pointer), a
  pointer argument that the code checks against \<^verbatim>\<open>NULL\<close> an option.  Every operation returns its
  status and the kernel it leaves behind.  Floating-point operations round with the argument
  \<open>rnd\<close>; \<open>calloc\<close> succeeds or fails as the argument \<open>alloc_ok\<close> says.  \<^verbatim>\<open>size_t\<close> values are naturals:
  every one of them is bounded by \<open>2 ^ 20\<close> once the kernel is initialised.
\<close>

section \<open>Data\<close>

definition QCPU_KERNEL_MAX_QUBITS :: nat where
  "QCPU_KERNEL_MAX_QUBITS = 20"

definition QCPU_DEFAULT_SEED :: u64 where
  "QCPU_DEFAULT_SEED = 0x9e3779b97f4a7c15"

datatype QCPUStatus = QCPU_OK | QCPU_ERR_ARGUMENT | QCPU_ERR_RANGE | QCPU_ERR_ALLOC | QCPU_ERR_STATE

record QCPUKernel =
  qubit_count :: nat
  state_count :: nat
  amplitudes :: "complex list option"
  rng_state :: u64
  measured :: bool
  measured_state :: nat

record QCPUShotResult =
  sr_shots :: nat
  sr_state_count :: nat
  sr_counts :: "u64 list option"

text \<open>What \<^verbatim>\<open>memset(..., 0, ...)\<close> leaves in the two structs.\<close>

definition zero_kernel :: QCPUKernel where
  "zero_kernel = \<lparr> qubit_count = 0, state_count = 0, amplitudes = None, rng_state = 0,
                   measured = False, measured_state = 0 \<rparr>"

definition zero_shot_result :: QCPUShotResult where
  "zero_shot_result = \<lparr> sr_shots = 0, sr_state_count = 0, sr_counts = None \<rparr>"

section \<open>Helpers\<close>

definition qcpu_kernel_ready :: "QCPUKernel option \<Rightarrow> bool" where
  "qcpu_kernel_ready kern =
     (case kern of
        None \<Rightarrow> False
      | Some k \<Rightarrow> if amplitudes k = None \<or> qubit_count k = 0 then False
                  else state_count k = 2 ^ qubit_count k)"

definition qcpu_qubit_mask :: "QCPUKernel \<Rightarrow> nat \<Rightarrow> nat" where
  "qcpu_qubit_mask k qubit = 2 ^ (qubit_count k - 1 - qubit)"

definition qcpu_rng_next :: "QCPUKernel \<Rightarrow> u64 \<times> QCPUKernel" where
  "qcpu_rng_next k =
     (let value = rng_state k;
          value = (if value = 0 then QCPU_DEFAULT_SEED else value);
          value = value XOR drop_bit 12 value;
          value = value XOR push_bit 25 value;
          value = value XOR drop_bit 27 value
      in (value * 2685821657736338717, k\<lparr>rng_state := value\<rparr>))"

definition qcpu_rng_unit :: "(real \<Rightarrow> real) \<Rightarrow> QCPUKernel \<Rightarrow> real \<times> QCPUKernel" where
  "qcpu_rng_unit rnd k =
     (let (value, k') = qcpu_rng_next k
      in (rnd (rnd (of_nat (unat (drop_bit 11 value))) * rnd (1 / 9007199254740992)), k'))"

text \<open>\<^verbatim>\<open>real_part * real_part + imag_part * imag_part\<close>, and the running sum it is added to.\<close>

definition fp_probability :: "(real \<Rightarrow> real) \<Rightarrow> complex \<Rightarrow> real" where
  "fp_probability rnd a = rnd (rnd (Re a * Re a) + rnd (Im a * Im a))"

definition fp_accumulate :: "(real \<Rightarrow> real) \<Rightarrow> real \<Rightarrow> complex \<Rightarrow> real" where
  "fp_accumulate rnd acc a = rnd (acc + fp_probability rnd a)"

definition fp_cadd :: "(real \<Rightarrow> real) \<Rightarrow> complex \<Rightarrow> complex \<Rightarrow> complex" where
  "fp_cadd rnd a b = Complex (rnd (Re a + Re b)) (rnd (Im a + Im b))"

definition fp_csub :: "(real \<Rightarrow> real) \<Rightarrow> complex \<Rightarrow> complex \<Rightarrow> complex" where
  "fp_csub rnd a b = Complex (rnd (Re a - Re b)) (rnd (Im a - Im b))"

definition fp_cscale :: "(real \<Rightarrow> real) \<Rightarrow> complex \<Rightarrow> real \<Rightarrow> complex" where
  "fp_cscale rnd a s = Complex (rnd (Re a * s)) (rnd (Im a * s))"

text \<open>The loop of \<^verbatim>\<open>qcpu_kernel_sample\<close>, from \<open>index\<close> on.\<close>

function sample_loop ::
  "(real \<Rightarrow> real) \<Rightarrow> real \<Rightarrow> nat \<Rightarrow> complex list \<Rightarrow> nat \<Rightarrow> real \<Rightarrow> nat option" where
  "sample_loop rnd threshold n amps index cumulative =
     (if index < n then
        (let cumulative = fp_accumulate rnd cumulative (amps ! index)
         in if threshold < cumulative \<or> index + 1 = n then Some index
            else sample_loop rnd threshold n amps (index + 1) cumulative)
      else None)"
  by pat_completeness auto
termination
  by (relation "measure (\<lambda>(rnd, threshold, n, amps, index, cumulative). n - index)") auto

declare sample_loop.simps [simp del]

definition qcpu_kernel_sample ::
  "(real \<Rightarrow> real) \<Rightarrow> QCPUKernel option \<Rightarrow> nat option \<Rightarrow>
     QCPUStatus \<times> QCPUKernel option \<times> nat option" where
  "qcpu_kernel_sample rnd kern state =
     (case (kern, state) of
        (Some k, Some _) \<Rightarrow>
          (if \<not> qcpu_kernel_ready kern then (QCPU_ERR_ARGUMENT, kern, state)
           else
             (let (threshold, k') = qcpu_rng_unit rnd k
              in case sample_loop rnd threshold (state_count k') (the (amplitudes k')) 0 0 of
                   Some index \<Rightarrow> (QCPU_OK, Some k', Some index)
                 | None \<Rightarrow> (QCPU_ERR_STATE, Some k', state)))
      | _ \<Rightarrow> (QCPU_ERR_ARGUMENT, kern, state))"

section \<open>Lifecycle\<close>

definition qcpu_kernel_reset :: "QCPUKernel option \<Rightarrow> QCPUStatus \<times> QCPUKernel option" where
  "qcpu_kernel_reset kern =
     (case kern of
        None \<Rightarrow> (QCPU_ERR_ARGUMENT, kern)
      | Some k \<Rightarrow>
          if \<not> qcpu_kernel_ready kern then (QCPU_ERR_ARGUMENT, kern)
          else (QCPU_OK, Some (k\<lparr>amplitudes := Some ((replicate (state_count k) 0)[0 := Complex 1 0]),
                                 measured := False, measured_state := 0\<rparr>)))"

definition qcpu_kernel_init ::
  "bool \<Rightarrow> QCPUKernel option \<Rightarrow> nat \<Rightarrow> u64 \<Rightarrow> QCPUStatus \<times> QCPUKernel option" where
  "qcpu_kernel_init alloc_ok kern qubits seed =
     (case kern of
        None \<Rightarrow> (QCPU_ERR_ARGUMENT, kern)
      | Some _ \<Rightarrow>
          if qubits = 0 \<or> qubits > QCPU_KERNEL_MAX_QUBITS \<or> qubits \<ge> 8 * 8
          then (QCPU_ERR_RANGE, kern)
          else if \<not> alloc_ok then (QCPU_ERR_ALLOC, Some zero_kernel)
          else qcpu_kernel_reset
                 (Some (zero_kernel\<lparr>qubit_count := qubits, state_count := 2 ^ qubits,
                          rng_state := (if seed = 0 then QCPU_DEFAULT_SEED else seed),
                          amplitudes := Some (replicate (2 ^ qubits) 0)\<rparr>)))"

definition qcpu_kernel_free :: "QCPUKernel option \<Rightarrow> QCPUKernel option" where
  "qcpu_kernel_free kern = map_option (\<lambda>_. zero_kernel) kern"

section \<open>Gates\<close>

text \<open>One iteration of each gate loop; the loops run \<open>index\<close> from 0 to \<open>state_count - 1\<close>.\<close>

definition h_step :: "(real \<Rightarrow> real) \<Rightarrow> nat \<Rightarrow> complex list \<Rightarrow> nat \<Rightarrow> complex list" where
  "h_step rnd qmask amps index =
     (if index AND qmask \<noteq> 0 then amps
      else let paired = index OR qmask; first = amps ! index; second = amps ! paired;
               scale = rnd (1 / rnd (sqrt 2))
           in amps[index := fp_cscale rnd (fp_cadd rnd first second) scale,
                   paired := fp_cscale rnd (fp_csub rnd first second) scale])"

definition x_step :: "nat \<Rightarrow> complex list \<Rightarrow> nat \<Rightarrow> complex list" where
  "x_step qmask amps index =
     (if index AND qmask \<noteq> 0 then amps
      else let paired = index OR qmask; temporary = amps ! index
           in amps[index := amps ! paired, paired := temporary])"

definition cx_step :: "nat \<Rightarrow> nat \<Rightarrow> complex list \<Rightarrow> nat \<Rightarrow> complex list" where
  "cx_step control_mask target_mask amps index =
     (if index AND control_mask = 0 \<or> index AND target_mask \<noteq> 0 then amps
      else let paired = index OR target_mask; temporary = amps ! index
           in amps[index := amps ! paired, paired := temporary])"

definition qcpu_kernel_apply_h ::
  "(real \<Rightarrow> real) \<Rightarrow> QCPUKernel option \<Rightarrow> nat \<Rightarrow> QCPUStatus \<times> QCPUKernel option" where
  "qcpu_kernel_apply_h rnd kern qubit =
     (case kern of
        None \<Rightarrow> (QCPU_ERR_ARGUMENT, kern)
      | Some k \<Rightarrow>
          if \<not> qcpu_kernel_ready kern then (QCPU_ERR_ARGUMENT, kern)
          else if qubit \<ge> qubit_count k then (QCPU_ERR_RANGE, kern)
          else (QCPU_OK,
                Some (k\<lparr>amplitudes := Some (foldl (h_step rnd (qcpu_qubit_mask k qubit))
                                              (the (amplitudes k)) [0..<state_count k]),
                        measured := False\<rparr>)))"

definition qcpu_kernel_apply_x ::
  "QCPUKernel option \<Rightarrow> nat \<Rightarrow> QCPUStatus \<times> QCPUKernel option" where
  "qcpu_kernel_apply_x kern qubit =
     (case kern of
        None \<Rightarrow> (QCPU_ERR_ARGUMENT, kern)
      | Some k \<Rightarrow>
          if \<not> qcpu_kernel_ready kern then (QCPU_ERR_ARGUMENT, kern)
          else if qubit \<ge> qubit_count k then (QCPU_ERR_RANGE, kern)
          else (QCPU_OK,
                Some (k\<lparr>amplitudes := Some (foldl (x_step (qcpu_qubit_mask k qubit))
                                              (the (amplitudes k)) [0..<state_count k]),
                        measured := False\<rparr>)))"

definition qcpu_kernel_apply_cx ::
  "QCPUKernel option \<Rightarrow> nat \<Rightarrow> nat \<Rightarrow> QCPUStatus \<times> QCPUKernel option" where
  "qcpu_kernel_apply_cx kern control target =
     (case kern of
        None \<Rightarrow> (QCPU_ERR_ARGUMENT, kern)
      | Some k \<Rightarrow>
          if \<not> qcpu_kernel_ready kern then (QCPU_ERR_ARGUMENT, kern)
          else if control \<ge> qubit_count k \<or> target \<ge> qubit_count k \<or> control = target
          then (QCPU_ERR_RANGE, kern)
          else (QCPU_OK,
                Some (k\<lparr>amplitudes := Some (foldl
                                 (cx_step (qcpu_qubit_mask k control) (qcpu_qubit_mask k target))
                                 (the (amplitudes k)) [0..<state_count k]),
                        measured := False\<rparr>)))"

text \<open>The chain of controlled-X gates of \<^verbatim>\<open>qcpu_kernel_apply_ghz\<close>, qubits \<open>qubit\<close> onwards.\<close>

fun ghz_chain :: "QCPUKernel option \<Rightarrow> nat list \<Rightarrow> QCPUStatus \<times> QCPUKernel option" where
  "ghz_chain kern [] = (QCPU_OK, kern)"
| "ghz_chain kern (qubit # qubits) =
     (case qcpu_kernel_apply_cx kern (qubit - 1) qubit of
        (QCPU_OK, kern') \<Rightarrow> ghz_chain kern' qubits
      | (status, kern') \<Rightarrow> (status, kern'))"

definition qcpu_kernel_apply_ghz ::
  "(real \<Rightarrow> real) \<Rightarrow> QCPUKernel option \<Rightarrow> QCPUStatus \<times> QCPUKernel option" where
  "qcpu_kernel_apply_ghz rnd kern =
     (case kern of
        None \<Rightarrow> (QCPU_ERR_ARGUMENT, kern)
      | Some k \<Rightarrow>
          if \<not> qcpu_kernel_ready kern then (QCPU_ERR_ARGUMENT, kern)
          else (case qcpu_kernel_reset kern of
                  (QCPU_OK, kern1) \<Rightarrow>
                    (case qcpu_kernel_apply_h rnd kern1 0 of
                       (QCPU_OK, kern2) \<Rightarrow> ghz_chain kern2 [1..<qubit_count k]
                     | (status, kern2) \<Rightarrow> (status, kern2))
                | (status, kern1) \<Rightarrow> (status, kern1)))"

section \<open>Norm, measurement and shots\<close>

definition qcpu_kernel_norm :: "(real \<Rightarrow> real) \<Rightarrow> QCPUKernel option \<Rightarrow> real" where
  "qcpu_kernel_norm rnd kern =
     (if \<not> qcpu_kernel_ready kern then 0
      else foldl (\<lambda>norm index. fp_accumulate rnd norm (the (amplitudes (the kern)) ! index)) 0
             [0..<state_count (the kern)])"

definition qcpu_kernel_validate ::
  "(real \<Rightarrow> real) \<Rightarrow> QCPUKernel option \<Rightarrow> real \<Rightarrow> QCPUStatus" where
  "qcpu_kernel_validate rnd kern tolerance =
     (if \<not> qcpu_kernel_ready kern \<or> tolerance \<le> 0 then QCPU_ERR_ARGUMENT
      else if \<bar>rnd (qcpu_kernel_norm rnd kern - 1)\<bar> > tolerance then QCPU_ERR_STATE
      else QCPU_OK)"

definition qcpu_kernel_measure ::
  "(real \<Rightarrow> real) \<Rightarrow> QCPUKernel option \<Rightarrow> nat option \<Rightarrow>
     QCPUStatus \<times> QCPUKernel option \<times> nat option" where
  "qcpu_kernel_measure rnd kern out =
     (if \<not> qcpu_kernel_ready kern \<or> out = None then (QCPU_ERR_ARGUMENT, kern, out)
      else (case qcpu_kernel_sample rnd kern (Some 0) of
              (QCPU_OK, Some k, Some state) \<Rightarrow>
                (QCPU_OK,
                 Some (k\<lparr>amplitudes := Some ((replicate (state_count k) 0)[state := Complex 1 0]),
                         measured := True, measured_state := state\<rparr>),
                 Some state)
            | (status, kern', _) \<Rightarrow> (status, kern', out)))"

definition qcpu_shot_result_free :: "QCPUShotResult option \<Rightarrow> QCPUShotResult option" where
  "qcpu_shot_result_free result = map_option (\<lambda>_. zero_shot_result) result"

text \<open>The loop of \<^verbatim>\<open>qcpu_kernel_run_shots\<close>, with the number of shots still to take.\<close>

fun shots_loop ::
  "(real \<Rightarrow> real) \<Rightarrow> nat \<Rightarrow> QCPUKernel option \<Rightarrow> QCPUShotResult \<Rightarrow>
     QCPUStatus \<times> QCPUKernel option \<times> QCPUShotResult option" where
  "shots_loop rnd 0 kern result = (QCPU_OK, kern, Some result)"
| "shots_loop rnd (Suc n) kern result =
     (case qcpu_kernel_sample rnd kern (Some 0) of
        (QCPU_OK, kern', Some state) \<Rightarrow>
          shots_loop rnd n kern'
            (result\<lparr>sr_counts := map_option (\<lambda>c. c[state := c ! state + 1]) (sr_counts result)\<rparr>)
      | (status, kern', _) \<Rightarrow> (status, kern', qcpu_shot_result_free (Some result)))"

definition qcpu_kernel_run_shots ::
  "(real \<Rightarrow> real) \<Rightarrow> bool \<Rightarrow> QCPUKernel option \<Rightarrow> nat \<Rightarrow> QCPUShotResult option \<Rightarrow>
     QCPUStatus \<times> QCPUKernel option \<times> QCPUShotResult option" where
  "qcpu_kernel_run_shots rnd alloc_ok kern shots result =
     (if \<not> qcpu_kernel_ready kern \<or> result = None \<or> shots = 0
      then (QCPU_ERR_ARGUMENT, kern, result)
      else if \<not> alloc_ok then (QCPU_ERR_ALLOC, kern, Some zero_shot_result)
      else shots_loop rnd shots kern
             \<lparr> sr_shots = shots, sr_state_count = state_count (the kern),
               sr_counts = Some (replicate (state_count (the kern)) 0) \<rparr>)"

fun qcpu_status_string :: "QCPUStatus \<Rightarrow> string" where
  "qcpu_status_string QCPU_OK = ''QCPU_OK''"
| "qcpu_status_string QCPU_ERR_ARGUMENT = ''QCPU_ERR_ARGUMENT''"
| "qcpu_status_string QCPU_ERR_RANGE = ''QCPU_ERR_RANGE''"
| "qcpu_status_string QCPU_ERR_ALLOC = ''QCPU_ERR_ALLOC''"
| "qcpu_status_string QCPU_ERR_STATE = ''QCPU_ERR_STATE''"

section \<open>What the gate loops compute\<close>

lemma length_h_step [simp]: "length (h_step rnd qmask amps i) = length amps"
  by (simp add: h_step_def Let_def)

lemma length_x_step [simp]: "length (x_step qmask amps i) = length amps"
  by (simp add: x_step_def Let_def)

lemma length_cx_step [simp]: "length (cx_step cmask tmask amps i) = length amps"
  by (simp add: cx_step_def Let_def)

lemma length_gate_loops [simp]:
  "length (foldl (h_step rnd qmask) amps is) = length amps"
  "length (foldl (x_step qmask) amps is) = length amps"
  "length (foldl (cx_step cmask tmask) amps is) = length amps"
  by (simp_all add: length_foldl_step)

definition h_scale :: "(real \<Rightarrow> real) \<Rightarrow> real" where
  "h_scale rnd = rnd (1 / rnd (sqrt 2))"

lemma h_loop_nth:
  assumes "length amps = 2 ^ q" and "b < q" and "j < 2 ^ q"
  shows "foldl (h_step rnd (2 ^ b)) amps [0..<2 ^ q] ! j =
     (if bit j b then fp_cscale rnd (fp_csub rnd (amps ! flip_bit b j) (amps ! j)) (h_scale rnd)
      else fp_cscale rnd (fp_cadd rnd (amps ! j) (amps ! flip_bit b j)) (h_scale rnd))"
  using assms
  by (subst nth_pair_loop [where P = "\<lambda>i. \<not> bit i b" and flip = "flip_bit b"
        and f = "\<lambda>x y. fp_cscale rnd (fp_cadd rnd x y) (h_scale rnd)"
        and g = "\<lambda>x y. fp_cscale rnd (fp_csub rnd x y) (h_scale rnd)"])
    (simp_all add: h_step_def h_scale_def Let_def and_exp_neq_0_iff or_exp_eq_flip_bit
      flip_bit_less_exp)

lemma x_loop_nth:
  assumes "length amps = 2 ^ q" and "b < q" and "j < 2 ^ q"
  shows "foldl (x_step (2 ^ b)) amps [0..<2 ^ q] ! j = amps ! flip_bit b j"
  using assms
  by (subst nth_pair_loop [where P = "\<lambda>i. \<not> bit i b" and flip = "flip_bit b"
        and f = "\<lambda>x y. y" and g = "\<lambda>x y. x"])
    (simp_all add: x_step_def Let_def and_exp_neq_0_iff or_exp_eq_flip_bit flip_bit_less_exp)

lemma cx_loop_nth:
  assumes "length amps = 2 ^ q" and "c < q" and "t < q" and "c \<noteq> t" and "j < 2 ^ q"
  shows "foldl (cx_step (2 ^ c) (2 ^ t)) amps [0..<2 ^ q] ! j =
     (if bit j c then amps ! flip_bit t j else amps ! j)"
proof -
  have c: "bit (flip_bit t i :: nat) c = bit i c" for i using assms(4) by (simp add: bit_simps)
  show ?thesis
    using assms
    by (subst nth_pair_loop [where P = "\<lambda>i. bit i c \<and> \<not> bit i t" and flip = "flip_bit t"
          and f = "\<lambda>x y. y" and g = "\<lambda>x y. x"])
      (auto simp: cx_step_def Let_def and_exp_neq_0_iff
        or_exp_eq_flip_bit flip_bit_less_exp c)
qed

section \<open>Well-formed kernels\<close>

definition wf_kernel :: "QCPUKernel \<Rightarrow> bool" where
  "wf_kernel k \<longleftrightarrow>
     1 \<le> qubit_count k \<and> qubit_count k \<le> QCPU_KERNEL_MAX_QUBITS \<and>
     state_count k = 2 ^ qubit_count k \<and>
     (\<exists>amps. amplitudes k = Some amps \<and> length amps = state_count k) \<and>
     rng_state k \<noteq> 0 \<and> measured_state k < state_count k"

lemma wf_kernel_ready: "wf_kernel k \<Longrightarrow> qcpu_kernel_ready (Some k)"
  by (auto simp: wf_kernel_def qcpu_kernel_ready_def)

lemma wf_kernelE:
  assumes "wf_kernel k"
  obtains amps where "amplitudes k = Some amps" "length amps = 2 ^ qubit_count k"
    "state_count k = 2 ^ qubit_count k" "1 \<le> qubit_count k" "qubit_count k \<le> 20"
  using assms by (auto simp: wf_kernel_def QCPU_KERNEL_MAX_QUBITS_def)

text \<open>The xorshift steps are injective, so the generator never leaves the nonzero states.\<close>

lemma xor_shift_right_eq_0:
  fixes v :: "'a::len word"
  assumes "v XOR drop_bit k v = 0" and "0 < k"
  shows "v = 0"
proof (rule ccontr)
  assume "v \<noteq> 0"
  then obtain n where "bit v n" by (auto simp: bit_eq_iff)
  define m where "m = Max {n. bit v n}"
  have fin: "finite {n. bit v n}"
    by (rule finite_subset [of _ "{..<LENGTH('a)}"]) (auto dest: bit_imp_le_length)
  have "bit v m" using Max_in [OF fin] \<open>bit v n\<close> by (auto simp: m_def)
  moreover have "\<not> bit v (k + m)"
  proof
    assume "bit v (k + m)"
    then have "k + m \<le> m" using Max_ge [OF fin, of "k + m"] by (simp add: m_def)
    then show False using assms(2) by simp
  qed
  ultimately have "bit (v XOR drop_bit k v) m" by (simp add: bit_simps)
  then show False using assms(1) by simp
qed

lemma xor_shift_left_eq_0:
  fixes v :: "'a::len word"
  assumes "v XOR push_bit k v = 0" and "0 < k"
  shows "v = 0"
proof (rule bit_word_eqI)
  fix n
  have eq: "bit v n = bit (push_bit k v) n" for n
  proof -
    have "bit (v XOR push_bit k v) n = bit (0 :: 'a word) n" using assms(1) by simp
    then show ?thesis by (simp add: bit_xor_iff)
  qed
  have "\<not> bit v n"
  proof (induction n rule: less_induct)
    case (less n)
    then show ?case using assms(2) eq [of n] by (auto simp: bit_simps)
  qed
  then show "bit v n = bit 0 n" by simp
qed

lemma rng_next_nonzero: "rng_state (snd (qcpu_rng_next k)) \<noteq> 0"
proof -
  have seed: "(if v = 0 then QCPU_DEFAULT_SEED else v) \<noteq> 0" for v :: u64
    by (simp add: QCPU_DEFAULT_SEED_def)
  have step: "(v XOR drop_bit 12 v) \<noteq> 0" "(v XOR push_bit 25 v) \<noteq> 0" "(v XOR drop_bit 27 v) \<noteq> 0"
    if "v \<noteq> 0" for v :: u64
    using that xor_shift_right_eq_0 [of v 12] xor_shift_right_eq_0 [of v 27]
      xor_shift_left_eq_0 [of v 25] by auto
  define v0 where "v0 = (if rng_state k = 0 then QCPU_DEFAULT_SEED else rng_state k)"
  define v1 where "v1 = v0 XOR drop_bit 12 v0"
  define v2 where "v2 = v1 XOR push_bit 25 v1"
  have "rng_state (snd (qcpu_rng_next k)) = v2 XOR drop_bit 27 v2"
    unfolding qcpu_rng_next_def Let_def v2_def v1_def v0_def by simp
  moreover have "v0 \<noteq> 0" unfolding v0_def by (rule seed)
  moreover from \<open>v0 \<noteq> 0\<close> have "v1 \<noteq> 0" unfolding v1_def by (rule step)
  moreover from \<open>v1 \<noteq> 0\<close> have "v2 \<noteq> 0" unfolding v2_def by (rule step)
  ultimately show ?thesis using step(3) by metis
qed

lemma rng_unit_frame:
  "snd (qcpu_rng_unit rnd k) = k\<lparr>rng_state := rng_state (snd (qcpu_rng_unit rnd k))\<rparr>"
  "rng_state (snd (qcpu_rng_unit rnd k)) \<noteq> 0"
  using rng_next_nonzero [of k]
  by (simp_all add: qcpu_rng_unit_def qcpu_rng_next_def Let_def split: prod.splits)

section \<open>Every operation keeps the kernel well-formed\<close>

lemma sample_loop_Some:
  assumes "index < n"
  shows "\<exists>j. sample_loop rnd thr n amps index c = Some j \<and> index \<le> j \<and> j < n"
  using assms
proof (induction rnd thr n amps index c rule: sample_loop.induct)
  case (1 rnd thr n amps index c)
  let ?c = "fp_accumulate rnd c (amps ! index)"
  show ?case
  proof (cases "thr < ?c \<or> index + 1 = n")
    case True
    then show ?thesis using 1 by (subst sample_loop.simps) simp
  next
    case False
    then have "\<exists>j. sample_loop rnd thr n amps (index + 1) ?c = Some j \<and> index + 1 \<le> j \<and> j < n"
      using 1 by (intro "1.IH") auto
    then show ?thesis using 1 False by (subst sample_loop.simps) (auto simp: Let_def)
  qed
qed

lemma sample_wf:
  assumes "wf_kernel k"
  shows "\<exists>r j. qcpu_kernel_sample rnd (Some k) (Some s) = (QCPU_OK, Some (k\<lparr>rng_state := r\<rparr>), Some j)
    \<and> r \<noteq> 0 \<and> j < state_count k"
proof -
  obtain t k' where u: "qcpu_rng_unit rnd k = (t, k')" by force
  have k': "k' = k\<lparr>rng_state := rng_state k'\<rparr>" "rng_state k' \<noteq> 0"
    using rng_unit_frame [of rnd k] by (simp_all add: u)
  have sc: "state_count k' = state_count k" and am: "amplitudes k' = amplitudes k"
    by (subst k'(1), simp)+
  have "0 < state_count k" using assms by (simp add: wf_kernel_def)
  then obtain j where "sample_loop rnd t (state_count k) (the (amplitudes k)) 0 0 = Some j"
    "j < state_count k" using sample_loop_Some by blast
  then show ?thesis
    using k' wf_kernel_ready [OF assms] by (auto simp: qcpu_kernel_sample_def u sc am)
qed

lemma wf_kernel_amps: "wf_kernel k \<Longrightarrow> length (the (amplitudes k)) = state_count k"
  by (auto simp: wf_kernel_def)

lemma wf_kernel_rng [simp]: "r \<noteq> 0 \<Longrightarrow> wf_kernel k \<Longrightarrow> wf_kernel (k\<lparr>rng_state := r\<rparr>)"
  by (auto simp: wf_kernel_def)

lemma init_wf:
  assumes "1 \<le> n" and "n \<le> QCPU_KERNEL_MAX_QUBITS"
  shows "\<exists>k. qcpu_kernel_init True (Some k0) n seed = (QCPU_OK, Some k) \<and> wf_kernel k \<and>
     qubit_count k = n \<and> measured k = False \<and>
     amplitudes k = Some ((replicate (2 ^ n) 0)[0 := Complex 1 0])"
  using assms
  by (auto simp: qcpu_kernel_init_def qcpu_kernel_reset_def qcpu_kernel_ready_def wf_kernel_def
      QCPU_KERNEL_MAX_QUBITS_def QCPU_DEFAULT_SEED_def zero_kernel_def)

text \<open>
  The operations that change a kernel in place share one contract: on a well-formed kernel they
  return a well-formed kernel of the same size, and unless they return \<^verbatim>\<open>QCPU_OK\<close> they return
  the kernel they were given.
\<close>

locale kernel_operation =
  fixes oper :: "QCPUKernel option \<Rightarrow> QCPUStatus \<times> QCPUKernel option"
  assumes keeps_wf: "wf_kernel k \<Longrightarrow>
      \<exists>status k'. oper (Some k) = (status, Some k') \<and> wf_kernel k' \<and> qubit_count k' = qubit_count k \<and>
        (status \<noteq> QCPU_OK \<longrightarrow> k' = k)"
    and null: "oper None = (QCPU_ERR_ARGUMENT, None)"
begin

lemma snd_Some: "wf_kernel k \<Longrightarrow> \<exists>k'. snd (oper (Some k)) = Some k' \<and> wf_kernel k' \<and> qubit_count k' = qubit_count k"
  using keeps_wf by force

lemma error_keeps_kernel: "wf_kernel k \<Longrightarrow> fst (oper (Some k)) \<noteq> QCPU_OK \<Longrightarrow> snd (oper (Some k)) = Some k"
  using keeps_wf by force

end

lemma wf_kernel_update:
  "wf_kernel k \<Longrightarrow> length amps = state_count k \<Longrightarrow> ms < state_count k \<Longrightarrow>
     wf_kernel (k\<lparr>amplitudes := Some amps, measured := m, measured_state := ms\<rparr>)"
  "wf_kernel k \<Longrightarrow> length amps = state_count k \<Longrightarrow> wf_kernel (k\<lparr>amplitudes := Some amps, measured := m\<rparr>)"
  by (auto simp: wf_kernel_def)

interpretation op_reset: kernel_operation qcpu_kernel_reset
proof unfold_locales
  fix k
  assume wf: "wf_kernel k"
  then have "0 < state_count k" by (simp add: wf_kernel_def)
  then show "\<exists>status k'. qcpu_kernel_reset (Some k) = (status, Some k') \<and> wf_kernel k' \<and>
      qubit_count k' = qubit_count k \<and> (status \<noteq> QCPU_OK \<longrightarrow> k' = k)"
    using wf wf_kernel_ready [OF wf]
    by (auto simp: qcpu_kernel_reset_def intro: wf_kernel_update)
qed (simp add: qcpu_kernel_reset_def)

interpretation op_h: kernel_operation "\<lambda>k. qcpu_kernel_apply_h rnd k qubit" for rnd qubit
proof unfold_locales
  fix k
  assume wf: "wf_kernel k"
  then show "\<exists>status k'. qcpu_kernel_apply_h rnd (Some k) qubit = (status, Some k') \<and> wf_kernel k' \<and>
      qubit_count k' = qubit_count k \<and> (status \<noteq> QCPU_OK \<longrightarrow> k' = k)"
    using wf_kernel_ready [OF wf]
    by (auto simp: qcpu_kernel_apply_h_def wf_kernel_amps intro!: wf_kernel_update)
qed (simp add: qcpu_kernel_apply_h_def)

interpretation op_x: kernel_operation "\<lambda>k. qcpu_kernel_apply_x k qubit" for qubit
proof unfold_locales
  fix k
  assume wf: "wf_kernel k"
  then show "\<exists>status k'. qcpu_kernel_apply_x (Some k) qubit = (status, Some k') \<and> wf_kernel k' \<and>
      qubit_count k' = qubit_count k \<and> (status \<noteq> QCPU_OK \<longrightarrow> k' = k)"
    using wf_kernel_ready [OF wf]
    by (auto simp: qcpu_kernel_apply_x_def wf_kernel_amps intro!: wf_kernel_update)
qed (simp add: qcpu_kernel_apply_x_def)

interpretation op_cx: kernel_operation "\<lambda>k. qcpu_kernel_apply_cx k control target" for control target
proof unfold_locales
  fix k
  assume wf: "wf_kernel k"
  then show "\<exists>status k'. qcpu_kernel_apply_cx (Some k) control target = (status, Some k') \<and>
      wf_kernel k' \<and> qubit_count k' = qubit_count k \<and> (status \<noteq> QCPU_OK \<longrightarrow> k' = k)"
    using wf_kernel_ready [OF wf]
    by (auto simp: qcpu_kernel_apply_cx_def wf_kernel_amps intro!: wf_kernel_update)
qed (simp add: qcpu_kernel_apply_cx_def)


lemma ghz_chain_wf:
  assumes "wf_kernel k" and "\<And>q. q \<in> set qs \<Longrightarrow> 0 < q \<and> q < qubit_count k"
  shows "\<exists>k'. ghz_chain (Some k) qs = (QCPU_OK, Some k') \<and> wf_kernel k' \<and> qubit_count k' = qubit_count k"
  using assms
proof (induction qs arbitrary: k)
  case (Cons q qs)
  have "0 < q" "q < qubit_count k" using Cons.prems(2) [of q] by auto
  then have "\<exists>k1. qcpu_kernel_apply_cx (Some k) (q - 1) q = (QCPU_OK, Some k1)"
    using wf_kernel_ready [OF Cons.prems(1)] by (simp add: qcpu_kernel_apply_cx_def) arith
  then obtain k1 where k1: "qcpu_kernel_apply_cx (Some k) (q - 1) q = (QCPU_OK, Some k1)" by blast
  then have "wf_kernel k1" "qubit_count k1 = qubit_count k"
    using op_cx.keeps_wf [OF Cons.prems(1), of "q - 1" q] by auto
  then show ?case using Cons.IH [of k1] Cons.prems(2) k1 by auto
qed simp

interpretation op_ghz: kernel_operation "qcpu_kernel_apply_ghz rnd" for rnd
proof unfold_locales
  fix k
  assume wf: "wf_kernel k"
  then obtain k1 where r: "qcpu_kernel_reset (Some k) = (QCPU_OK, Some k1)" "wf_kernel k1"
      "qubit_count k1 = qubit_count k"
    using wf_kernel_ready [OF wf] op_reset.keeps_wf [OF wf] by (auto simp: qcpu_kernel_reset_def)
  have "0 < qubit_count k1" using r(2) by (simp add: wf_kernel_def)
  then obtain k2 where h: "qcpu_kernel_apply_h rnd (Some k1) 0 = (QCPU_OK, Some k2)" "wf_kernel k2"
      "qubit_count k2 = qubit_count k"
    using r wf_kernel_ready [OF r(2)] op_h.keeps_wf [OF r(2), of rnd 0]
    by (auto simp: qcpu_kernel_apply_h_def)
  have "\<exists>k'. ghz_chain (Some k2) [1..<qubit_count k] = (QCPU_OK, Some k') \<and> wf_kernel k' \<and>
      qubit_count k' = qubit_count k2"
    by (rule ghz_chain_wf [OF h(2)]) (auto simp: h(3))
  then show "\<exists>status k'. qcpu_kernel_apply_ghz rnd (Some k) = (status, Some k') \<and> wf_kernel k' \<and>
      qubit_count k' = qubit_count k \<and> (status \<noteq> QCPU_OK \<longrightarrow> k' = k)"
    using r h wf_kernel_ready [OF wf] by (auto simp: qcpu_kernel_apply_ghz_def)
qed (simp add: qcpu_kernel_apply_ghz_def)

text \<open>Measurement and shots as operations on the kernel alone.\<close>

definition measure_op :: "(real \<Rightarrow> real) \<Rightarrow> QCPUKernel option \<Rightarrow> QCPUStatus \<times> QCPUKernel option" where
  "measure_op rnd kern = (case qcpu_kernel_measure rnd kern (Some 0) of (st, kern', _) \<Rightarrow> (st, kern'))"

definition shots_op ::
  "(real \<Rightarrow> real) \<Rightarrow> bool \<Rightarrow> u64 \<Rightarrow> QCPUKernel option \<Rightarrow> QCPUStatus \<times> QCPUKernel option" where
  "shots_op rnd alloc_ok shots kern =
     (case qcpu_kernel_run_shots rnd alloc_ok kern (unat shots) (Some zero_shot_result) of
        (st, kern', _) \<Rightarrow> (st, kern'))"

lemma measure_wf:
  assumes wf: "wf_kernel k"
  shows "\<exists>r j. qcpu_kernel_measure rnd (Some k) (Some out) =
     (QCPU_OK, Some (k\<lparr>rng_state := r,
                       amplitudes := Some ((replicate (state_count k) 0)[j := Complex 1 0]),
                       measured := True, measured_state := j\<rparr>), Some j)
     \<and> r \<noteq> 0 \<and> j < state_count k"
  using sample_wf [OF wf, of rnd 0] wf_kernel_ready [OF wf]
  by (auto simp: qcpu_kernel_measure_def)

interpretation op_measure: kernel_operation "measure_op rnd" for rnd
proof unfold_locales
  fix k
  assume wf: "wf_kernel k"
  obtain r j where "qcpu_kernel_measure rnd (Some k) (Some 0) =
     (QCPU_OK, Some (k\<lparr>rng_state := r,
                       amplitudes := Some ((replicate (state_count k) 0)[j := Complex 1 0]),
                       measured := True, measured_state := j\<rparr>), Some j)" "r \<noteq> 0" "j < state_count k"
    using measure_wf [OF wf] by blast
  then show "\<exists>status k'. measure_op rnd (Some k) = (status, Some k') \<and> wf_kernel k' \<and>
      qubit_count k' = qubit_count k \<and> (status \<noteq> QCPU_OK \<longrightarrow> k' = k)"
    using wf by (auto simp: measure_op_def intro!: wf_kernel_update)
qed (simp add: measure_op_def qcpu_kernel_measure_def qcpu_kernel_ready_def)

text \<open>The shot loop on a well-formed kernel: it never fails and counts every shot once.\<close>

lemma shots_loop_wf:
  assumes "wf_kernel k" and "sr_counts res = Some c" and "length c = state_count k"
    and "sum_list (map unat c) + n < 2 ^ 64"
  shows "\<exists>r c'. shots_loop rnd n (Some k) res =
       (QCPU_OK, Some (k\<lparr>rng_state := r\<rparr>), Some (res\<lparr>sr_counts := Some c'\<rparr>))
     \<and> r \<noteq> 0 \<and> length c' = state_count k \<and> sum_list (map unat c') = sum_list (map unat c) + n"
  using assms
proof (induction n arbitrary: k res c)
  case 0
  then show ?case
    by (intro exI [of _ "rng_state k"] exI [of _ c]) (auto simp: wf_kernel_def)
next
  case (Suc n)
  obtain r j where s: "qcpu_kernel_sample rnd (Some k) (Some 0) =
      (QCPU_OK, Some (k\<lparr>rng_state := r\<rparr>), Some j)" "r \<noteq> 0" "j < state_count k"
    using sample_wf [OF Suc.prems(1)] by blast
  define c1 where "c1 = c[j := c ! j + 1]"
  have j: "j < length c" using s(3) Suc.prems(3) by simp
  have le: "unat (c ! j) \<le> sum_list (map unat c)"
    using j by (auto intro: member_le_sum_list)
  have u: "unat (c ! j + 1) = unat (c ! j) + 1"
    using le Suc.prems(4) by (simp add: unat_word_ariths)
  have sum: "sum_list (map unat c1) = sum_list (map unat c) + 1"
    using j le by (simp add: c1_def map_update sum_list_update u)
  have "\<exists>r' c'. shots_loop rnd n (Some (k\<lparr>rng_state := r\<rparr>)) (res\<lparr>sr_counts := Some c1\<rparr>) =
       (QCPU_OK, Some (k\<lparr>rng_state := r\<rparr>\<lparr>rng_state := r'\<rparr>), Some (res\<lparr>sr_counts := Some c1\<rparr>\<lparr>sr_counts := Some c'\<rparr>))
     \<and> r' \<noteq> 0 \<and> length c' = state_count (k\<lparr>rng_state := r\<rparr>)
     \<and> sum_list (map unat c') = sum_list (map unat c1) + n"
    using Suc.prems s sum by (intro Suc.IH) (auto simp: c1_def)
  then show ?case using s Suc.prems(2) sum by (auto simp: c1_def)
qed

lemma unat_less_64: "unat (v :: u64) < 2 ^ 64"
  using unsigned_less [of v] by simp

lemma run_shots_wf:
  assumes wf: "wf_kernel k" and shots: "0 < shots" "shots < 2 ^ 64"
  shows "\<exists>r c. qcpu_kernel_run_shots rnd True (Some k) shots (Some res) =
       (QCPU_OK, Some (k\<lparr>rng_state := r\<rparr>),
        Some \<lparr>sr_shots = shots, sr_state_count = state_count k, sr_counts = Some c\<rparr>)
     \<and> r \<noteq> 0 \<and> length c = state_count k \<and> sum_list (map unat c) = shots"
proof -
  let ?res = "\<lparr>sr_shots = shots, sr_state_count = state_count k,
               sr_counts = Some (replicate (state_count k) 0)\<rparr>"
  have "\<exists>r c'. shots_loop rnd shots (Some k) ?res =
       (QCPU_OK, Some (k\<lparr>rng_state := r\<rparr>), Some (?res\<lparr>sr_counts := Some c'\<rparr>))
     \<and> r \<noteq> 0 \<and> length c' = state_count k \<and>
     sum_list (map unat c') = sum_list (map unat (replicate (state_count k) (0 :: u64))) + shots"
    using wf shots by (intro shots_loop_wf) (simp_all add: sum_list_replicate)
  then show ?thesis
    using wf_kernel_ready [OF wf] shots by (auto simp: qcpu_kernel_run_shots_def sum_list_replicate)
qed

interpretation op_shots: kernel_operation "shots_op rnd alloc_ok shots" for rnd alloc_ok shots
proof unfold_locales
  fix k
  assume wf: "wf_kernel k"
  show "\<exists>status k'. shots_op rnd alloc_ok shots (Some k) = (status, Some k') \<and> wf_kernel k' \<and>
      qubit_count k' = qubit_count k \<and> (status \<noteq> QCPU_OK \<longrightarrow> k' = k)"
  proof (cases "alloc_ok \<and> shots \<noteq> 0")
    case True
    then have "0 < unat shots" by (simp add: unat_gt_0)
    then obtain r c where "qcpu_kernel_run_shots rnd True (Some k) (unat shots) (Some zero_shot_result) =
       (QCPU_OK, Some (k\<lparr>rng_state := r\<rparr>), c)" "r \<noteq> 0"
      using run_shots_wf [OF wf _ unat_less_64] by metis
    then show ?thesis using True wf by (simp add: shots_op_def)
  next
    case False
    then show ?thesis
      using wf wf_kernel_ready [OF wf] by (auto simp: shots_op_def qcpu_kernel_run_shots_def)
  qed
qed (simp add: shots_op_def qcpu_kernel_run_shots_def qcpu_kernel_ready_def)

section \<open>Programs over the kernel interface\<close>

datatype kernel_op =
    Op_reset
  | Op_h nat
  | Op_x nat
  | Op_cx nat nat
  | Op_ghz
  | Op_measure
  | Op_shots bool u64

fun kernel_exec ::
  "(real \<Rightarrow> real) \<Rightarrow> kernel_op \<Rightarrow> QCPUKernel option \<Rightarrow> QCPUStatus \<times> QCPUKernel option" where
  "kernel_exec rnd Op_reset kern = qcpu_kernel_reset kern"
| "kernel_exec rnd (Op_h qubit) kern = qcpu_kernel_apply_h rnd kern qubit"
| "kernel_exec rnd (Op_x qubit) kern = qcpu_kernel_apply_x kern qubit"
| "kernel_exec rnd (Op_cx control target) kern = qcpu_kernel_apply_cx kern control target"
| "kernel_exec rnd Op_ghz kern = qcpu_kernel_apply_ghz rnd kern"
| "kernel_exec rnd Op_measure kern = measure_op rnd kern"
| "kernel_exec rnd (Op_shots alloc_ok shots) kern = shots_op rnd alloc_ok shots kern"

fun kernel_run :: "(real \<Rightarrow> real) \<Rightarrow> kernel_op list \<Rightarrow> QCPUKernel option \<Rightarrow> QCPUKernel option" where
  "kernel_run rnd [] kern = kern"
| "kernel_run rnd (p # ps) kern = kernel_run rnd ps (snd (kernel_exec rnd p kern))"

interpretation op_any: kernel_operation "kernel_exec rnd p" for rnd p
proof (unfold_locales, goal_cases)
  case (1 k)
  then show ?case
    by (cases p) (simp_all add: op_reset.keeps_wf op_h.keeps_wf op_x.keeps_wf op_cx.keeps_wf
        op_ghz.keeps_wf op_measure.keeps_wf op_shots.keeps_wf)
next
  case 2
  then show ?case
    by (cases p) (simp_all add: op_reset.null op_h.null op_x.null op_cx.null
        op_ghz.null op_measure.null op_shots.null)
qed

lemma kernel_run_wf:
  "wf_kernel k \<Longrightarrow> \<exists>k'. kernel_run rnd ps (Some k) = Some k' \<and> wf_kernel k' \<and> qubit_count k' = qubit_count k"
proof (induction ps arbitrary: k)
  case (Cons p ps)
  then show ?case using op_any.snd_Some [of k rnd p] by fastforce
qed simp

text \<open>
  C39: after a successful \<^verbatim>\<open>qcpu_kernel_init\<close>, whatever sequence of resets, gates, GHZ
  preparations, measurements and shot runs follows, with whatever rounding and whatever
  arguments, the kernel stays well-formed (array of \<open>2 ^ qubits\<close> amplitudes, nonzero generator
  state, measured state in range) and keeps its number of qubits.
\<close>

theorem kernel_always_wf:
  assumes "1 \<le> n" and "n \<le> QCPU_KERNEL_MAX_QUBITS"
  shows "\<exists>k. kernel_run rnd ps (snd (qcpu_kernel_init True (Some k0) n seed)) = Some k \<and>
     wf_kernel k \<and> qubit_count k = n"
  using init_wf [OF assms, of k0 seed] kernel_run_wf by fastforce

theorem kernel_always_wf_witness:
  "\<exists>k. kernel_run rnd_double [Op_ghz, Op_shots True 50, Op_measure, Op_h 7, Op_reset]
      (snd (qcpu_kernel_init True (Some zero_kernel) 3 0)) = Some k \<and> wf_kernel k \<and> qubit_count k = 3"
  by (rule kernel_always_wf) (simp_all add: QCPU_KERNEL_MAX_QUBITS_def)

end
