(* ===== verification/Kernel_Gates.thy ===== *)
theory Kernel_Gates
  imports Kernel
begin

text \<open>
  Algebra of the gates of \<^verbatim>\<open>qcpu_kernel.c\<close>: their status on every argument, that X, CX and H
  are involutions, and that every gate preserves the norm that \<^verbatim>\<open>qcpu_kernel_norm\<close> computes.
  The statements about H and about the norm are about exact arithmetic (\<open>rnd = id\<close>); those about
  X and CX, which only move amplitudes, hold for every rounding.
\<close>

text \<open>Qubit 0 is the most significant bit of a basis-state index.\<close>

definition qubit_bit :: "QCPUKernel \<Rightarrow> nat \<Rightarrow> nat" where
  "qubit_bit k qubit = qubit_count k - 1 - qubit"

lemma qubit_mask_exp: "qcpu_qubit_mask k qubit = 2 ^ qubit_bit k qubit"
  by (simp add: qcpu_qubit_mask_def qubit_bit_def)

lemma qubit_bit_less [simp]: "qubit < qubit_count k \<Longrightarrow> qubit_bit k qubit < qubit_count k"
  by (simp add: qubit_bit_def)

lemma qubit_bit_eq_iff [simp]:
  "a < qubit_count k \<Longrightarrow> b < qubit_count k \<Longrightarrow> qubit_bit k a = qubit_bit k b \<longleftrightarrow> a = b"
  by (auto simp: qubit_bit_def)

lemma qubit_bit_update [simp]:
  "qubit_bit (k\<lparr>amplitudes := x, measured := y\<rparr>) qubit = qubit_bit k qubit"
  by (simp add: qubit_bit_def)

lemma wf_kernel_map_amps [simp]:
  "wf_kernel k \<Longrightarrow> wf_kernel (k\<lparr>amplitudes := Some (map f [0..<2 ^ qubit_count k]), measured := m\<rparr>)"
  by (auto simp: wf_kernel_def)

lemma apply_x_wf:
  assumes "wf_kernel k" and "qubit < qubit_count k"
  shows "qcpu_kernel_apply_x (Some k) qubit =
     (QCPU_OK, Some (k\<lparr>amplitudes := Some (map (\<lambda>j. the (amplitudes k) ! flip_bit (qubit_bit k qubit) j)
                                            [0..<2 ^ qubit_count k]),
                       measured := False\<rparr>))"
proof -
  have "foldl (x_step (2 ^ qubit_bit k qubit)) (the (amplitudes k)) [0..<2 ^ qubit_count k]
      = map (\<lambda>j. the (amplitudes k) ! flip_bit (qubit_bit k qubit) j) [0..<2 ^ qubit_count k]"
    using assms by (intro nth_equalityI) (auto simp: x_loop_nth elim!: wf_kernelE)
  then show ?thesis
    using assms wf_kernel_ready [OF assms(1)]
    by (auto simp: qcpu_kernel_apply_x_def qubit_mask_exp elim!: wf_kernelE)
qed

lemma apply_cx_wf:
  assumes "wf_kernel k" and "c < qubit_count k" and "t < qubit_count k" and "c \<noteq> t"
  shows "qcpu_kernel_apply_cx (Some k) c t =
     (QCPU_OK, Some (k\<lparr>amplitudes := Some (map (\<lambda>j. if bit j (qubit_bit k c)
                           then the (amplitudes k) ! flip_bit (qubit_bit k t) j
                           else the (amplitudes k) ! j) [0..<2 ^ qubit_count k]),
                       measured := False\<rparr>))"
proof -
  let ?c = "qubit_bit k c" and ?t = "qubit_bit k t"
  have "?c \<noteq> ?t" using assms by auto
  then have "foldl (cx_step (2 ^ ?c) (2 ^ ?t)) (the (amplitudes k)) [0..<2 ^ qubit_count k]
      = map (\<lambda>j. if bit j ?c then the (amplitudes k) ! flip_bit ?t j else the (amplitudes k) ! j)
          [0..<2 ^ qubit_count k]"
    using assms by (intro nth_equalityI) (auto simp: cx_loop_nth elim!: wf_kernelE)
  then show ?thesis
    using assms wf_kernel_ready [OF assms(1)]
    by (auto simp: qcpu_kernel_apply_cx_def qubit_mask_exp elim!: wf_kernelE)
qed

definition h_amp :: "(real \<Rightarrow> real) \<Rightarrow> nat \<Rightarrow> complex list \<Rightarrow> nat \<Rightarrow> complex" where
  "h_amp rnd b amps j =
     (if bit j b then fp_cscale rnd (fp_csub rnd (amps ! flip_bit b j) (amps ! j)) (h_scale rnd)
      else fp_cscale rnd (fp_cadd rnd (amps ! j) (amps ! flip_bit b j)) (h_scale rnd))"

lemma apply_h_wf:
  assumes "wf_kernel k" and "qubit < qubit_count k"
  shows "qcpu_kernel_apply_h rnd (Some k) qubit =
     (QCPU_OK, Some (k\<lparr>amplitudes := Some (map (h_amp rnd (qubit_bit k qubit) (the (amplitudes k)))
                                            [0..<2 ^ qubit_count k]),
                       measured := False\<rparr>))"
proof -
  have "foldl (h_step rnd (2 ^ qubit_bit k qubit)) (the (amplitudes k)) [0..<2 ^ qubit_count k]
      = map (h_amp rnd (qubit_bit k qubit) (the (amplitudes k))) [0..<2 ^ qubit_count k]"
    using assms by (intro nth_equalityI) (auto simp: h_loop_nth h_amp_def elim!: wf_kernelE)
  then show ?thesis
    using assms wf_kernel_ready [OF assms(1)]
    by (auto simp: qcpu_kernel_apply_h_def qubit_mask_exp elim!: wf_kernelE)
qed

section \<open>Statuses\<close>

lemma gate_out_of_range:
  assumes "wf_kernel k"
  shows "\<not> a < qubit_count k \<Longrightarrow> qcpu_kernel_apply_h rnd (Some k) a = (QCPU_ERR_RANGE, Some k)"
    and "\<not> a < qubit_count k \<Longrightarrow> qcpu_kernel_apply_x (Some k) a = (QCPU_ERR_RANGE, Some k)"
    and "\<not> (a < qubit_count k \<and> b < qubit_count k \<and> a \<noteq> b) \<Longrightarrow>
      qcpu_kernel_apply_cx (Some k) a b = (QCPU_ERR_RANGE, Some k)"
  using wf_kernel_ready [OF assms]
  by (auto simp: qcpu_kernel_apply_h_def qcpu_kernel_apply_x_def qcpu_kernel_apply_cx_def)

text \<open>
  On a well-formed kernel a gate succeeds exactly when its qubits are in range (and distinct,
  for the controlled gate); otherwise it reports \<^verbatim>\<open>QCPU_ERR_RANGE\<close> and leaves the kernel as it
  was.  A \<^verbatim>\<open>NULL\<close> kernel is \<^verbatim>\<open>QCPU_ERR_ARGUMENT\<close>.
\<close>

theorem gate_status:
  assumes "wf_kernel k"
  shows "qcpu_kernel_apply_h rnd None a = (QCPU_ERR_ARGUMENT, None) \<and>
     (\<forall>g \<in> {qcpu_kernel_apply_h rnd (Some k) a, qcpu_kernel_apply_x (Some k) a}.
        fst g = (if a < qubit_count k then QCPU_OK else QCPU_ERR_RANGE) \<and>
        (\<not> a < qubit_count k \<longrightarrow> snd g = Some k)) \<and>
     fst (qcpu_kernel_apply_cx (Some k) a b) =
       (if a < qubit_count k \<and> b < qubit_count k \<and> a \<noteq> b then QCPU_OK else QCPU_ERR_RANGE) \<and>
     (\<not> (a < qubit_count k \<and> b < qubit_count k \<and> a \<noteq> b) \<longrightarrow>
        snd (qcpu_kernel_apply_cx (Some k) a b) = Some k)"
  using assms
  by (auto simp: apply_h_wf apply_x_wf apply_cx_wf gate_out_of_range op_h.null)

text \<open>A concrete well-formed kernel, for the witnesses: two qubits in an unbalanced state.\<close>

definition sample_kernel :: QCPUKernel where
  "sample_kernel = \<lparr> qubit_count = 2, state_count = 4, amplitudes = Some [1, 2, 3, 4],
     rng_state = 7, measured = True, measured_state = 3 \<rparr>"

lemma wf_sample_kernel: "wf_kernel sample_kernel"
  by (simp add: wf_kernel_def sample_kernel_def QCPU_KERNEL_MAX_QUBITS_def)

theorem gate_status_witness:
  "fst (qcpu_kernel_apply_cx (Some sample_kernel) 0 1) = QCPU_OK \<and>
   fst (qcpu_kernel_apply_h id (Some sample_kernel) 2) = QCPU_ERR_RANGE"
  using gate_status [OF wf_sample_kernel, of id 0 1] gate_status [OF wf_sample_kernel, of id 2 0]
  by (simp add: sample_kernel_def)

section \<open>Involutions\<close>

lemma map_nth_amps:
  assumes "wf_kernel k"
  shows "map ((!) (the (amplitudes k))) [0..<2 ^ qubit_count k] = the (amplitudes k)"
  using assms by (auto intro!: nth_equalityI elim!: wf_kernelE)

text \<open>Rewriting the amplitudes twice by index maps that undo each other.\<close>

lemma twice_amplitudes:
  assumes wf: "wf_kernel k"
    and eq: "\<And>j. j < 2 ^ qubit_count k \<Longrightarrow> f j = the (amplitudes k) ! j"
  shows "k\<lparr>amplitudes := Some (map f [0..<2 ^ qubit_count k]), measured := False\<rparr> =
     k\<lparr>measured := False\<rparr>"
proof -
  have "map f [0..<2 ^ qubit_count k] = map ((!) (the (amplitudes k))) [0..<2 ^ qubit_count k]"
    using eq by simp
  then have "Some (map f [0..<2 ^ qubit_count k]) = amplitudes k"
    using wf by (auto simp: map_nth_amps elim!: wf_kernelE)
  then show ?thesis by simp
qed

text \<open>
  Applying X twice to a qubit, or CX twice to a pair, restores every amplitude, under every
  rounding of floating-point results; only the \<^verbatim>\<open>measured\<close> flag is cleared.
\<close>

theorem x_cx_involution:
  assumes "wf_kernel k" and "a < qubit_count k" and "b < qubit_count k" and "a \<noteq> b"
  shows "qcpu_kernel_apply_x (snd (qcpu_kernel_apply_x (Some k) a)) a =
           (QCPU_OK, Some (k\<lparr>measured := False\<rparr>)) \<and>
         qcpu_kernel_apply_cx (snd (qcpu_kernel_apply_cx (Some k) a b)) a b =
           (QCPU_OK, Some (k\<lparr>measured := False\<rparr>))"
proof -
  have ctl: "bit (flip_bit (qubit_bit k b) j :: nat) (qubit_bit k a) = bit j (qubit_bit k a)" for j
    using assms by (simp add: bit_simps)
  show ?thesis
    using assms by (simp add: apply_x_wf apply_cx_wf twice_amplitudes flip_bit_less_exp ctl)
qed

theorem x_cx_involution_witness:
  "qcpu_kernel_apply_x (snd (qcpu_kernel_apply_x (Some sample_kernel) 0)) 0 =
     (QCPU_OK, Some (sample_kernel\<lparr>measured := False\<rparr>)) \<and>
   qcpu_kernel_apply_cx (snd (qcpu_kernel_apply_cx (Some sample_kernel) 0 1)) 0 1 =
     (QCPU_OK, Some (sample_kernel\<lparr>measured := False\<rparr>))"
  by (rule x_cx_involution [OF wf_sample_kernel]) (simp_all add: sample_kernel_def)

section \<open>H in exact arithmetic\<close>

lemma h_scale_id: "h_scale id * h_scale id = 1 / 2"
  by (simp add: h_scale_def)

lemma h_amp_id:
  "h_amp id b amps j =
     (if bit j b then (amps ! flip_bit b j - amps ! j) else (amps ! j + amps ! flip_bit b j))
       * complex_of_real (h_scale id)"
  by (auto simp: h_amp_def fp_cscale_def fp_csub_def fp_cadd_def complex_eq_iff)

lemma h_amp_id_twice:
  assumes "length amps = 2 ^ q" and "b < q" and "j < 2 ^ q"
  shows "h_amp id b (map (h_amp id b amps) [0..<2 ^ q]) j = amps ! j"
proof -
  have f: "flip_bit b j < 2 ^ q" using assms by (simp add: flip_bit_less_exp)
  have s: "complex_of_real (h_scale id) * complex_of_real (h_scale id) = 1 / 2"
    using h_scale_id by (metis of_real_divide of_real_mult of_real_1 of_real_numeral)
  have half: "(u * complex_of_real (h_scale id) + v * complex_of_real (h_scale id)) * complex_of_real (h_scale id)
     = (u + v) / 2" "(u * complex_of_real (h_scale id) - v * complex_of_real (h_scale id)) * complex_of_real (h_scale id)
     = (u - v) / 2" for u v
    using s by (simp_all add: mult.assoc flip: distrib_right left_diff_distrib)
  show ?thesis
    using assms(3) f by (simp add: h_amp_id half)
qed

text \<open>
  In exact arithmetic H is its own inverse: applied twice to the same qubit of any
  well-formed kernel it restores every amplitude.
\<close>

theorem h_involution:
  assumes "wf_kernel k" and "a < qubit_count k"
  shows "qcpu_kernel_apply_h id (snd (qcpu_kernel_apply_h id (Some k) a)) a =
           (QCPU_OK, Some (k\<lparr>measured := False\<rparr>))"
proof -
  have "length (the (amplitudes k)) = 2 ^ qubit_count k"
    using assms(1) by (auto elim: wf_kernelE)
  then show ?thesis
    using assms by (simp add: apply_h_wf twice_amplitudes h_amp_id_twice)
qed

theorem h_involution_witness:
  "qcpu_kernel_apply_h id (snd (qcpu_kernel_apply_h id (Some sample_kernel) 1)) 1 =
     (QCPU_OK, Some (sample_kernel\<lparr>measured := False\<rparr>))"
  by (rule h_involution [OF wf_sample_kernel]) (simp add: sample_kernel_def)

section \<open>The norm\<close>

lemma foldl_add_upt: "foldl (\<lambda>s i. s + f i) c [0..<n] = c + (\<Sum>i<n. f i :: real)"
  by (induction n) (simp_all add: lessThan_Suc)

lemma norm_id:
  assumes "wf_kernel k"
  shows "qcpu_kernel_norm id (Some k) = (\<Sum>j<2 ^ qubit_count k. (cmod (the (amplitudes k) ! j))\<^sup>2)"
  using wf_kernel_ready [OF assms] assms
  by (auto simp: qcpu_kernel_norm_def fp_accumulate_def fp_probability_def foldl_add_upt cmod_power2
      elim!: wf_kernelE) (simp add: power2_eq_square)

lemma norm_id_map_amps:
  assumes "wf_kernel k"
  shows "qcpu_kernel_norm id (Some (k\<lparr>amplitudes := Some (map f [0..<2 ^ qubit_count k]), measured := m\<rparr>)) =
     (\<Sum>j<2 ^ qubit_count k. (cmod (f j))\<^sup>2)"
proof -
  have "(\<Sum>j<2 ^ qubit_count k. (cmod (map f [0..<2 ^ qubit_count k] ! j))\<^sup>2) =
      (\<Sum>j<2 ^ qubit_count k. (cmod (f j))\<^sup>2)"
    by (intro sum.cong) simp_all
  then show ?thesis using assms by (simp add: norm_id)
qed

text \<open>A sum over all indices may be taken pairwise over an index and its partner.\<close>

lemma sum_flip_bit:
  assumes "b < q"
  shows "(\<Sum>j<2 ^ q. F (flip_bit b j)) = (\<Sum>j<(2 :: nat) ^ q. F j :: real)"
  by (rule sum.reindex_bij_witness [of _ "flip_bit b" "flip_bit b"])
    (use assms in \<open>auto simp: flip_bit_less_exp\<close>)

lemma sum_pairwise:
  fixes F G :: "nat \<Rightarrow> real"
  assumes "b < q" and "\<And>j. j < 2 ^ q \<Longrightarrow> F j + F (flip_bit b j) = G j + G (flip_bit b j)"
  shows "(\<Sum>j<2 ^ q. F j) = (\<Sum>j<2 ^ q. G j)"
proof -
  have "(\<Sum>j<2 ^ q. F j + F (flip_bit b j)) = (\<Sum>j<2 ^ q. G j + G (flip_bit b j))"
    using assms(2) by (intro sum.cong) auto
  then show ?thesis using assms(1) by (simp add: sum.distrib sum_flip_bit)
qed

lemma parallelogram:
  "(cmod ((x + y) * complex_of_real (h_scale id)))\<^sup>2 + (cmod ((x - y) * complex_of_real (h_scale id)))\<^sup>2
     = (cmod x)\<^sup>2 + (cmod y)\<^sup>2"
proof -
  have s: "(h_scale id)\<^sup>2 = 1 / 2" using h_scale_id by (simp add: power2_eq_square)
  have "(cmod (x + y))\<^sup>2 + (cmod (x - y))\<^sup>2 = 2 * ((cmod x)\<^sup>2 + (cmod y)\<^sup>2)"
    by (simp add: cmod_power2) (simp add: power2_eq_square algebra_simps)
  then show ?thesis by (simp add: norm_mult power_mult_distrib s flip: distrib_right) 
qed

lemma h_pair_norm:
  assumes "length amps = 2 ^ q" and "b < q" and "j < 2 ^ q"
  shows "(cmod (h_amp id b amps j))\<^sup>2 + (cmod (h_amp id b amps (flip_bit b j)))\<^sup>2 =
     (cmod (amps ! j))\<^sup>2 + (cmod (amps ! flip_bit b j))\<^sup>2"
  using parallelogram [of "amps ! j" "amps ! flip_bit b j"]
    parallelogram [of "amps ! flip_bit b j" "amps ! j"]
  by (auto simp: h_amp_id add.commute)

text \<open>
  C40: in exact arithmetic every gate preserves the norm of the state vector, whatever its
  arguments (an argument out of range changes nothing).
\<close>

theorem gates_preserve_norm:
  assumes "wf_kernel k"
  shows "qcpu_kernel_norm id (snd (qcpu_kernel_apply_h id (Some k) a)) = qcpu_kernel_norm id (Some k) \<and>
     qcpu_kernel_norm id (snd (qcpu_kernel_apply_x (Some k) a)) = qcpu_kernel_norm id (Some k) \<and>
     qcpu_kernel_norm id (snd (qcpu_kernel_apply_cx (Some k) a b)) = qcpu_kernel_norm id (Some k)"
proof (intro conjI)
  let ?q = "qubit_count k" and ?A = "the (amplitudes k)"
  have len: "length ?A = 2 ^ ?q" using assms by (auto elim: wf_kernelE)
  show "qcpu_kernel_norm id (snd (qcpu_kernel_apply_h id (Some k) a)) = qcpu_kernel_norm id (Some k)"
  proof (cases "a < ?q")
    case True
    have "(\<Sum>j<2 ^ ?q. (cmod (h_amp id (qubit_bit k a) ?A j))\<^sup>2) = (\<Sum>j<2 ^ ?q. (cmod (?A ! j))\<^sup>2)"
      using True len by (intro sum_pairwise [where b = "qubit_bit k a"] h_pair_norm) auto
    then show ?thesis using True assms by (simp add: apply_h_wf norm_id_map_amps norm_id [OF assms])
  qed (simp add: gate_out_of_range [OF assms])
  show "qcpu_kernel_norm id (snd (qcpu_kernel_apply_x (Some k) a)) = qcpu_kernel_norm id (Some k)"
  proof (cases "a < ?q")
    case True
    have "(\<Sum>j<2 ^ ?q. (cmod (?A ! flip_bit (qubit_bit k a) j))\<^sup>2) = (\<Sum>j<2 ^ ?q. (cmod (?A ! j))\<^sup>2)"
      using True by (intro sum_flip_bit [where F = "\<lambda>j. (cmod (?A ! j))\<^sup>2"]) auto
    then show ?thesis using True assms by (simp add: apply_x_wf norm_id_map_amps norm_id [OF assms])
  qed (simp add: gate_out_of_range [OF assms])
  show "qcpu_kernel_norm id (snd (qcpu_kernel_apply_cx (Some k) a b)) = qcpu_kernel_norm id (Some k)"
  proof (cases "a < ?q \<and> b < ?q \<and> a \<noteq> b")
    case True
    let ?a = "qubit_bit k a" and ?b = "qubit_bit k b"
    let ?f = "\<lambda>j. if bit j ?a then ?A ! flip_bit ?b j else ?A ! j"
    have ctl: "bit (flip_bit ?b j :: nat) ?a = bit j ?a" for j
      using True by (auto simp: bit_simps)
    have "(\<Sum>j<2 ^ ?q. (cmod (?f j))\<^sup>2) = (\<Sum>j<2 ^ ?q. (cmod (?A ! j))\<^sup>2)"
      using True by (intro sum_pairwise [where b = "?b"]) (auto simp: ctl)
    then show ?thesis using True assms by (simp add: apply_cx_wf norm_id_map_amps norm_id [OF assms])
  qed (simp add: gate_out_of_range [OF assms])
qed

theorem gates_preserve_norm_witness:
  "qcpu_kernel_norm id (snd (qcpu_kernel_apply_h id (Some sample_kernel) 0)) =
     qcpu_kernel_norm id (Some sample_kernel)"
  using gates_preserve_norm [OF wf_sample_kernel] by blast

end
