(* ===== verification/Ghz.thy ===== *)
theory Ghz
  imports Kernel_Gates
begin

text \<open>
  The GHZ workload of \<^verbatim>\<open>qcpu_kernel.c\<close>, floating-point rounding included: the state that
  \<^verbatim>\<open>qcpu_kernel_apply_ghz\<close> prepares, its norm, and what sampling, shot runs and measurement can
  return on it.  The lemmas are proved once in the context of \<open>fp_rounding\<close> and used at
  \<open>rnd_double\<close>.
\<close>

section \<open>States with two equal amplitudes\<close>

definition two_point :: "nat \<Rightarrow> nat \<Rightarrow> 'a::zero \<Rightarrow> 'a list" where
  "two_point N j s = (replicate N 0)[0 := s, j := s]"

lemma length_two_point [simp]: "length (two_point N j s) = N"
  by (simp add: two_point_def)

lemma two_point_nth: "i < N \<Longrightarrow> two_point N j s ! i = (if i = 0 \<or> i = j then s else 0)"
  by (cases "i = j") (auto simp: two_point_def nth_list_update)

text \<open>The index whose bits \<open>lo ..< n\<close> are set.\<close>

definition top_ones :: "nat \<Rightarrow> nat \<Rightarrow> nat" where
  "top_ones n lo = push_bit lo (mask (n - lo))"

lemma bit_top_ones: "lo \<le> n \<Longrightarrow> bit (top_ones n lo) i \<longleftrightarrow> lo \<le> i \<and> i < n"
  by (auto simp: top_ones_def bit_simps)

lemma top_ones_less: "lo \<le> n \<Longrightarrow> top_ones n lo < 2 ^ n"
  by (simp add: nat_less_exp_iff_bits bit_top_ones)

lemma top_ones_0: "top_ones n 0 = 2 ^ n - 1"
  by (simp add: top_ones_def mask_eq_exp_minus_1)

lemma flip_top_ones: "Suc lo \<le> n \<Longrightarrow> flip_bit lo (top_ones n (Suc lo)) = top_ones n lo"
  by (rule bit_eqI) (auto simp: bit_simps bit_top_ones)

lemma top_ones_start: "0 < n \<Longrightarrow> top_ones n (n - Suc 0) = 2 ^ (n - Suc 0)"
  by (simp add: top_ones_def push_bit_eq_mult)

lemma flip_bit_eq_iff: "flip_bit b i = j \<longleftrightarrow> i = flip_bit b (j :: nat)"
  by auto

text \<open>One controlled-X of the chain moves the second amplitude one bit further down.\<close>

lemma cx_two_point:
  assumes lo: "Suc lo < n"
  shows "map (\<lambda>j. if bit j (Suc lo) then two_point (2 ^ n) (top_ones n (Suc lo)) s ! flip_bit lo j
                  else two_point (2 ^ n) (top_ones n (Suc lo)) s ! j) [0..<2 ^ n]
     = two_point (2 ^ n) (top_ones n lo) s"
proof (rule nth_equalityI)
  fix j
  assume "j < length (map (\<lambda>j. if bit j (Suc lo) then two_point (2 ^ n) (top_ones n (Suc lo)) s ! flip_bit lo j
                  else two_point (2 ^ n) (top_ones n (Suc lo)) s ! j) [0..<2 ^ n])"
  then have j: "j < 2 ^ n" by simp
  have f: "flip_bit lo j < 2 ^ n" using lo j by (simp add: flip_bit_less_exp)
  have bits: "bit (top_ones n (Suc lo)) (Suc lo)" "bit (top_ones n lo) (Suc lo)"
    "\<not> bit (flip_bit lo 0 :: nat) (Suc lo)"
    using lo by (simp_all add: bit_top_ones bit_simps)
  have "(if bit j (Suc lo) then two_point (2 ^ n) (top_ones n (Suc lo)) s ! flip_bit lo j
         else two_point (2 ^ n) (top_ones n (Suc lo)) s ! j) = two_point (2 ^ n) (top_ones n lo) s ! j"
  proof (cases "bit j (Suc lo)")
    case True
    then have "j \<noteq> 0" by (cases "j = 0") auto
    moreover have "j \<noteq> flip_bit lo 0" using True bits(3) by blast
    ultimately have "j \<noteq> 0" "j \<noteq> flip_bit lo 0" .
    then show ?thesis
      using True f j lo by (simp add: two_point_nth flip_bit_eq_iff flip_top_ones)
  next
    case False
    then have "j \<noteq> top_ones n (Suc lo)" "j \<noteq> top_ones n lo" using bits by auto
    then show ?thesis using False j by (simp add: two_point_nth)
  qed
  then show "map (\<lambda>j. if bit j (Suc lo) then two_point (2 ^ n) (top_ones n (Suc lo)) s ! flip_bit lo j
                  else two_point (2 ^ n) (top_ones n (Suc lo)) s ! j) [0..<2 ^ n] ! j
     = two_point (2 ^ n) (top_ones n lo) s ! j"
    using j by (simp split del: if_split cong: if_cong)
qed simp

section \<open>The prepared state\<close>

definition ghz_kernel :: "(real \<Rightarrow> real) \<Rightarrow> QCPUKernel \<Rightarrow> QCPUKernel" where
  "ghz_kernel rnd k =
     k\<lparr>amplitudes := Some (two_point (2 ^ qubit_count k) (2 ^ qubit_count k - 1)
                            (Complex (h_scale rnd) 0)),
       measured := False, measured_state := 0\<rparr>"

lemma ghz_chain_two_point:
  assumes "wf_kernel k" and "1 \<le> q" and "q \<le> qubit_count k"
    and "amplitudes k = Some (two_point (2 ^ qubit_count k) (top_ones (qubit_count k) (qubit_count k - q)) s)"
    and "measured k = False"
  shows "ghz_chain (Some k) [q..<qubit_count k] =
     (QCPU_OK, Some (k\<lparr>amplitudes := Some (two_point (2 ^ qubit_count k) (2 ^ qubit_count k - 1) s)\<rparr>))"
  using assms
proof (induction "qubit_count k - q" arbitrary: q k)
  case 0
  then have "q = qubit_count k" by simp
  then show ?case using 0 by (simp add: top_ones_0 flip: 0(5))
next
  case (Suc d)
  let ?n = "qubit_count k"
  let ?k = "k\<lparr>amplitudes := Some (two_point (2 ^ ?n) (top_ones ?n (?n - Suc q)) s)\<rparr>"
  have q: "q < ?n" using Suc by simp
  then have qs: "[q..<?n] = q # [Suc q..<?n]" by (rule upt_conv_Cons)
  have c: "qubit_bit k (q - Suc 0) = Suc (?n - Suc q)" and t: "qubit_bit k q = ?n - Suc q"
    using Suc.prems(2) q by (auto simp: qubit_bit_def)
  have lo: "?n - q = Suc (?n - Suc q)" using q by simp
  have "qcpu_kernel_apply_cx (Some k) (q - Suc 0) q = (QCPU_OK, Some (?k\<lparr>measured := False\<rparr>))"
    using Suc.prems q
    by (simp add: apply_cx_wf c t lo cx_two_point cong: if_cong)
  moreover have "?k\<lparr>measured := False\<rparr> = ?k" using Suc.prems(5) by simp
  ultimately have step: "qcpu_kernel_apply_cx (Some k) (q - Suc 0) q = (QCPU_OK, Some ?k)" by simp
  have "wf_kernel ?k" using Suc.prems(1) by (auto simp: wf_kernel_def)
  then have "ghz_chain (Some ?k) [Suc q..<qubit_count ?k] =
     (QCPU_OK, Some (?k\<lparr>amplitudes := Some (two_point (2 ^ qubit_count ?k) (2 ^ qubit_count ?k - 1) s)\<rparr>))"
    using Suc.hyps(2) Suc.prems q by (intro Suc.hyps(1)) auto
  then show ?case by (simp add: qs step)
qed

context fp_rounding
begin

lemma rnd_h_scale [simp]: "rnd (h_scale rnd) = h_scale rnd"
  by (simp add: h_scale_def)

lemma h_amp_basis:
  assumes "0 < n" and "j < 2 ^ n"
  shows "h_amp rnd (n - Suc 0) ((replicate (2 ^ n) 0)[0 := Complex 1 0]) j =
     two_point (2 ^ n) (2 ^ (n - Suc 0)) (Complex (h_scale rnd) 0) ! j"
proof -
  have f: "flip_bit (n - Suc 0) j < 2 ^ n" using assms by (simp add: flip_bit_less_exp)
  have z: "flip_bit (n - Suc 0) 0 = (2 :: nat) ^ (n - Suc 0)"
    by (rule bit_eqI) (auto simp: bit_simps)
  have "bit ((2 :: nat) ^ (n - Suc 0)) (n - Suc 0)" by (simp add: bit_simps)
  then show ?thesis
    using assms f
    by (auto simp: h_amp_def two_point_nth nth_list_update flip_bit_eq_iff z
        fp_cscale_def fp_csub_def fp_cadd_def complex_eq_iff)
qed

lemma apply_ghz_wf:
  assumes wf: "wf_kernel k"
  shows "qcpu_kernel_apply_ghz rnd (Some k) = (QCPU_OK, Some (ghz_kernel rnd k))"
proof -
  let ?n = "qubit_count k"
  let ?k1 = "k\<lparr>amplitudes := Some ((replicate (2 ^ ?n) 0)[0 := Complex 1 0]), measured := False, measured_state := 0\<rparr>"
  let ?k2 = "k\<lparr>amplitudes := Some (two_point (2 ^ ?n) (2 ^ (?n - Suc 0)) (Complex (h_scale rnd) 0)),
               measured := False, measured_state := 0\<rparr>"
  have n: "0 < ?n" "state_count k = 2 ^ ?n" using wf by (auto simp: wf_kernel_def)
  have k1: "qcpu_kernel_reset (Some k) = (QCPU_OK, Some ?k1)"
    using wf_kernel_ready [OF wf] n by (simp add: qcpu_kernel_reset_def)
  have wf12: "wf_kernel ?k1" "wf_kernel ?k2" using wf by (auto simp: wf_kernel_def)
  have "map (h_amp rnd (?n - Suc 0) ((replicate (2 ^ ?n) 0)[0 := Complex 1 0])) [0..<2 ^ ?n] =
      two_point (2 ^ ?n) (2 ^ (?n - Suc 0)) (Complex (h_scale rnd) 0)"
    using n by (intro nth_equalityI) (simp_all add: h_amp_basis)
  then have k2: "qcpu_kernel_apply_h rnd (Some ?k1) 0 = (QCPU_OK, Some ?k2)"
    using n apply_h_wf [OF wf12(1), of 0 rnd] by (simp add: qubit_bit_def)
  have "ghz_chain (Some ?k2) [1..<qubit_count ?k2] =
     (QCPU_OK, Some (?k2\<lparr>amplitudes := Some (two_point (2 ^ qubit_count ?k2) (2 ^ qubit_count ?k2 - 1)
        (Complex (h_scale rnd) 0))\<rparr>))"
    using wf12(2) n by (intro ghz_chain_two_point) (simp_all add: top_ones_start)
  then show ?thesis
    using wf_kernel_ready [OF wf] by (simp add: qcpu_kernel_apply_ghz_def k1 k2 ghz_kernel_def)
qed

text \<open>The probability of each of the two nonzero amplitudes, as the code computes it.\<close>

abbreviation ghz_p :: real where
  "ghz_p \<equiv> rnd (h_scale rnd * h_scale rnd)"

lemma probability_scale [simp]: "fp_probability rnd (Complex (h_scale rnd) 0) = ghz_p"
  by (simp add: fp_probability_def)

lemma probability_one [simp]: "fp_probability rnd (Complex 1 0) = 1"
  by (simp add: fp_probability_def)

lemma accumulate_zero [simp]: "fp_accumulate rnd acc 0 = rnd acc"
  by (simp add: fp_accumulate_def fp_probability_def)

lemma accumulate_zeros:
  assumes "rnd acc = acc" and "\<And>i. i \<in> set is \<Longrightarrow> amps ! i = 0"
  shows "foldl (\<lambda>norm index. fp_accumulate rnd norm (amps ! index)) acc is = acc"
  using assms by (induction "is") auto

lemma norm_ghz:
  assumes "wf_kernel k"
  shows "qcpu_kernel_norm rnd (Some (ghz_kernel rnd k)) = rnd (ghz_p + ghz_p)"
proof -
  let ?N = "2 ^ qubit_count k :: nat" and ?s = "Complex (h_scale rnd) 0"
  let ?A = "two_point ?N (?N - 1) ?s"
  have N: "2 \<le> ?N" using assms by (auto simp: wf_kernel_def self_le_power intro!: self_le_power)
  then have upt: "[0..<?N] = 0 # [1..<?N - 1] @ [?N - 1]"
    by (metis One_nat_def Suc_1 Suc_diff_1 Suc_le_eq less_le_trans pos2 upt_Suc_append upt_conv_Cons zero_less_diff
        le_add_diff_inverse less_Suc_eq_le plus_1_eq_Suc zero_less_Suc)
  have "foldl (\<lambda>norm index. fp_accumulate rnd norm (?A ! index)) ghz_p [1..<?N - 1] = ghz_p"
    by (rule accumulate_zeros) (auto simp: two_point_nth)
  moreover have "?A ! 0 = ?s" "?A ! (?N - 1) = ?s" using N by (simp_all add: two_point_nth)
  ultimately have "foldl (\<lambda>norm index. fp_accumulate rnd norm (?A ! index)) 0 [0..<?N] = rnd (ghz_p + ghz_p)"
    by (simp only: upt foldl_Cons foldl_append foldl_Nil) (simp add: fp_accumulate_def)
  moreover have "qcpu_kernel_ready (Some (ghz_kernel rnd k))" "state_count k = ?N"
    using assms by (auto simp: ghz_kernel_def qcpu_kernel_ready_def wf_kernel_def)
  ultimately show ?thesis by (simp add: qcpu_kernel_norm_def ghz_kernel_def)
qed

text \<open>Sampling skips the zero amplitudes.\<close>

lemma sample_zeros:
  assumes "1 \<le> i" and "i < N" and "rnd c = c" and "\<not> thr < c"
  shows "sample_loop rnd thr N (two_point N (N - 1) s) i c = Some (N - 1)"
  using assms
proof (induction "N - i" arbitrary: i)
  case (Suc d)
  show ?case
  proof (cases "Suc i = N")
    case False
    then have "i \<noteq> 0" "i \<noteq> N - 1" using Suc.prems by auto
    then have "two_point N (N - 1) s ! i = 0" using Suc.prems(2) by (simp add: two_point_nth)
    moreover have "sample_loop rnd thr N (two_point N (N - 1) s) (Suc i) c = Some (N - 1)"
      using False Suc by (intro Suc.hyps) auto
    ultimately show ?thesis using Suc.prems False by (subst sample_loop.simps) simp
  qed (use Suc.prems in \<open>subst sample_loop.simps, auto simp: Let_def\<close>)
qed simp

lemma sample_two_point:
  assumes "2 \<le> N"
  shows "sample_loop rnd thr N (two_point N (N - 1) (Complex (h_scale rnd) 0)) 0 0 =
     Some (if thr < ghz_p then 0 else N - 1)"
proof -
  have "two_point N (N - 1) (Complex (h_scale rnd) 0) ! 0 = Complex (h_scale rnd) 0"
    using assms by (simp add: two_point_nth)
  then show ?thesis
    using assms sample_zeros [of 1 N "ghz_p" thr "Complex (h_scale rnd) 0"]
    by (subst sample_loop.simps) (auto simp: fp_accumulate_def Let_def)
qed

text \<open>A kernel that holds the GHZ amplitudes, whatever its generator state.\<close>

definition holds_ghz :: "QCPUKernel \<Rightarrow> bool" where
  "holds_ghz k \<longleftrightarrow> wf_kernel k \<and>
     amplitudes k = Some (two_point (state_count k) (state_count k - 1) (Complex (h_scale rnd) 0))"

lemma holds_ghz_kernel: "wf_kernel k \<Longrightarrow> holds_ghz (ghz_kernel rnd k)"
  by (auto simp: holds_ghz_def ghz_kernel_def wf_kernel_def)

lemma holds_ghz_rng [simp]: "holds_ghz k \<Longrightarrow> r \<noteq> 0 \<Longrightarrow> holds_ghz (k\<lparr>rng_state := r\<rparr>)"
  by (simp add: holds_ghz_def)

lemma holds_ghz_size: "holds_ghz k \<Longrightarrow> 2 \<le> state_count k"
  by (auto simp: holds_ghz_def wf_kernel_def intro!: self_le_power)

lemma sample_ghz:
  assumes g: "holds_ghz k"
  shows "\<exists>r j. qcpu_kernel_sample rnd (Some k) (Some s) = (QCPU_OK, Some (k\<lparr>rng_state := r\<rparr>), Some j)
    \<and> r \<noteq> 0 \<and> (j = 0 \<or> j = state_count k - 1)"
proof -
  obtain t k' where u: "qcpu_rng_unit rnd k = (t, k')" by force
  have k': "k' = k\<lparr>rng_state := rng_state k'\<rparr>" "rng_state k' \<noteq> 0"
    using rng_unit_frame [of rnd k] by (simp_all add: u)
  have sc: "state_count k' = state_count k" and am: "amplitudes k' = amplitudes k"
    by (subst k'(1), simp)+
  have "wf_kernel k" and A: "the (amplitudes k) = two_point (state_count k) (state_count k - 1) (Complex (h_scale rnd) 0)"
    using g by (simp_all add: holds_ghz_def)
  then show ?thesis
    using wf_kernel_ready [OF \<open>wf_kernel k\<close>] holds_ghz_size [OF g]
    by (intro exI [of _ "rng_state k'"] exI [of _ "if t < ghz_p then 0 else state_count k - 1"])
      (simp add: qcpu_kernel_sample_def u sc am A sample_two_point [unfolded One_nat_def] k'(2) flip: k'(1))
qed

lemma shots_loop_ghz:
  assumes "holds_ghz k" and "sr_counts res = Some c" and "length c = state_count k"
    and "\<And>i. 0 < i \<Longrightarrow> i < state_count k - 1 \<Longrightarrow> c ! i = 0"
  shows "\<exists>r c'. shots_loop rnd n (Some k) res =
       (QCPU_OK, Some (k\<lparr>rng_state := r\<rparr>), Some (res\<lparr>sr_counts := Some c'\<rparr>))
     \<and> r \<noteq> 0 \<and> length c' = state_count k \<and> (\<forall>i. 0 < i \<and> i < state_count k - 1 \<longrightarrow> c' ! i = 0)"
  using assms
proof (induction n arbitrary: k res c)
  case 0
  then show ?case
    by (intro exI [of _ "rng_state k"] exI [of _ c]) (auto simp: holds_ghz_def wf_kernel_def)
next
  case (Suc n)
  obtain r j where s: "qcpu_kernel_sample rnd (Some k) (Some 0) =
      (QCPU_OK, Some (k\<lparr>rng_state := r\<rparr>), Some j)" "r \<noteq> 0" "j = 0 \<or> j = state_count k - 1"
    using sample_ghz [OF Suc.prems(1)] by blast
  let ?k = "k\<lparr>rng_state := r\<rparr>" and ?res = "res\<lparr>sr_counts := Some (c[j := c ! j + 1])\<rparr>"
  have "\<exists>r' c'. shots_loop rnd n (Some ?k) ?res =
       (QCPU_OK, Some (?k\<lparr>rng_state := r'\<rparr>), Some (?res\<lparr>sr_counts := Some c'\<rparr>))
     \<and> r' \<noteq> 0 \<and> length c' = state_count ?k \<and> (\<forall>i. 0 < i \<and> i < state_count ?k - 1 \<longrightarrow> c' ! i = 0)"
    using Suc.prems s by (intro Suc.IH [where c = "c[j := c ! j + 1]"]) auto
  then show ?case using s Suc.prems(2) by auto
qed

lemma run_shots_ghz:
  assumes g: "holds_ghz k" and shots: "0 < shots" "shots < 2 ^ 64"
  shows "\<exists>r c. qcpu_kernel_run_shots rnd True (Some k) shots (Some res) =
       (QCPU_OK, Some (k\<lparr>rng_state := r\<rparr>),
        Some \<lparr>sr_shots = shots, sr_state_count = state_count k, sr_counts = Some c\<rparr>)
     \<and> r \<noteq> 0 \<and> length c = state_count k \<and> sum_list (map unat c) = shots
     \<and> (\<forall>i. 0 < i \<and> i < state_count k - 1 \<longrightarrow> c ! i = 0)"
proof -
  have wf: "wf_kernel k" using g by (simp add: holds_ghz_def)
  obtain r c where rc: "qcpu_kernel_run_shots rnd True (Some k) shots (Some res) =
       (QCPU_OK, Some (k\<lparr>rng_state := r\<rparr>),
        Some \<lparr>sr_shots = shots, sr_state_count = state_count k, sr_counts = Some c\<rparr>)"
      "r \<noteq> 0" "length c = state_count k" "sum_list (map unat c) = shots"
    using run_shots_wf [OF wf shots] by blast
  let ?res = "\<lparr>sr_shots = shots, sr_state_count = state_count k,
               sr_counts = Some (replicate (state_count k) 0)\<rparr>"
  have "\<exists>r c'. shots_loop rnd shots (Some k) ?res =
       (QCPU_OK, Some (k\<lparr>rng_state := r\<rparr>), Some (?res\<lparr>sr_counts := Some c'\<rparr>))
     \<and> r \<noteq> 0 \<and> length c' = state_count k \<and> (\<forall>i. 0 < i \<and> i < state_count k - 1 \<longrightarrow> c' ! i = 0)"
    using g by (intro shots_loop_ghz [where c = "replicate (state_count k) 0"]) simp_all
  then show ?thesis
    using rc wf_kernel_ready [OF wf] shots by (auto simp: qcpu_kernel_run_shots_def)
qed

text \<open>Measurement of any kernel leaves a basis state, whose norm is exactly one.\<close>

lemma norm_basis:
  assumes "wf_kernel k" and "j < state_count k"
    and "amplitudes k = Some ((replicate (state_count k) 0)[j := Complex 1 0])"
  shows "qcpu_kernel_norm rnd (Some k) = 1"
proof -
  let ?A = "(replicate (state_count k) 0)[j := Complex 1 0]"
  let ?f = "\<lambda>norm index. fp_accumulate rnd norm (?A ! index)"
  have upt: "[0..<state_count k] = [0..<j] @ j # [Suc j..<state_count k]"
    using assms(2) upt_add_eq_append [of 0 j "state_count k - j"] by (simp add: upt_conv_Cons)
  have "foldl ?f 0 [0..<j] = 0" using assms(2) by (intro accumulate_zeros) auto
  moreover have "?f 0 j = 1" using assms(2) by (simp add: fp_accumulate_def)
  moreover have "foldl ?f 1 [Suc j..<state_count k] = 1" by (intro accumulate_zeros) auto
  ultimately have "foldl ?f 0 [0..<state_count k] = 1" by (simp add: upt)
  then show ?thesis
    using wf_kernel_ready [OF assms(1)] by (simp add: qcpu_kernel_norm_def assms(3))
qed

lemma measure_ghz:
  assumes g: "holds_ghz k"
  shows "\<exists>k' j. qcpu_kernel_measure rnd (Some k) (Some out) = (QCPU_OK, Some k', Some j)
     \<and> wf_kernel k' \<and> qubit_count k' = qubit_count k \<and> (j = 0 \<or> j = state_count k - 1)
     \<and> measured k' \<and> measured_state k' = j \<and> qcpu_kernel_norm rnd (Some k') = 1"
proof -
  have wf: "wf_kernel k" using g by (simp add: holds_ghz_def)
  obtain r j where s: "qcpu_kernel_sample rnd (Some k) (Some 0) =
      (QCPU_OK, Some (k\<lparr>rng_state := r\<rparr>), Some j)" "r \<noteq> 0" "j = 0 \<or> j = state_count k - 1"
    using sample_ghz [OF g] by blast
  let ?k = "k\<lparr>rng_state := r, amplitudes := Some ((replicate (state_count k) 0)[j := Complex 1 0]),
              measured := True, measured_state := j\<rparr>"
  have j: "j < state_count k" using s(3) holds_ghz_size [OF g] by auto
  have wf': "wf_kernel ?k" using wf s(2) j by (auto simp: wf_kernel_def)
  then have "qcpu_kernel_norm rnd (Some ?k) = 1" using j by (intro norm_basis) auto
  then show ?thesis
    using wf_kernel_ready [OF wf] s wf' by (auto simp: qcpu_kernel_measure_def)
qed

end

section \<open>Binary64\<close>

text \<open>A rounded result as a relative perturbation of the exact one.\<close>

lemma dbl_relative: "\<exists>d. rnd_double x = x * (1 + d) \<and> \<bar>d\<bar> \<le> 1 / 2 ^ 53"
proof (cases "x = 0")
  case False
  have "rnd_double x = x * (1 + (rnd_double x - x) / x)" using False by (simp add: field_simps)
  moreover have "\<bar>(rnd_double x - x) / x\<bar> \<le> 1 / 2 ^ 53"
    using dbl.error [of x] False by (simp add: abs_divide field_simps)
  ultimately show ?thesis by blast
qed (auto intro: exI [of _ 0])

lemma ghz_norm_near_one:
  "\<bar>rnd_double (dbl.ghz_p + dbl.ghz_p) - 1\<bar> \<le> 1 / 10 ^ 14"
proof -
  let ?u = "1 / 2 ^ 53 :: real"
  obtain d1 where d1: "rnd_double (sqrt 2) = sqrt 2 * (1 + d1)" "\<bar>d1\<bar> \<le> ?u" using dbl_relative by blast
  obtain d2 where d2: "h_scale rnd_double = 1 / rnd_double (sqrt 2) * (1 + d2)" "\<bar>d2\<bar> \<le> ?u"
    using dbl_relative unfolding h_scale_def by blast
  obtain d3 where d3: "dbl.ghz_p = h_scale rnd_double * h_scale rnd_double * (1 + d3)" "\<bar>d3\<bar> \<le> ?u"
    using dbl_relative by blast
  obtain d4 where d4: "rnd_double (dbl.ghz_p + dbl.ghz_p) = (dbl.ghz_p + dbl.ghz_p) * (1 + d4)" "\<bar>d4\<bar> \<le> ?u"
    using dbl_relative by blast
  have pos: "0 < 1 + d1" "0 < 1 + d2" "0 < 1 + d3" "0 < 1 + d4"
  proof -
    have "?u < 1" by simp
    then show "0 < 1 + d1" "0 < 1 + d2" "0 < 1 + d3" "0 < 1 + d4"
      using d1(2) d2(2) d3(2) d4(2) by auto
  qed
  define e where "e = (1 + d2) * (1 + d2) * (1 + d3) * (1 + d4) / ((1 + d1) * (1 + d1))"
  have sq: "(1 / (q * a) * b) * (1 / (q * a) * b) = b * b / (q * q * (a * a))" for q a b :: real
    by simp
  have "h_scale rnd_double * h_scale rnd_double = (1 + d2) * (1 + d2) / (2 * ((1 + d1) * (1 + d1)))"
    unfolding d2(1) d1(1) sq by simp
  then have p: "dbl.ghz_p = (1 + d2) * (1 + d2) / (2 * ((1 + d1) * (1 + d1))) * (1 + d3)"
    using d3(1) by simp
  have twice: "x / (2 * y) * z + x / (2 * y) * z = x / y * z" for x y z :: real
    by (simp flip: mult_2)
  have "dbl.ghz_p + dbl.ghz_p = (1 + d2) * (1 + d2) / ((1 + d1) * (1 + d1)) * (1 + d3)"
    unfolding p by (rule twice)
  then have "rnd_double (dbl.ghz_p + dbl.ghz_p) = e"
    using d4(1) by (simp add: e_def)
  moreover have "e \<le> (1 + ?u) * (1 + ?u) * (1 + ?u) * (1 + ?u) / ((1 - ?u) * (1 - ?u))"
    unfolding e_def using d1(2) d2(2) d3(2) d4(2) pos
    by (intro frac_le mult_mono mult_nonneg_nonneg mult_pos_pos) (auto simp: abs_le_iff)
  moreover have "(1 - ?u) * (1 - ?u) * (1 - ?u) * (1 - ?u) / ((1 + ?u) * (1 + ?u)) \<le> e"
    unfolding e_def using d1(2) d2(2) d3(2) d4(2) pos
    by (intro frac_le mult_mono mult_nonneg_nonneg mult_pos_pos) (auto simp: abs_le_iff)
  moreover have "(1 + ?u) * (1 + ?u) * (1 + ?u) * (1 + ?u) / ((1 - ?u) * (1 - ?u)) \<le> 1 + 1 / 10 ^ 14"
    "1 - 1 / 10 ^ 14 \<le> (1 - ?u) * (1 - ?u) * (1 - ?u) * (1 - ?u) / ((1 + ?u) * (1 + ?u))"
    by simp_all
  ultimately show ?thesis by linarith
qed

lemma ghz_validate_ok:
  assumes "wf_kernel k"
  shows "qcpu_kernel_validate rnd_double (Some (ghz_kernel rnd_double k)) (rnd_double (1 / 10 ^ 12)) = QCPU_OK"
proof -
  let ?t = "1 / 10 ^ 12 :: real" and ?n = "rnd_double (dbl.ghz_p + dbl.ghz_p)"
  have "\<bar>rnd_double ?t - ?t\<bar> \<le> ?t / 2 ^ 53" by (rule dbl.rnd_close) simp
  then have "?t - ?t / 2 ^ 53 \<le> rnd_double ?t" by linarith
  moreover have "9 / 10 ^ 13 < ?t - ?t / 2 ^ 53" by simp
  ultimately have t: "9 / 10 ^ 13 < rnd_double ?t" by linarith
  have "\<bar>rnd_double (?n - 1) - (?n - 1)\<bar> \<le> \<bar>?n - 1\<bar> / 2 ^ 53" by (rule dbl.error)
  moreover have "\<bar>?n - 1\<bar> / 2 ^ 53 \<le> \<bar>?n - 1\<bar>" by simp
  ultimately have "\<bar>rnd_double (?n - 1)\<bar> \<le> 1 / 10 ^ 14 + 1 / 10 ^ 14" using ghz_norm_near_one by linarith
  also have "\<dots> < 9 / 10 ^ 13" by simp
  finally have "\<bar>rnd_double (?n - 1)\<bar> < rnd_double ?t" using t by linarith
  moreover have "qcpu_kernel_ready (Some (ghz_kernel rnd_double k))"
    using dbl.holds_ghz_kernel [OF assms] wf_kernel_ready by (simp add: dbl.holds_ghz_def)
  ultimately show ?thesis
    using t dbl.norm_ghz [OF assms] by (auto simp: qcpu_kernel_validate_def)
qed

text \<open>
  C38: with binary64 arithmetic, \<^verbatim>\<open>qcpu_kernel_apply_ghz\<close> on any well-formed kernel succeeds and
  leaves the amplitude \<^verbatim>\<open>1.0 / sqrt(2.0)\<close>, as rounded, in states 0 and \<open>2 ^ n - 1\<close> and zero
  everywhere else; the norm of that state passes \<^verbatim>\<open>qcpu_kernel_validate\<close> with the tolerance
  \<^verbatim>\<open>1e-12\<close> that the daemon uses.
\<close>

theorem ghz_prepared_and_valid:
  assumes "wf_kernel k"
  shows "\<exists>k'. qcpu_kernel_apply_ghz rnd_double (Some k) = (QCPU_OK, Some k') \<and> wf_kernel k' \<and>
     qubit_count k' = qubit_count k \<and> rng_state k' = rng_state k \<and>
     (\<forall>i < 2 ^ qubit_count k. the (amplitudes k') ! i =
        (if i = 0 \<or> i = 2 ^ qubit_count k - 1 then Complex (h_scale rnd_double) 0 else 0)) \<and>
     qcpu_kernel_validate rnd_double (Some k') (rnd_double (1 / 10 ^ 12)) = QCPU_OK"
proof (intro exI conjI)
  show "qcpu_kernel_apply_ghz rnd_double (Some k) = (QCPU_OK, Some (ghz_kernel rnd_double k))"
    by (rule dbl.apply_ghz_wf [OF assms])
  show "wf_kernel (ghz_kernel rnd_double k)"
    using dbl.holds_ghz_kernel [OF assms] by (simp add: dbl.holds_ghz_def)
  show "qcpu_kernel_validate rnd_double (Some (ghz_kernel rnd_double k)) (rnd_double (1 / 10 ^ 12)) = QCPU_OK"
    by (rule ghz_validate_ok [OF assms])
qed (simp_all add: ghz_kernel_def two_point_nth)

theorem ghz_prepared_and_valid_witness:
  "\<exists>k'. qcpu_kernel_apply_ghz rnd_double (Some sample_kernel) = (QCPU_OK, Some k') \<and>
     the (amplitudes k') ! 3 = Complex (h_scale rnd_double) 0 \<and> the (amplitudes k') ! 2 = 0"
  using ghz_prepared_and_valid [OF wf_sample_kernel] by (fastforce simp: sample_kernel_def)

text \<open>The generator's unit values.\<close>

lemma unat_drop_11: "unat (drop_bit 11 (v :: u64)) < 2 ^ 53"
proof -
  have "unat (drop_bit 11 v) = unat v div 2 ^ 11" unfolding unat_drop_bit_eq by (rule drop_bit_eq_div)
  then show ?thesis using unat_less_64 [of v] by (simp add: less_mult_imp_div_less)
qed

lemma dbl_scaled_nat:
  assumes "m < 2 ^ 53"
  shows "rnd_double (rnd_double (of_nat m) * rnd_double (1 / 9007199254740992)) = of_nat m / 2 ^ 53"
proof -
  have "rnd_double (1 / 9007199254740992) = 1 / 2 ^ 53"
    using dbl.rnd_dyadic [of 1 "- 53"] by (simp add: power_int_minus field_simps)
  moreover have "rnd_double (of_nat m) = of_nat m"
    using dbl.rnd_of_int [of "int m"] assms by simp
  moreover have "rnd_double (of_nat m * (1 / 2 ^ 53)) = of_nat m * (1 / 2 ^ 53)"
    using dbl.rnd_dyadic [of "int m" "- 53"] assms by (simp add: power_int_minus field_simps)
  ultimately show ?thesis by (simp only: mult_1_right times_divide_eq_right)
qed

lemma rng_unit_bounds:
  "0 \<le> fst (qcpu_rng_unit rnd_double k)" "fst (qcpu_rng_unit rnd_double k) < 1"
proof -
  obtain v k' where v: "qcpu_rng_next k = (v, k')" by force
  define m where "m = unat (drop_bit 11 v)"
  have m: "m < 2 ^ 53" unfolding m_def by (rule unat_drop_11)
  then have "real m < 2 ^ 53" by (metis of_nat_less_iff of_nat_numeral of_nat_power)
  moreover have "fst (qcpu_rng_unit rnd_double k) = of_nat m / 2 ^ 53"
    using dbl_scaled_nat [OF m] by (simp add: qcpu_rng_unit_def v m_def)
  ultimately show "0 \<le> fst (qcpu_rng_unit rnd_double k)" "fst (qcpu_rng_unit rnd_double k) < 1"
    by simp_all
qed

text \<open>Sampling a basis state returns it.\<close>

lemma sample_basis:
  assumes "i \<le> j" and "j < N" and "0 \<le> thr" and "thr < 1"
  shows "sample_loop rnd_double thr N ((replicate N 0)[j := Complex 1 0]) i 0 = Some j"
  using assms
proof (induction "j - i" arbitrary: i)
  case 0
  then show ?case by (subst sample_loop.simps) (simp add: fp_accumulate_def)
next
  case (Suc d)
  then have "((replicate N 0)[j := Complex 1 0]) ! i = 0" by simp
  moreover have "sample_loop rnd_double thr N ((replicate N 0)[j := Complex 1 0]) (Suc i) 0 = Some j"
    using Suc by (intro Suc.hyps) auto
  ultimately show ?case using Suc.prems Suc.hyps(2) by (subst sample_loop.simps) simp
qed

text \<open>Measuring \<open>n + 1\<close> times in a row.\<close>

fun measure_again :: "nat \<Rightarrow> QCPUKernel option \<Rightarrow> QCPUStatus \<times> QCPUKernel option \<times> nat option" where
  "measure_again 0 kern = qcpu_kernel_measure rnd_double kern (Some 0)"
| "measure_again (Suc n) kern =
     (case measure_again n kern of (_, kern', _) \<Rightarrow> qcpu_kernel_measure rnd_double kern' (Some 0))"

definition collapsed :: "nat \<Rightarrow> QCPUKernel \<Rightarrow> bool" where
  "collapsed j k \<longleftrightarrow> wf_kernel k \<and> measured k \<and> measured_state k = j \<and>
     amplitudes k = Some ((replicate (state_count k) 0)[j := Complex 1 0])"

lemma measure_collapses:
  assumes wf: "wf_kernel k"
  shows "\<exists>k' j. qcpu_kernel_measure rnd_double (Some k) (Some out) = (QCPU_OK, Some k', Some j) \<and>
     qubit_count k' = qubit_count k \<and> collapsed j k'"
proof -
  obtain r j where m: "qcpu_kernel_measure rnd_double (Some k) (Some out) =
     (QCPU_OK, Some (k\<lparr>rng_state := r,
                       amplitudes := Some ((replicate (state_count k) 0)[j := Complex 1 0]),
                       measured := True, measured_state := j\<rparr>), Some j)" "r \<noteq> 0" "j < state_count k"
    using measure_wf [OF wf] by blast
  then show ?thesis using wf by (auto simp: collapsed_def wf_kernel_def)
qed

lemma measure_collapsed:
  assumes c: "collapsed j k"
  shows "\<exists>k'. qcpu_kernel_measure rnd_double (Some k) (Some out) = (QCPU_OK, Some k', Some j) \<and>
     qubit_count k' = qubit_count k \<and> collapsed j k'"
proof -
  have wf: "wf_kernel k" and j: "j < state_count k"
    and A: "amplitudes k = Some ((replicate (state_count k) 0)[j := Complex 1 0])"
    using c by (auto simp: collapsed_def wf_kernel_def)
  obtain t k' where u: "qcpu_rng_unit rnd_double k = (t, k')" by force
  have k': "k' = k\<lparr>rng_state := rng_state k'\<rparr>" "rng_state k' \<noteq> 0"
    using rng_unit_frame [of rnd_double k] by (simp_all add: u)
  have sc: "state_count k' = state_count k" and am: "amplitudes k' = amplitudes k"
    by (subst k'(1), simp)+
  have "sample_loop rnd_double t (state_count k) ((replicate (state_count k) 0)[j := Complex 1 0]) 0 0 = Some j"
    using rng_unit_bounds [of k] j by (intro sample_basis) (simp_all add: u)
  then have "qcpu_kernel_sample rnd_double (Some k) (Some 0) = (QCPU_OK, Some k', Some j)"
    using wf_kernel_ready [OF wf] by (simp add: qcpu_kernel_sample_def u sc am A)
  then have "snd (snd (qcpu_kernel_measure rnd_double (Some k) (Some out))) = Some j"
    using wf_kernel_ready [OF wf] by (simp add: qcpu_kernel_measure_def)
  then show ?thesis using measure_collapses [OF wf, of out] by auto
qed

text \<open>
  Measuring any well-formed kernel succeeds, collapses it to the basis state it reports, with
  norm exactly one, and measuring again, any number of times, reports the same state.
\<close>

theorem measure_repeatable:
  assumes "wf_kernel k"
  shows "\<exists>k' j. measure_again 0 (Some k) = (QCPU_OK, Some k', Some j) \<and> j < 2 ^ qubit_count k \<and>
     qcpu_kernel_norm rnd_double (Some k') = 1 \<and>
     (\<forall>n. \<exists>k''. measure_again n (Some k) = (QCPU_OK, Some k'', Some j))"
proof -
  obtain k' j where 1: "qcpu_kernel_measure rnd_double (Some k) (Some 0) = (QCPU_OK, Some k', Some j)"
      "qubit_count k' = qubit_count k" "collapsed j k'"
    using measure_collapses [OF assms] by blast
  have "\<exists>k''. measure_again n (Some k) = (QCPU_OK, Some k'', Some j) \<and> collapsed j k''" for n
  proof (induction n)
    case (Suc n)
    then show ?case using measure_collapsed by fastforce
  qed (use 1 in simp)
  moreover have j: "j < state_count k'" "state_count k' = 2 ^ qubit_count k"
    using 1(2,3) by (auto simp: collapsed_def wf_kernel_def)
  moreover have "qcpu_kernel_norm rnd_double (Some k') = 1"
    using 1(3) j by (intro dbl.norm_basis) (auto simp: collapsed_def)
  ultimately show ?thesis using 1(1) by auto
qed

theorem measure_repeatable_witness:
  "\<exists>k' j. measure_again 0 (Some sample_kernel) = (QCPU_OK, Some k', Some j) \<and> j < 4 \<and>
     (\<forall>n. \<exists>k''. measure_again n (Some sample_kernel) = (QCPU_OK, Some k'', Some j))"
  using measure_repeatable [OF wf_sample_kernel] by (auto simp: sample_kernel_def)

text \<open>
  Sampling a prepared GHZ state any number of times gives only the all-zeros and the all-ones
  state: every shot is counted once, and no count is anywhere else.
\<close>

theorem ghz_shots_two_outcomes:
  assumes "wf_kernel k" and "0 < shots" and "shots < 2 ^ 64"
  shows "\<exists>k' c. qcpu_kernel_run_shots rnd_double True (snd (qcpu_kernel_apply_ghz rnd_double (Some k))) shots (Some res) =
       (QCPU_OK, Some k', Some \<lparr>sr_shots = shots, sr_state_count = 2 ^ qubit_count k, sr_counts = Some c\<rparr>) \<and>
     length c = 2 ^ qubit_count k \<and> sum_list (map unat c) = shots \<and>
     (\<forall>i. 0 < i \<and> i < 2 ^ qubit_count k - 1 \<longrightarrow> c ! i = 0)"
proof -
  have "state_count (ghz_kernel rnd_double k) = 2 ^ qubit_count k"
    using assms(1) by (simp add: ghz_kernel_def wf_kernel_def)
  then show ?thesis
    using dbl.run_shots_ghz [OF dbl.holds_ghz_kernel [OF assms(1)] assms(2,3), of res] assms(1)
    by (auto simp: dbl.apply_ghz_wf)
qed

theorem ghz_shots_two_outcomes_witness:
  "\<exists>k' c. qcpu_kernel_run_shots rnd_double True (snd (qcpu_kernel_apply_ghz rnd_double (Some sample_kernel))) 100
        (Some zero_shot_result) =
       (QCPU_OK, Some k', Some \<lparr>sr_shots = 100, sr_state_count = 4, sr_counts = Some c\<rparr>) \<and>
     c ! 1 = 0 \<and> c ! 2 = 0"
  using ghz_shots_two_outcomes [OF wf_sample_kernel, of 100 zero_shot_result]
  by (fastforce simp: sample_kernel_def)

end
