(* ===== verification/Posix.thy ===== *)
theory Posix
  imports Prelude "HOL-Library.Monad_Syntax"
begin

text \<open>
  The operating system as the device programs see it: error numbers (their Linux values), poll
  bits, and system calls whose results the environment decides.  An environment is a script, the
  list of results in the order in which the program asks for them; a call takes the next one, and
  the whole computation is \<open>None\<close> when the script has no result of the kind asked for.  So a
  theorem about every script is a theorem about every behaviour of the environment.  What the
  program does to the outside is recorded in a trace.
\<close>

section \<open>Error numbers and poll bits\<close>

definition EPERM :: int where "EPERM = 1"
definition ENOENT :: int where "ENOENT = 2"
definition EINTR :: int where "EINTR = 4"
definition EIO :: int where "EIO = 5"
definition EBADF :: int where "EBADF = 9"
definition EAGAIN :: int where "EAGAIN = 11"
definition EWOULDBLOCK :: int where "EWOULDBLOCK = 11"
definition ENOMEM :: int where "ENOMEM = 12"
definition EACCES :: int where "EACCES = 13"
definition EBUSY :: int where "EBUSY = 16"
definition ENODEV :: int where "ENODEV = 19"
definition ENOTDIR :: int where "ENOTDIR = 20"
definition EINVAL :: int where "EINVAL = 22"
definition ENOTTY :: int where "ENOTTY = 25"
definition ERANGE :: int where "ERANGE = 34"
definition ENAMETOOLONG :: int where "ENAMETOOLONG = 36"
definition EPROTO :: int where "EPROTO = 71"
definition EOVERFLOW :: int where "EOVERFLOW = 75"
definition EPROTONOSUPPORT :: int where "EPROTONOSUPPORT = 93"
definition EOPNOTSUPP :: int where "EOPNOTSUPP = 95"
definition ETIMEDOUT :: int where "ETIMEDOUT = 110"
definition ECONNREFUSED :: int where "ECONNREFUSED = 111"
definition EINPROGRESS :: int where "EINPROGRESS = 115"
definition ECANCELED :: int where "ECANCELED = 125"

lemmas errno_defs =
  EPERM_def ENOENT_def EINTR_def EIO_def EBADF_def EAGAIN_def EWOULDBLOCK_def ENOMEM_def EACCES_def
  EBUSY_def ENODEV_def ENOTDIR_def EINVAL_def ENOTTY_def ERANGE_def ENAMETOOLONG_def EPROTO_def
  EOVERFLOW_def EPROTONOSUPPORT_def EOPNOTSUPP_def ETIMEDOUT_def ECONNREFUSED_def EINPROGRESS_def ECANCELED_def

definition POLLIN :: u16 where "POLLIN = 1"
definition POLLOUT :: u16 where "POLLOUT = 4"
definition POLLERR :: u16 where "POLLERR = 8"
definition POLLHUP :: u16 where "POLLHUP = 16"
definition POLLNVAL :: u16 where "POLLNVAL = 32"
definition O_NONBLOCK :: int where "O_NONBLOCK = 2048"
definition INT_MAX :: int where "INT_MAX = 2147483647"

section \<open>Scripts and traces\<close>

datatype os_event =
    Ev_clock "(int \<times> int) option" \<comment> \<open>\<^verbatim>\<open>clock_gettime\<close>: failure, or seconds and nanoseconds\<close>
  | Ev_getfl int \<comment> \<open>\<^verbatim>\<open>fcntl(fd, F_GETFL)\<close>\<close>
  | Ev_setfl int \<comment> \<open>\<^verbatim>\<open>fcntl(fd, F_SETFL, ...)\<close>\<close>
  | Ev_stop bool \<comment> \<open>a read of the volatile stop flag\<close>
  | Ev_poll "int + u16" \<comment> \<open>\<^verbatim>\<open>poll\<close>: errno, or the returned events (0 when it timed out)\<close>
  | Ev_read "int + u8 list" \<comment> \<open>\<^verbatim>\<open>read\<close>: errno, or the bytes\<close>
  | Ev_send "int + nat" \<comment> \<open>\<^verbatim>\<open>send\<close>: errno, or the number of bytes taken\<close>
  | Ev_call "int + int" \<comment> \<open>any other call: errno, or its nonnegative result\<close>
  | Ev_alloc bool bool \<comment> \<open>whether the next two \<^verbatim>\<open>calloc\<close> calls would succeed\<close>
  | Ev_cancel bool \<comment> \<open>whether another thread's cancel call came in before the next critical section\<close>
  | Ev_signals nat \<comment> \<open>how many stop signals came in since the last such point\<close>
  | Ev_lstat "int + (bool \<times> bool)" \<comment> \<open>\<^verbatim>\<open>lstat\<close>: errno, or (is a socket, owned by the caller)\<close>

datatype os_action =
    Act_setfl int int
  | Act_poll int int
  | Act_recv int "u8 list"
  | Act_send int "u8 list"
  | Act_open int \<comment> \<open>a descriptor from \<^verbatim>\<open>socket\<close> or \<^verbatim>\<open>accept\<close>\<close>
  | Act_close int
  | Act_handler_close int \<comment> \<open>\<^verbatim>\<open>close\<close> called in a signal handler\<close>
  | Act_shut int nat \<comment> \<open>\<^verbatim>\<open>shutdown\<close> of a socket: 1 is \<^verbatim>\<open>SHUT_WR\<close>, 2 is \<^verbatim>\<open>SHUT_RDWR\<close>\<close>
  | Act_unlink string
  | Act_bind string
  | Act_chmod string nat
  | Act_umask nat
  | Act_stderr string
  | Act_ready string
  | Act_served nat nat
  | Act_shutdown

record os =
  script :: "os_event list"
  trace :: "os_action list"

definition act :: "os_action \<Rightarrow> os \<Rightarrow> os" where
  "act a s = s\<lparr>trace := trace s @ [a]\<rparr>"

lemma bindE:
  assumes "Option.bind m f = Some y"
  obtains x where "m = Some x" "f x = Some y"
  using assms by (auto simp: bind_eq_Some_conv)

text \<open>The calls.  Each takes one result from the script.\<close>

definition sys_clock :: "os \<Rightarrow> ((int \<times> int) option \<times> os) option" where
  "sys_clock s = (case script s of Ev_clock r # es \<Rightarrow> Some (r, s\<lparr>script := es\<rparr>) | _ \<Rightarrow> None)"

definition sys_getfl :: "int \<Rightarrow> os \<Rightarrow> (int \<times> os) option" where
  "sys_getfl fd s = (case script s of Ev_getfl r # es \<Rightarrow> Some (r, s\<lparr>script := es\<rparr>) | _ \<Rightarrow> None)"

definition sys_setfl :: "int \<Rightarrow> int \<Rightarrow> os \<Rightarrow> (int \<times> os) option" where
  "sys_setfl fd flags s =
     (case script s of
        Ev_setfl r # es \<Rightarrow> Some (r, act (Act_setfl fd flags) (s\<lparr>script := es\<rparr>)) | _ \<Rightarrow> None)"

text \<open>Reading the stop flag: a \<^verbatim>\<open>NULL\<close> flag is never set and is not read.\<close>

definition sys_stop :: "bool \<Rightarrow> os \<Rightarrow> (bool \<times> os) option" where
  "sys_stop stop_flag s =
     (if \<not> stop_flag then Some (False, s)
      else case script s of Ev_stop b # es \<Rightarrow> Some (b, s\<lparr>script := es\<rparr>) | _ \<Rightarrow> None)"

definition sys_poll :: "int \<Rightarrow> int \<Rightarrow> os \<Rightarrow> ((int + u16) \<times> os) option" where
  "sys_poll fd timeout s =
     (case script s of
        Ev_poll r # es \<Rightarrow> Some (r, act (Act_poll fd timeout) (s\<lparr>script := es\<rparr>)) | _ \<Rightarrow> None)"

text \<open>\<^verbatim>\<open>read\<close> and \<^verbatim>\<open>send\<close> never move more bytes than they are asked to.\<close>

definition sys_read :: "int \<Rightarrow> nat \<Rightarrow> os \<Rightarrow> ((int + u8 list) \<times> os) option" where
  "sys_read fd n s =
     (case script s of
        Ev_read (Inl e) # es \<Rightarrow> Some (Inl e, s\<lparr>script := es\<rparr>)
      | Ev_read (Inr bs) # es \<Rightarrow>
          if length bs \<le> n then Some (Inr bs, act (Act_recv fd bs) (s\<lparr>script := es\<rparr>)) else None
      | _ \<Rightarrow> None)"

definition sys_send :: "int \<Rightarrow> u8 list \<Rightarrow> os \<Rightarrow> ((int + nat) \<times> os) option" where
  "sys_send fd bs s =
     (case script s of
        Ev_send (Inl e) # es \<Rightarrow> Some (Inl e, s\<lparr>script := es\<rparr>)
      | Ev_send (Inr n) # es \<Rightarrow>
          if n \<le> length bs then Some (Inr n, act (Act_send fd (take n bs)) (s\<lparr>script := es\<rparr>)) else None
      | _ \<Rightarrow> None)"

definition sys_call :: "os \<Rightarrow> ((int + int) \<times> os) option" where
  "sys_call s =
     (case script s of
        Ev_call (Inl e) # es \<Rightarrow> Some (Inl e, s\<lparr>script := es\<rparr>)
      | Ev_call (Inr n) # es \<Rightarrow> if 0 \<le> n then Some (Inr n, s\<lparr>script := es\<rparr>) else None
      | _ \<Rightarrow> None)"

definition sys_alloc :: "os \<Rightarrow> ((bool \<times> bool) \<times> os) option" where
  "sys_alloc s = (case script s of Ev_alloc a b # es \<Rightarrow> Some ((a, b), s\<lparr>script := es\<rparr>) | _ \<Rightarrow> None)"

definition sys_cancel :: "os \<Rightarrow> (bool \<times> os) option" where
  "sys_cancel s = (case script s of Ev_cancel b # es \<Rightarrow> Some (b, s\<lparr>script := es\<rparr>) | _ \<Rightarrow> None)"

definition sys_signals :: "os \<Rightarrow> (nat \<times> os) option" where
  "sys_signals s = (case script s of Ev_signals n # es \<Rightarrow> Some (n, s\<lparr>script := es\<rparr>) | _ \<Rightarrow> None)"

definition sys_lstat :: "os \<Rightarrow> ((int + (bool \<times> bool)) \<times> os) option" where
  "sys_lstat s = (case script s of Ev_lstat r # es \<Rightarrow> Some (r, s\<lparr>script := es\<rparr>) | _ \<Rightarrow> None)"

lemmas sys_defs =
  sys_clock_def sys_getfl_def sys_setfl_def sys_stop_def sys_poll_def sys_read_def sys_send_def
  sys_call_def sys_alloc_def sys_cancel_def sys_signals_def sys_lstat_def act_def

section \<open>What the trace says of one descriptor\<close>

fun recv_of :: "int \<Rightarrow> os_action \<Rightarrow> u8 list" where
  "recv_of fd (Act_recv f bs) = (if f = fd then bs else [])"
| "recv_of fd _ = []"

fun sent_of :: "int \<Rightarrow> os_action \<Rightarrow> u8 list" where
  "sent_of fd (Act_send f bs) = (if f = fd then bs else [])"
| "sent_of fd _ = []"

definition received :: "int \<Rightarrow> os_action list \<Rightarrow> u8 list" where
  "received fd tr = concat (map (recv_of fd) tr)"

definition sent :: "int \<Rightarrow> os_action list \<Rightarrow> u8 list" where
  "sent fd tr = concat (map (sent_of fd) tr)"

lemma received_simps [simp]:
  "received fd [] = []" "received fd (a # tr) = recv_of fd a @ received fd tr"
  "received fd (tr @ tr') = received fd tr @ received fd tr'"
  by (simp_all add: received_def)

lemma sent_simps [simp]:
  "sent fd [] = []" "sent fd (a # tr) = sent_of fd a @ sent fd tr"
  "sent fd (tr @ tr') = sent fd tr @ sent fd tr'"
  by (simp_all add: sent_def)

text \<open>The descriptors a trace opens, those the program itself closes, and those a signal handler closes.\<close>

fun open_of :: "os_action \<Rightarrow> int list" where
  "open_of (Act_open fd) = [fd]"
| "open_of _ = []"

fun close_of :: "os_action \<Rightarrow> int list" where
  "close_of (Act_close fd) = [fd]"
| "close_of _ = []"

fun handler_close_of :: "os_action \<Rightarrow> int list" where
  "handler_close_of (Act_handler_close fd) = [fd]"
| "handler_close_of _ = []"

definition opens :: "os_action list \<Rightarrow> int list" where
  "opens tr = concat (map open_of tr)"

definition closes :: "os_action list \<Rightarrow> int list" where
  "closes tr = concat (map close_of tr)"

definition handler_closes :: "os_action list \<Rightarrow> int list" where
  "handler_closes tr = concat (map handler_close_of tr)"

lemma handler_closes_simps [simp]:
  "handler_closes [] = []" "handler_closes (a # tr) = handler_close_of a @ handler_closes tr"
  "handler_closes (tr @ tr') = handler_closes tr @ handler_closes tr'"
  by (simp_all add: handler_closes_def)

lemma opens_simps [simp]:
  "opens [] = []" "opens (a # tr) = open_of a @ opens tr" "opens (tr @ tr') = opens tr @ opens tr'"
  by (simp_all add: opens_def)

lemma closes_simps [simp]:
  "closes [] = []" "closes (a # tr) = close_of a @ closes tr" "closes (tr @ tr') = closes tr @ closes tr'"
  by (simp_all add: closes_def)

text \<open>
  What a piece of the program does to the environment: it consumes a prefix of the script and
  appends to the trace.  A quiet piece moves no bytes and opens and closes nothing; a transfer
  may move bytes.
\<close>

fun transfer_action :: "os_action \<Rightarrow> bool" where
  "transfer_action (Act_setfl fd flags) = True"
| "transfer_action (Act_poll fd timeout) = True"
| "transfer_action (Act_recv fd bs) = True"
| "transfer_action (Act_send fd bs) = True"
| "transfer_action (Act_shut fd how) = True"
| "transfer_action (Act_stderr m) = True"
| "transfer_action (Act_served c st) = True"
| "transfer_action _ = False"

definition transfers :: "os \<Rightarrow> os \<Rightarrow> bool" where
  "transfers s s' \<longleftrightarrow> (\<exists>used. script s = used @ script s') \<and>
     (\<exists>tr. trace s' = trace s @ tr \<and> list_all transfer_action tr)"

lemma transfers_refl [simp]: "transfers s s"
  by (simp add: transfers_def)

lemma transfers_trans [trans]: "transfers s s' \<Longrightarrow> transfers s' s'' \<Longrightarrow> transfers s s''"
  by (auto simp: transfers_def)

lemma transfers_act: "transfer_action a \<Longrightarrow> transfers s (act a s)"
  by (simp add: transfers_def act_def)

lemma transfers_fds:
  assumes "transfers s s'"
  shows "opens (trace s') = opens (trace s)" and "closes (trace s') = closes (trace s)"
    and "handler_closes (trace s') = handler_closes (trace s)"
proof -
  obtain tr where tr: "trace s' = trace s @ tr" "list_all transfer_action tr"
    using assms by (auto simp: transfers_def)
  have "open_of a = []" "close_of a = []" "handler_close_of a = []" if "transfer_action a" for a
    using that by (cases a; simp)+
  then have "opens tr = [] \<and> closes tr = [] \<and> handler_closes tr = []" using tr(2) by (induction tr) auto
  then show "opens (trace s') = opens (trace s)" "closes (trace s') = closes (trace s)"
      "handler_closes (trace s') = handler_closes (trace s)"
    by (simp_all add: tr(1))
qed

fun quiet_action :: "os_action \<Rightarrow> bool" where
  "quiet_action (Act_setfl fd flags) = True"
| "quiet_action (Act_poll fd timeout) = True"
| "quiet_action _ = False"

definition quiet :: "os \<Rightarrow> os \<Rightarrow> bool" where
  "quiet s s' \<longleftrightarrow> (\<exists>used. script s = used @ script s') \<and>
     (\<exists>tr. trace s' = trace s @ tr \<and> list_all quiet_action tr)"

lemma quiet_refl [simp]: "quiet s s"
  by (simp add: quiet_def)

lemma quiet_trans [trans]: "quiet s s' \<Longrightarrow> quiet s' s'' \<Longrightarrow> quiet s s''"
  by (auto simp: quiet_def)

lemma quiet_transfers: "quiet s s' \<Longrightarrow> transfers s s'"
proof -
  have "transfer_action a" if "quiet_action a" for a using that by (cases a) simp_all
  then show "quiet s s' \<Longrightarrow> transfers s s'"
    by (auto simp: quiet_def transfers_def list_all_iff)
qed

lemma quiet_trace:
  assumes "list_all quiet_action tr"
  shows "received fd tr = []" and "sent fd tr = []"
proof -
  have "recv_of fd a = []" "sent_of fd a = []" if "quiet_action a" for a
    using that by (cases a; simp)+
  then show "received fd tr = []" "sent fd tr = []" using assms by (induction tr) auto
qed

lemma quiet_bytes:
  "quiet s s' \<Longrightarrow> received fd (trace s') = received fd (trace s)"
  "quiet s s' \<Longrightarrow> sent fd (trace s') = sent fd (trace s)"
  by (auto simp: quiet_def quiet_trace)

lemma sys_quiet:
  "sys_clock s = Some (r1, s') \<Longrightarrow> quiet s s'"
  "sys_stop b s = Some (r2, s') \<Longrightarrow> quiet s s'"
  "sys_poll fd t s = Some (r3, s') \<Longrightarrow> quiet s s'"
  "sys_getfl fd s = Some (r4, s') \<Longrightarrow> quiet s s'"
  "sys_setfl fd t s = Some (r5, s') \<Longrightarrow> quiet s s'"
  by (auto simp: sys_defs quiet_def split: list.splits os_event.splits if_splits)

lemma sys_script:
  "sys_clock s = Some (r1, s') \<Longrightarrow> length (script s') < length (script s)"
  "sys_stop f s = Some (b, s') \<Longrightarrow> length (script s') \<le> length (script s)"
  "sys_poll fd t s = Some (r2, s') \<Longrightarrow> length (script s') < length (script s)"
  "sys_read fd n s = Some (r3, s') \<Longrightarrow> length (script s') < length (script s)"
  "sys_send fd bs s = Some (r4, s') \<Longrightarrow> length (script s') < length (script s)"
  "sys_call s = Some (r5, s') \<Longrightarrow> length (script s') < length (script s)"
  "sys_signals s = Some (k, s') \<Longrightarrow> length (script s') < length (script s)"
  by (auto simp: sys_defs split: list.splits os_event.splits if_splits sum.splits)

end
