(* ===== verification/Device_IO.thy ===== *)
theory Device_IO
  imports Posix
begin

text \<open>
  Deadline-bounded socket I/O, \<^verbatim>\<open>src/src/device/qcpu_device_io.c\<close>, over the scripted system
  calls of \<open>Posix\<close>.  The retry loops are functions that terminate because every iteration takes a
  result from the script; a call that would wait forever is one whose script never ends.
\<close>

section \<open>Operations\<close>

definition QCPU_DEVICE_IO_TIMEOUT_MS :: int where
  "QCPU_DEVICE_IO_TIMEOUT_MS = 2000"

datatype QCPUDeviceIOStatus =
    QCPU_DEVICE_IO_OK
  | QCPU_DEVICE_IO_ERROR
  | QCPU_DEVICE_IO_TIMEOUT
  | QCPU_DEVICE_IO_STOPPED

fun io_status_code :: "QCPUDeviceIOStatus \<Rightarrow> int" where
  "io_status_code QCPU_DEVICE_IO_OK = 0"
| "io_status_code QCPU_DEVICE_IO_ERROR = - 1"
| "io_status_code QCPU_DEVICE_IO_TIMEOUT = - 2"
| "io_status_code QCPU_DEVICE_IO_STOPPED = - 3"

definition monotonic_milliseconds :: "os \<Rightarrow> (int \<times> os) option" where
  "monotonic_milliseconds s =
     do { (now, s) \<leftarrow> sys_clock s;
          case now of None \<Rightarrow> Some (- 1, s)
          | Some (tv_sec, tv_nsec) \<Rightarrow> Some (tv_sec * 1000 + tv_nsec div 1000000, s) }"

definition set_nonblocking :: "int \<Rightarrow> os \<Rightarrow> (QCPUDeviceIOStatus \<times> os) option" where
  "set_nonblocking fd s =
     do { (flags, s) \<leftarrow> sys_getfl fd s;
          if flags < 0 then Some (QCPU_DEVICE_IO_ERROR, s)
          else if flags AND O_NONBLOCK \<noteq> 0 then Some (QCPU_DEVICE_IO_OK, s)
          else do { (r, s) \<leftarrow> sys_setfl fd (flags OR O_NONBLOCK) s;
                    if r \<noteq> 0 then Some (QCPU_DEVICE_IO_ERROR, s) else Some (QCPU_DEVICE_IO_OK, s) } }"

function wait_until_ready ::
  "int \<Rightarrow> u16 \<Rightarrow> int \<Rightarrow> bool \<Rightarrow> os \<Rightarrow> (QCPUDeviceIOStatus \<times> os) option" where
  "wait_until_ready fd events deadline_ms stop_flag s =
     do { (stopped, s) \<leftarrow> sys_stop stop_flag s;
          if stopped then Some (QCPU_DEVICE_IO_STOPPED, s)
          else do { (now_ms, s) \<leftarrow> monotonic_milliseconds s;
            if now_ms < 0 then Some (QCPU_DEVICE_IO_ERROR, s)
            else let remaining_ms = deadline_ms - now_ms in
              if remaining_ms \<le> 0 then Some (QCPU_DEVICE_IO_TIMEOUT, s)
              else let poll_timeout = (if remaining_ms > INT_MAX then INT_MAX else remaining_ms) in
                do { (result, s) \<leftarrow> sys_poll fd poll_timeout s;
                     case result of
                       Inr revents \<Rightarrow>
                         if revents = 0 then Some (QCPU_DEVICE_IO_TIMEOUT, s)
                         else if revents AND POLLNVAL \<noteq> 0 then Some (QCPU_DEVICE_IO_ERROR, s)
                         else if revents AND events \<noteq> 0 then Some (QCPU_DEVICE_IO_OK, s)
                         else if revents AND (POLLERR OR POLLHUP) \<noteq> 0
                         then Some (QCPU_DEVICE_IO_ERROR, s)
                         else wait_until_ready fd events deadline_ms stop_flag s
                     | Inl errno \<Rightarrow>
                         if errno = EINTR then wait_until_ready fd events deadline_ms stop_flag s
                         else Some (QCPU_DEVICE_IO_ERROR, s) } } }"
  by pat_completeness auto
termination
  by (relation "measure (\<lambda>(fd, events, deadline_ms, stop_flag, s). length (script s))")
    (auto simp: monotonic_milliseconds_def bind_eq_Some_conv split: option.splits
      dest!: sys_script)

declare wait_until_ready.simps [simp del]

definition prepare_deadline :: "int \<Rightarrow> os \<Rightarrow> ((QCPUDeviceIOStatus \<times> int) \<times> os) option" where
  "prepare_deadline timeout_ms s =
     (if timeout_ms \<le> 0 then Some ((QCPU_DEVICE_IO_ERROR, 0), s)
      else do { (now_ms, s) \<leftarrow> monotonic_milliseconds s;
                if now_ms < 0 then Some ((QCPU_DEVICE_IO_ERROR, 0), s)
                else Some ((QCPU_DEVICE_IO_OK, now_ms + timeout_ms), s) })"

definition write_without_sigpipe :: "int \<Rightarrow> u8 list \<Rightarrow> os \<Rightarrow> ((int + nat) \<times> os) option" where
  "write_without_sigpipe fd buffer s = sys_send fd buffer s"

text \<open>Waiting takes results from the script and moves no bytes.\<close>

lemma clock_quiet: "monotonic_milliseconds s = Some (t, s') \<Longrightarrow> quiet s s'"
  by (auto simp: monotonic_milliseconds_def bind_eq_Some_conv split: option.splits dest: sys_quiet)

lemma wait_unfold:
  assumes "wait_until_ready fd events deadline_ms stop_flag s = Some (r, s')"
  obtains (quiet) "quiet s s'"
  | (again) s1 where "quiet s s1" "length (script s1) < length (script s)"
      "wait_until_ready fd events deadline_ms stop_flag s1 = Some (r, s')"
proof -
  obtain b s1 where b: "sys_stop stop_flag s = Some (b, s1)"
    using assms by (subst (asm) wait_until_ready.simps) (auto simp: bind_eq_Some_conv)
  show ?thesis
  proof (cases b)
    case True
    then show ?thesis
      using assms b quiet by (subst (asm) wait_until_ready.simps) (auto dest: sys_quiet)
  next
    case False
    then obtain t s2 where t: "monotonic_milliseconds s1 = Some (t, s2)"
      using assms b by (subst (asm) wait_until_ready.simps) (auto simp: bind_eq_Some_conv)
    have q2: "quiet s s2" using b t by (blast intro: quiet_trans sys_quiet clock_quiet)
    show ?thesis
    proof (cases "t < 0 \<or> deadline_ms - t \<le> 0")
      case True
      then show ?thesis
        using assms b t q2 quiet \<open>\<not> b\<close>
        by (subst (asm) wait_until_ready.simps) (auto simp: Let_def split: if_splits)
    next
      case now: False
      let ?p = "if deadline_ms - t > INT_MAX then INT_MAX else deadline_ms - t"
      obtain v s3 where v: "sys_poll fd ?p s2 = Some (v, s3)"
        using assms b t now \<open>\<not> b\<close>
        by (subst (asm) wait_until_ready.simps) (auto simp: bind_eq_Some_conv Let_def split del: if_split)
      have q3: "quiet s s3" using q2 v by (blast intro: quiet_trans sys_quiet)
      have l3: "length (script s3) < length (script s)"
        using q2 sys_script(3) [OF v] by (auto simp: quiet_def)
      have *: "s' = s3 \<or> wait_until_ready fd events deadline_ms stop_flag s3 = Some (r, s')"
        using assms b t now v \<open>\<not> b\<close>
        by (subst (asm) wait_until_ready.simps)
          (auto simp: Let_def simp del: if_split split: sum.splits if_splits)
      then show ?thesis using quiet again q3 l3 by blast
    qed
  qed
qed

lemma wait_quiet: "wait_until_ready fd events deadline_ms stop_flag s = Some (r, s') \<Longrightarrow> quiet s s'"
proof (induction "length (script s)" arbitrary: s rule: less_induct)
  case less
  from less.prems show ?case
    by (cases rule: wait_unfold) (blast intro: quiet_trans less.hyps)+
qed

function read_loop ::
  "int \<Rightarrow> u8 list \<Rightarrow> nat \<Rightarrow> nat \<Rightarrow> int \<Rightarrow> bool \<Rightarrow> os \<Rightarrow>
     ((QCPUDeviceIOStatus \<times> u8 list) \<times> os) option" where
  "read_loop fd buffer nbytes completed deadline_ms stop_flag s =
     (if completed < nbytes then
        do { (stopped, s) \<leftarrow> sys_stop stop_flag s;
             if stopped then Some ((QCPU_DEVICE_IO_STOPPED, buffer), s)
             else do { (result, s) \<leftarrow> sys_read fd (nbytes - completed) s;
               case result of
                 Inr bytes \<Rightarrow>
                   if bytes \<noteq> [] then
                     read_loop fd (take completed buffer @ bytes @ drop (completed + length bytes) buffer)
                       nbytes (completed + length bytes) deadline_ms stop_flag s
                   else Some ((QCPU_DEVICE_IO_ERROR, buffer), s)
               | Inl errno \<Rightarrow>
                   if errno = EINTR
                   then read_loop fd buffer nbytes completed deadline_ms stop_flag s
                   else if errno = EAGAIN \<or> errno = EWOULDBLOCK then
                     do { (wait_status, s) \<leftarrow> wait_until_ready fd POLLIN deadline_ms stop_flag s;
                          if wait_status \<noteq> QCPU_DEVICE_IO_OK then Some ((wait_status, buffer), s)
                          else read_loop fd buffer nbytes completed deadline_ms stop_flag s }
                   else Some ((QCPU_DEVICE_IO_ERROR, buffer), s) } }
      else Some ((QCPU_DEVICE_IO_OK, buffer), s))"
  by pat_completeness auto
termination
  by (relation "measure (\<lambda>(fd, buffer, nbytes, completed, deadline_ms, stop_flag, s). length (script s))")
    (auto simp: quiet_def dest!: sys_script wait_quiet)

function write_loop ::
  "int \<Rightarrow> u8 list \<Rightarrow> nat \<Rightarrow> nat \<Rightarrow> int \<Rightarrow> bool \<Rightarrow> os \<Rightarrow> (QCPUDeviceIOStatus \<times> os) option" where
  "write_loop fd buffer nbytes completed deadline_ms stop_flag s =
     (if completed < nbytes then
        do { (stopped, s) \<leftarrow> sys_stop stop_flag s;
             if stopped then Some (QCPU_DEVICE_IO_STOPPED, s)
             else do { (result, s) \<leftarrow>
                 write_without_sigpipe fd (take (nbytes - completed) (drop completed buffer)) s;
               case result of
                 Inr n \<Rightarrow>
                   if n \<noteq> 0 then
                     write_loop fd buffer nbytes (completed + n) deadline_ms stop_flag s
                   else Some (QCPU_DEVICE_IO_ERROR, s)
               | Inl errno \<Rightarrow>
                   if errno = EINTR
                   then write_loop fd buffer nbytes completed deadline_ms stop_flag s
                   else if errno = EAGAIN \<or> errno = EWOULDBLOCK then
                     do { (wait_status, s) \<leftarrow> wait_until_ready fd POLLOUT deadline_ms stop_flag s;
                          if wait_status \<noteq> QCPU_DEVICE_IO_OK then Some (wait_status, s)
                          else write_loop fd buffer nbytes completed deadline_ms stop_flag s }
                   else Some (QCPU_DEVICE_IO_ERROR, s) } }
      else Some (QCPU_DEVICE_IO_OK, s))"
  by pat_completeness auto
termination
  by (relation "measure (\<lambda>(fd, buffer, nbytes, completed, deadline_ms, stop_flag, s). length (script s))")
    (auto simp: quiet_def write_without_sigpipe_def dest!: sys_script wait_quiet)

declare read_loop.simps [simp del] write_loop.simps [simp del]

definition qcpu_device_read_all ::
  "int \<Rightarrow> u8 list option \<Rightarrow> nat \<Rightarrow> int \<Rightarrow> bool \<Rightarrow> os \<Rightarrow>
     ((QCPUDeviceIOStatus \<times> u8 list option) \<times> os) option" where
  "qcpu_device_read_all fd buffer nbytes timeout_ms stop_flag s =
     (case buffer of
        None \<Rightarrow> Some ((QCPU_DEVICE_IO_ERROR, None), s)
      | Some buf \<Rightarrow>
          if fd < 0 then Some ((QCPU_DEVICE_IO_ERROR, buffer), s)
          else do { ((st, deadline_ms), s) \<leftarrow> prepare_deadline timeout_ms s;
            if st \<noteq> QCPU_DEVICE_IO_OK then Some ((QCPU_DEVICE_IO_ERROR, buffer), s)
            else do { (st, s) \<leftarrow> set_nonblocking fd s;
              if st \<noteq> QCPU_DEVICE_IO_OK then Some ((QCPU_DEVICE_IO_ERROR, buffer), s)
              else do { ((st, buf'), s) \<leftarrow> read_loop fd buf nbytes 0 deadline_ms stop_flag s;
                        Some ((st, Some buf'), s) } } })"

definition qcpu_device_write_all ::
  "int \<Rightarrow> u8 list option \<Rightarrow> nat \<Rightarrow> int \<Rightarrow> bool \<Rightarrow> os \<Rightarrow> (QCPUDeviceIOStatus \<times> os) option" where
  "qcpu_device_write_all fd buffer nbytes timeout_ms stop_flag s =
     (case buffer of
        None \<Rightarrow> Some (QCPU_DEVICE_IO_ERROR, s)
      | Some buf \<Rightarrow>
          if fd < 0 then Some (QCPU_DEVICE_IO_ERROR, s)
          else do { ((st, deadline_ms), s) \<leftarrow> prepare_deadline timeout_ms s;
            if st \<noteq> QCPU_DEVICE_IO_OK then Some (QCPU_DEVICE_IO_ERROR, s)
            else do { (st, s) \<leftarrow> set_nonblocking fd s;
              if st \<noteq> QCPU_DEVICE_IO_OK then Some (QCPU_DEVICE_IO_ERROR, s)
              else write_loop fd buf nbytes 0 deadline_ms stop_flag s } })"

text \<open>
  \<^verbatim>\<open>qcpu_device_connect_unix\<close> returns a descriptor or a negative status, and leaves an error
  number where it sets one.  \<^verbatim>\<open>sizeof(address.sun_path)\<close> is 108.
\<close>

definition close_fd :: "int \<Rightarrow> os \<Rightarrow> os" where
  "close_fd fd s = act (Act_close fd) s"

definition qcpu_device_connect_unix ::
  "string option \<Rightarrow> int \<Rightarrow> os \<Rightarrow> ((int \<times> int option) \<times> os) option" where
  "qcpu_device_connect_unix socket_path timeout_ms s =
     (case socket_path of
        None \<Rightarrow> Some ((io_status_code QCPU_DEVICE_IO_ERROR, Some EINVAL), s)
      | Some path \<Rightarrow>
          if timeout_ms \<le> 0 \<or> length path \<ge> 108
          then Some ((io_status_code QCPU_DEVICE_IO_ERROR, Some EINVAL), s)
          else do { (fd, s) \<leftarrow> sys_call s;
            case fd of
              Inl e \<Rightarrow> Some ((io_status_code QCPU_DEVICE_IO_ERROR, Some e), s)
            | Inr fd \<Rightarrow>
                do { (st, s) \<leftarrow> set_nonblocking fd (act (Act_open fd) s);
                  if st \<noteq> QCPU_DEVICE_IO_OK
                  then Some ((io_status_code QCPU_DEVICE_IO_ERROR, None), close_fd fd s)
                  else do { (c, s) \<leftarrow> sys_call s;
                    case c of
                      Inr _ \<Rightarrow> Some ((fd, None), s)
                    | Inl e \<Rightarrow>
                        if e \<noteq> EINPROGRESS \<and> e \<noteq> EAGAIN
                        then Some ((io_status_code QCPU_DEVICE_IO_ERROR, Some e), close_fd fd s)
                        else do { ((st, deadline_ms), s) \<leftarrow> prepare_deadline timeout_ms s;
                          if st \<noteq> QCPU_DEVICE_IO_OK
                          then Some ((io_status_code QCPU_DEVICE_IO_ERROR, None), close_fd fd s)
                          else do { (w, s) \<leftarrow> wait_until_ready fd POLLOUT deadline_ms False s;
                            if w \<noteq> QCPU_DEVICE_IO_OK
                            then Some ((io_status_code w, None), close_fd fd s)
                            else do { (so, s) \<leftarrow> sys_call s;
                              case so of
                                Inl e \<Rightarrow> Some ((io_status_code QCPU_DEVICE_IO_ERROR, Some e), close_fd fd s)
                              | Inr socket_error \<Rightarrow>
                                  if socket_error \<noteq> 0
                                  then Some ((io_status_code QCPU_DEVICE_IO_ERROR, Some socket_error), close_fd fd s)
                                  else Some ((fd, None), s) } } } } } })"

section \<open>Exact transfers\<close>

lemma set_nonblocking_quiet: "set_nonblocking fd s = Some (r, s') \<Longrightarrow> quiet s s'"
  by (auto simp: set_nonblocking_def bind_eq_Some_conv split: if_splits
      intro: quiet_trans dest!: sys_quiet)

lemma prepare_deadline_quiet: "prepare_deadline t s = Some (r, s') \<Longrightarrow> quiet s s'"
  by (auto simp: prepare_deadline_def bind_eq_Some_conv split: if_splits dest: clock_quiet)

text \<open>One iteration of the read loop.\<close>

lemma sys_read_trace:
  "sys_read fd n s = Some (Inl e, s') \<Longrightarrow> trace s' = trace s"
  "sys_read fd n s = Some (Inr bs, s') \<Longrightarrow> trace s' = trace s @ [Act_recv fd bs] \<and> length bs \<le> n"
  "sys_send fd b s = Some (Inl e, s') \<Longrightarrow> trace s' = trace s"
  "sys_send fd b s = Some (Inr k, s') \<Longrightarrow> trace s' = trace s @ [Act_send fd (take k b)] \<and> k \<le> length b"
  by (auto simp: sys_defs split: list.splits os_event.splits if_splits sum.splits)

lemma quiet_read_error: "sys_read fd n s = Some (Inl e, s') \<Longrightarrow> quiet s s'"
  "sys_send fd b s = Some (Inl e, s') \<Longrightarrow> quiet s s'"
  by (auto simp: sys_defs quiet_def split: list.splits os_event.splits if_splits sum.splits)

lemma sys_transfers:
  "sys_read fd n s = Some (v, s') \<Longrightarrow> transfers s s'"
  "sys_send fd b s = Some (u, s') \<Longrightarrow> transfers s s'"
  by (auto simp: sys_defs transfers_def split: list.splits os_event.splits if_splits sum.splits)

lemma read_unfold:
  assumes "read_loop fd buffer nbytes completed deadline_ms stop_flag s = Some ((r, buf'), s')"
    and "completed < nbytes"
  obtains (finish) s1 where "quiet s s1" "transfers s1 s'"
      "trace s' = trace s1 \<or> trace s' = trace s1 @ [Act_recv fd []]"
      "buf' = buffer" "r \<noteq> QCPU_DEVICE_IO_OK"
  | (again) s1 where "quiet s s1" "length (script s1) < length (script s)"
      "read_loop fd buffer nbytes completed deadline_ms stop_flag s1 = Some ((r, buf'), s')"
  | (data) s1 s2 bytes where "quiet s s1" "transfers s1 s2" "trace s2 = trace s1 @ [Act_recv fd bytes]"
      "length (script s2) < length (script s)" "bytes \<noteq> []" "length bytes \<le> nbytes - completed"
      "read_loop fd (take completed buffer @ bytes @ drop (completed + length bytes) buffer)
         nbytes (completed + length bytes) deadline_ms stop_flag s2 = Some ((r, buf'), s')"
proof -
  obtain b s1 where b: "sys_stop stop_flag s = Some (b, s1)"
    using assms by (subst (asm) read_loop.simps) (auto simp: bind_eq_Some_conv)
  have q1: "quiet s s1" using b by (rule sys_quiet)
  show ?thesis
  proof (cases b)
    case True
    then have "s' = s1 \<and> buf' = buffer \<and> r = QCPU_DEVICE_IO_STOPPED"
      using assms b by (subst (asm) read_loop.simps) auto
    then show ?thesis using finish q1 transfers_refl by blast
  next
    case False
    then obtain v s2 where v: "sys_read fd (nbytes - completed) s1 = Some (v, s2)"
      using assms b by (subst (asm) read_loop.simps) (auto simp: bind_eq_Some_conv)
    have l2: "length (script s2) < length (script s)"
      using q1 sys_script(4) [OF v] by (auto simp: quiet_def)
    show ?thesis
    proof (cases v)
      case (Inr bytes)
      then show ?thesis
        using assms b v False q1 l2 sys_read_trace(2) [OF v [unfolded Inr]] sys_transfers(1) [OF v] finish [of s1] data [of s1 s2 bytes]
        by (subst (asm) read_loop.simps) (auto split: if_splits)
    next
      case (Inl e)
      have q2: "quiet s s2" using q1 quiet_read_error(1) v Inl by (blast intro: quiet_trans)
      show ?thesis
      proof (cases "e \<noteq> EINTR \<and> (e = EAGAIN \<or> e = EWOULDBLOCK)")
        case True
        then obtain w s3 where w: "wait_until_ready fd POLLIN deadline_ms stop_flag s2 = Some (w, s3)"
          using assms b v False Inl by (subst (asm) read_loop.simps) (auto simp: bind_eq_Some_conv)
        have "quiet s s3" "length (script s3) < length (script s)"
          using q2 l2 wait_quiet [OF w] by (auto simp: quiet_def)
        then show ?thesis
          using assms b v False Inl True w finish [of s3] again [of s3]
          by (subst (asm) read_loop.simps) (auto split: if_splits)
      next
        case other: False
        then show ?thesis
          using assms b v False Inl q2 l2 finish [of s2] again [of s2]
          by (subst (asm) read_loop.simps) (auto split: if_splits)
      qed
    qed
  qed
qed

lemma read_loop_exact:
  assumes "read_loop fd buffer nbytes completed deadline_ms stop_flag s = Some ((r, buf'), s')"
    and "completed \<le> nbytes" and "length buffer = nbytes"
  shows "\<exists>new. received fd (trace s') = received fd (trace s) @ new \<and>
     (\<forall>f. sent f (trace s') = sent f (trace s)) \<and> completed + length new \<le> nbytes \<and>
     buf' = take completed buffer @ new @ drop (completed + length new) buffer \<and>
     (r = QCPU_DEVICE_IO_OK \<longleftrightarrow> completed + length new = nbytes)"
  using assms
proof (induction "length (script s)" arbitrary: s completed buffer rule: less_induct)
  case less
  show ?case
  proof (cases "completed < nbytes")
    case False
    then have "r = QCPU_DEVICE_IO_OK" "buf' = buffer" "s' = s"
      using less.prems(1) by (auto simp: read_loop.simps [of fd buffer nbytes completed])
    then show ?thesis using False less.prems(2,3) by (intro exI [of _ "[]"]) auto
  next
    case True
    from less.prems(1) True show ?thesis
    proof (cases rule: read_unfold)
      case (finish s1)
      then show ?thesis
        using True by (intro exI [of _ "[]"]) (auto simp: quiet_bytes)
    next
      case (again s1)
      then show ?thesis
        using less.hyps [OF again(2,3) less.prems(2,3)] by (simp add: quiet_bytes)
    next
      case (data s1 s2 bytes)
      let ?buf = "take completed buffer @ bytes @ drop (completed + length bytes) buffer"
      have "\<exists>new. received fd (trace s') = received fd (trace s2) @ new \<and>
         (\<forall>f. sent f (trace s') = sent f (trace s2)) \<and> completed + length bytes + length new \<le> nbytes \<and>
         buf' = take (completed + length bytes) ?buf @ new @ drop (completed + length bytes + length new) ?buf \<and>
         (r = QCPU_DEVICE_IO_OK \<longleftrightarrow> completed + length bytes + length new = nbytes)"
        using data(6) True less.prems(3) by (intro less.hyps [OF data(4,7)]) auto
      then obtain new where "received fd (trace s') = received fd (trace s2) @ new"
         "\<forall>f. sent f (trace s') = sent f (trace s2)" "completed + length bytes + length new \<le> nbytes"
         "buf' = take (completed + length bytes) ?buf @ new @ drop (completed + length bytes + length new) ?buf"
         "r = QCPU_DEVICE_IO_OK \<longleftrightarrow> completed + length bytes + length new = nbytes"
        by blast
      then show ?thesis
        using data(1,3,6) less.prems(2,3)
        by (intro exI [of _ "bytes @ new"]) (simp add: quiet_bytes add.assoc add.commute [of "length new"])
    qed
  qed
qed

text \<open>One iteration of the write loop.\<close>

lemma write_unfold:
  assumes "write_loop fd buffer nbytes completed deadline_ms stop_flag s = Some (r, s')"
    and "completed < nbytes"
  obtains (finish) s1 where "quiet s s1" "transfers s1 s'"
      "trace s' = trace s1 \<or> trace s' = trace s1 @ [Act_send fd []]"
      "r \<noteq> QCPU_DEVICE_IO_OK"
  | (again) s1 where "quiet s s1" "length (script s1) < length (script s)"
      "write_loop fd buffer nbytes completed deadline_ms stop_flag s1 = Some (r, s')"
  | (data) s1 s2 n where "quiet s s1" "transfers s1 s2"
      "trace s2 = trace s1 @ [Act_send fd (take n (take (nbytes - completed) (drop completed buffer)))]"
      "length (script s2) < length (script s)" "0 < n"
      "n \<le> length (take (nbytes - completed) (drop completed buffer))"
      "write_loop fd buffer nbytes (completed + n) deadline_ms stop_flag s2 = Some (r, s')"
proof -
  let ?rest = "take (nbytes - completed) (drop completed buffer)"
  obtain b s1 where b: "sys_stop stop_flag s = Some (b, s1)"
    using assms by (subst (asm) write_loop.simps) (auto simp: bind_eq_Some_conv)
  have q1: "quiet s s1" using b by (rule sys_quiet)
  show ?thesis
  proof (cases b)
    case True
    then have "s' = s1 \<and> r = QCPU_DEVICE_IO_STOPPED"
      using assms b by (subst (asm) write_loop.simps) auto
    then show ?thesis using finish q1 transfers_refl by blast
  next
    case False
    then obtain v s2 where v: "sys_send fd ?rest s1 = Some (v, s2)"
      using assms b by (subst (asm) write_loop.simps) (auto simp: bind_eq_Some_conv write_without_sigpipe_def)
    have l2: "length (script s2) < length (script s)"
      using q1 sys_script(5) [OF v] by (auto simp: quiet_def)
    note unf = write_loop.simps [of fd buffer nbytes completed deadline_ms stop_flag s, unfolded write_without_sigpipe_def]
    show ?thesis
    proof (cases v)
      case (Inr n)
      then have "if n \<noteq> 0 then write_loop fd buffer nbytes (completed + n) deadline_ms stop_flag s2 = Some (r, s')
          else r = QCPU_DEVICE_IO_ERROR \<and> s' = s2"
        using assms b v False by (subst (asm) unf) (auto split: if_splits)
      then show ?thesis
        using q1 l2 sys_read_trace(4) [OF v [unfolded Inr]] sys_transfers(2) [OF v] finish [of s1] data [of s1 s2 n]
        by (cases "n = 0") auto
    next
      case (Inl e)
      have q2: "quiet s s2" using q1 quiet_read_error(2) v Inl by (blast intro: quiet_trans)
      show ?thesis
      proof (cases "e \<noteq> EINTR \<and> (e = EAGAIN \<or> e = EWOULDBLOCK)")
        case True
        then obtain w s3 where w: "wait_until_ready fd POLLOUT deadline_ms stop_flag s2 = Some (w, s3)"
          using assms b v False Inl by (subst (asm) unf) (auto simp: bind_eq_Some_conv)
        have "quiet s s3" "length (script s3) < length (script s)"
          using q2 l2 wait_quiet [OF w] by (auto simp: quiet_def)
        then show ?thesis
          using assms b v False Inl True w finish [of s3] again [of s3]
          by (subst (asm) unf) (auto split: if_splits)
      next
        case other: False
        then show ?thesis
          using assms b v False Inl q2 l2 finish [of s2] again [of s2]
          by (subst (asm) unf) (auto split: if_splits)
      qed
    qed
  qed
qed

lemma write_loop_exact:
  assumes "write_loop fd buffer nbytes completed deadline_ms stop_flag s = Some (r, s')"
    and "completed \<le> nbytes" and "length buffer = nbytes"
  shows "\<exists>n. sent fd (trace s') = sent fd (trace s) @ take n (drop completed buffer) \<and>
     (\<forall>f. received f (trace s') = received f (trace s)) \<and> completed + n \<le> nbytes \<and>
     (r = QCPU_DEVICE_IO_OK \<longleftrightarrow> completed + n = nbytes)"
  using assms
proof (induction "length (script s)" arbitrary: s completed rule: less_induct)
  case less
  show ?case
  proof (cases "completed < nbytes")
    case False
    then have "r = QCPU_DEVICE_IO_OK" "s' = s"
      using less.prems(1) by (auto simp: write_loop.simps [of fd buffer nbytes completed])
    then show ?thesis using False less.prems(2) by (intro exI [of _ 0]) auto
  next
    case True
    from less.prems(1) True show ?thesis
    proof (cases rule: write_unfold)
      case (finish s1)
      then show ?thesis
        using True by (intro exI [of _ 0]) (auto simp: quiet_bytes)
    next
      case (again s1)
      then show ?thesis
        using less.hyps [OF again(2,3) less.prems(2,3)] by (simp add: quiet_bytes)
    next
      case (data s1 s2 n)
      have n: "completed + n \<le> nbytes" "take n (take (nbytes - completed) (drop completed buffer)) =
          take n (drop completed buffer)"
        using data(6) less.prems(3) True by (auto simp: min_def)
      have "\<exists>m. sent fd (trace s') = sent fd (trace s2) @ take m (drop (completed + n) buffer) \<and>
         (\<forall>f. received f (trace s') = received f (trace s2)) \<and> completed + n + m \<le> nbytes \<and>
         (r = QCPU_DEVICE_IO_OK \<longleftrightarrow> completed + n + m = nbytes)"
        using n less.prems(3) by (intro less.hyps [OF data(4,7)]) auto
      then obtain m where "sent fd (trace s') = sent fd (trace s2) @ take m (drop (completed + n) buffer)"
         "\<forall>f. received f (trace s') = received f (trace s2)" "completed + n + m \<le> nbytes"
         "r = QCPU_DEVICE_IO_OK \<longleftrightarrow> completed + n + m = nbytes"
        by blast
      then show ?thesis
        using data(1,3) n
        by (intro exI [of _ "n + m"]) (simp add: quiet_bytes take_add add.assoc add.commute [of n completed])
    qed
  qed
qed

lemma read_all_exact:
  assumes "qcpu_device_read_all fd (Some buf) nbytes timeout_ms stop_flag s = Some ((r, b), s')"
    and "length buf = nbytes" and "0 < nbytes"
  shows "\<exists>new. received fd (trace s') = received fd (trace s) @ new \<and>
     (\<forall>f. sent f (trace s') = sent f (trace s)) \<and> length new \<le> nbytes \<and>
     b = Some (new @ drop (length new) buf) \<and> (r = QCPU_DEVICE_IO_OK \<longleftrightarrow> length new = nbytes)"
proof -
  consider (error) "quiet s s'" "r = QCPU_DEVICE_IO_ERROR" "b = Some buf"
    | (run) s1 dl buf' where "quiet s s1" "b = Some buf'"
        "read_loop fd buf nbytes 0 dl stop_flag s1 = Some ((r, buf'), s')"
    using assms(1)
    by (auto simp: qcpu_device_read_all_def bind_eq_Some_conv split: if_splits
        dest!: prepare_deadline_quiet set_nonblocking_quiet intro: quiet_trans)
      (blast intro: quiet_trans)
  then show ?thesis
  proof cases
    case error
    then show ?thesis using assms(3) by (intro exI [of _ "[]"]) (simp add: quiet_bytes)
  next
    case run
    then show ?thesis using read_loop_exact [OF run(3)] assms(2) by (simp add: quiet_bytes)
  qed
qed

lemma write_all_exact:
  assumes "qcpu_device_write_all fd (Some buf) nbytes timeout_ms stop_flag s = Some (r, s')"
    and "length buf = nbytes" and "0 < nbytes"
  shows "\<exists>n. sent fd (trace s') = sent fd (trace s) @ take n buf \<and>
     (\<forall>f. received f (trace s') = received f (trace s)) \<and> n \<le> nbytes \<and>
     (r = QCPU_DEVICE_IO_OK \<longleftrightarrow> n = nbytes)"
proof -
  consider (error) "quiet s s'" "r = QCPU_DEVICE_IO_ERROR"
    | (run) s1 dl where "quiet s s1" "write_loop fd buf nbytes 0 dl stop_flag s1 = Some (r, s')"
    using assms(1)
    by (auto simp: qcpu_device_write_all_def bind_eq_Some_conv split: if_splits
        dest!: prepare_deadline_quiet set_nonblocking_quiet intro: quiet_trans)
  then show ?thesis
  proof cases
    case error
    then show ?thesis using assms(3) by (intro exI [of _ 0]) (simp add: quiet_bytes)
  next
    case run
    then show ?thesis using write_loop_exact [OF run(2)] assms(2) by (simp add: quiet_bytes)
  qed
qed

lemma read_loop_transfers:
  "read_loop fd buffer nbytes completed deadline_ms stop_flag s = Some ((r, buf'), s') \<Longrightarrow> transfers s s'"
proof (induction "length (script s)" arbitrary: s completed buffer rule: less_induct)
  case less
  show ?case
  proof (cases "completed < nbytes")
    case True
    from less.prems True show ?thesis
      by (cases rule: read_unfold) (blast intro: less.hyps transfers_trans quiet_transfers)+
  qed (use less.prems in \<open>simp add: read_loop.simps [of fd buffer nbytes completed]\<close>)
qed

lemma write_loop_transfers:
  "write_loop fd buffer nbytes completed deadline_ms stop_flag s = Some (r, s') \<Longrightarrow> transfers s s'"
proof (induction "length (script s)" arbitrary: s completed rule: less_induct)
  case less
  show ?case
  proof (cases "completed < nbytes")
    case True
    from less.prems True show ?thesis
      by (cases rule: write_unfold) (blast intro: less.hyps transfers_trans quiet_transfers)+
  qed (use less.prems in \<open>simp add: write_loop.simps [of fd buffer nbytes completed]\<close>)
qed

lemma read_all_transfers:
  "qcpu_device_read_all fd buf nbytes timeout_ms stop_flag s = Some (r, s') \<Longrightarrow> transfers s s'"
  by (auto simp: qcpu_device_read_all_def bind_eq_Some_conv split: if_splits option.splits
      dest!: prepare_deadline_quiet set_nonblocking_quiet read_loop_transfers)
    (blast intro: quiet_transfers transfers_trans)+

lemma write_all_transfers:
  "qcpu_device_write_all fd buf nbytes timeout_ms stop_flag s = Some (r, s') \<Longrightarrow> transfers s s'"
  by (auto simp: qcpu_device_write_all_def bind_eq_Some_conv split: if_splits option.splits
      dest!: prepare_deadline_quiet set_nonblocking_quiet write_loop_transfers)
    (blast intro: quiet_transfers transfers_trans)+

text \<open>
  C34: whatever short reads, interruptions, would-block results and timeouts the environment
  produces, \<^verbatim>\<open>qcpu_device_read_all\<close> stores exactly the bytes it received, in order, from the start
  of the buffer, leaves the rest of the buffer alone, and reports success exactly when the
  buffer is full.
\<close>

theorem read_all_fills_buffer:
  assumes "qcpu_device_read_all fd (Some buf) nbytes timeout_ms stop_flag s = Some ((r, b), s')"
    and "length buf = nbytes" and "0 < nbytes"
  shows "\<exists>new. received fd (trace s') = received fd (trace s) @ new \<and> length new \<le> nbytes \<and>
     b = Some (new @ drop (length new) buf) \<and> (r = QCPU_DEVICE_IO_OK \<longleftrightarrow> length new = nbytes)"
  using read_all_exact [OF assms] by blast

text \<open>A packet that arrives in two pieces, with an interruption and a wait in between.\<close>

definition two_piece_script :: "os_event list" where
  "two_piece_script =
     [Ev_clock (Some (10, 0)), Ev_getfl 2, Ev_setfl 0, Ev_read (Inr [7, 8]), Ev_read (Inl EINTR),
      Ev_read (Inl EAGAIN), Ev_clock (Some (11, 0)), Ev_poll (Inr POLLIN), Ev_read (Inr [9])]"

lemma two_piece_read:
  "qcpu_device_read_all 5 (Some [0, 0, 0]) 3 2000 False \<lparr>script = two_piece_script, trace = []\<rparr> =
     Some ((QCPU_DEVICE_IO_OK, Some [7, 8, 9]),
       \<lparr>script = [], trace = [Act_setfl 5 2050, Act_recv 5 [7, 8], Act_poll 5 1000, Act_recv 5 [9]]\<rparr>)"
  by (simp add: two_piece_script_def qcpu_device_read_all_def prepare_deadline_def
      monotonic_milliseconds_def set_nonblocking_def sys_defs read_loop.simps wait_until_ready.simps
      errno_defs POLLIN_def POLLNVAL_def O_NONBLOCK_def INT_MAX_def)

theorem read_all_fills_buffer_witness:
  "\<exists>new. received 5 [Act_setfl 5 2050, Act_recv 5 [7, 8], Act_poll 5 1000, Act_recv 5 [9]] = new \<and>
     length new = 3"
  using read_all_fills_buffer [OF two_piece_read] by simp

text \<open>
  C35: whatever the environment does, \<^verbatim>\<open>qcpu_device_write_all\<close> sends a prefix of its buffer, each
  byte once and in order, and reports success exactly when it has sent all of it.
\<close>

theorem write_all_sends_buffer:
  assumes "qcpu_device_write_all fd (Some buf) nbytes timeout_ms stop_flag s = Some (r, s')"
    and "length buf = nbytes" and "0 < nbytes"
  shows "\<exists>n. sent fd (trace s') = sent fd (trace s) @ take n buf \<and> n \<le> nbytes \<and>
     (r = QCPU_DEVICE_IO_OK \<longleftrightarrow> n = nbytes)"
  using write_all_exact [OF assms] by blast

lemma two_piece_write:
  "qcpu_device_write_all 5 (Some [7, 8, 9]) 3 2000 True
     \<lparr>script = [Ev_clock (Some (10, 0)), Ev_getfl 2048, Ev_stop False, Ev_send (Inr 2), Ev_stop False,
                Ev_send (Inl EAGAIN), Ev_stop False, Ev_clock (Some (12, 0))], trace = []\<rparr> =
     Some (QCPU_DEVICE_IO_TIMEOUT, \<lparr>script = [], trace = [Act_send 5 [7, 8]]\<rparr>)"
  by (simp add: qcpu_device_write_all_def prepare_deadline_def write_without_sigpipe_def
      monotonic_milliseconds_def set_nonblocking_def sys_defs write_loop.simps wait_until_ready.simps
      errno_defs O_NONBLOCK_def)

theorem write_all_sends_buffer_witness:
  "\<exists>n. sent 5 [Act_send 5 [7, 8]] = take n [7, 8, 9] \<and> n \<le> 3 \<and> n \<noteq> 3"
  using write_all_sends_buffer [OF two_piece_write] by simp

section \<open>Connecting\<close>

lemma sys_call_result:
  "sys_call s = Some (v, s') \<Longrightarrow> trace s' = trace s \<and> (\<forall>n. v = Inr n \<longrightarrow> 0 \<le> n)"
  by (auto simp: sys_call_def split: list.splits os_event.splits if_splits sum.splits)

lemma close_fd_trace [simp]: "trace (close_fd fd s) = trace s @ [Act_close fd]"
  by (simp add: close_fd_def act_def)

lemma io_status_negative: "w \<noteq> QCPU_DEVICE_IO_OK \<Longrightarrow> io_status_code w < 0"
  by (cases w) simp_all

lemma quiet_fds:
  "quiet s s' \<Longrightarrow> opens (trace s') = opens (trace s) \<and> closes (trace s') = closes (trace s)"
  using transfers_fds [OF quiet_transfers] by blast

text \<open>Every way through \<^verbatim>\<open>qcpu_device_connect_unix\<close>, with what it did to the descriptors.\<close>

lemma connect_cases:
  assumes "qcpu_device_connect_unix path timeout_ms s = Some ((result, e), s')"
  shows "(result < 0 \<and> opens (trace s') = opens (trace s) \<and> closes (trace s') = closes (trace s)) \<or>
     (\<exists>fd \<ge> 0. opens (trace s') = opens (trace s) @ [fd] \<and>
        (result = fd \<and> closes (trace s') = closes (trace s) \<or>
         result < 0 \<and> closes (trace s') = closes (trace s) @ [fd]))"
  using assms
  by (auto simp: qcpu_device_connect_unix_def act_def io_status_negative
      split: option.split_asm if_split_asm sum.split_asm prod.split_asm elim!: bindE
      dest!: prepare_deadline_quiet set_nonblocking_quiet wait_quiet quiet_fds sys_call_result)

text \<open>
  \<^verbatim>\<open>qcpu_device_connect_unix\<close> never leaks a descriptor: a nonnegative result is the one
  descriptor it opened and did not close, and a negative result comes with every descriptor it
  opened closed again.
\<close>

theorem connect_no_leak:
  assumes "qcpu_device_connect_unix path timeout_ms s = Some ((result, e), s')"
  shows "\<exists>fds. opens (trace s') = opens (trace s) @ fds \<and>
     closes (trace s') = closes (trace s) @ (if 0 \<le> result then [] else fds) \<and>
     (0 \<le> result \<longrightarrow> fds = [result])"
  using connect_cases [OF assms] by force

theorem connect_no_leak_witness:
  "\<exists>fds. opens [Act_open 3, Act_setfl 3 2048, Act_close 3] = fds \<and>
     closes [Act_open 3, Act_setfl 3 2048, Act_close 3] = fds"
proof -
  have "qcpu_device_connect_unix (Some ''/run/qcpu.sock'') 2000
      \<lparr>script = [Ev_call (Inr 3), Ev_getfl 0, Ev_setfl 0, Ev_call (Inl ENOENT)], trace = []\<rparr> =
    Some ((- 1, Some ENOENT), \<lparr>script = [], trace = [Act_open 3, Act_setfl 3 2048, Act_close 3]\<rparr>)"
    by (simp add: qcpu_device_connect_unix_def set_nonblocking_def sys_defs close_fd_def errno_defs
        O_NONBLOCK_def)
  from connect_no_leak [OF this] show ?thesis by simp
qed

end
