(* ===== verification/Qcpud.thy ===== *)
theory Qcpud
  imports Ghz Wire Device_IO
begin

text \<open>
  The daemon \<^verbatim>\<open>src/src/device/qcpud.c\<close>: request processing, one connection, and \<^verbatim>\<open>main\<close> with its
  accept loop, over the kernel, the wire codec and the socket I/O.  Stop signals come in at the
  points \<open>Ev_signals\<close> of the script, where the handler runs: it sets the flag and closes the registered listener.
\<close>

section \<open>Requests\<close>

definition device_flags :: u32 where
  "device_flags =
     QCPU_DEVICE_FLAG_SOFTWARE_VIRTUAL_QCPU OR QCPU_DEVICE_FLAG_CLASSICAL_HOST OR
     QCPU_DEVICE_FLAG_PHYSICAL_QPU_ABSENT OR QCPU_DEVICE_FLAG_Q0_MOST_SIGNIFICANT"

definition zero_response :: QCPUDeviceResponse where
  "zero_response = \<lparr> dr_magic = 0, dr_version = 0, dr_status = 0, dr_flags = 0, dr_qubits = 0,
     dr_basis_states = 0, dr_shots = 0, dr_measured_state = 0, dr_invalid_results = 0, dr_norm = 0 \<rparr>"

definition response_init :: QCPUDeviceResponse where
  "response_init = zero_response\<lparr>dr_magic := QCPU_DEVICE_RESPONSE_MAGIC,
     dr_version := QCPU_DEVICE_PROTOCOL_VERSION, dr_flags := device_flags\<rparr>"

text \<open>The loop that adds up the counts of the states a GHZ run must not produce.\<close>

definition count_invalid :: "nat \<Rightarrow> QCPUShotResult \<Rightarrow> u64" where
  "count_invalid final_state shot_result =
     foldl (\<lambda>invalid state. if state \<noteq> 0 \<and> state \<noteq> final_state
                            then invalid + the (sr_counts shot_result) ! state else invalid)
       0 [0..<sr_state_count shot_result]"

text \<open>
  \<open>alloc_kernel\<close> and \<open>alloc_shots\<close> say whether the \<^verbatim>\<open>calloc\<close> of the kernel and of the shot counts
  succeed.  The kernel lives on the stack and is written before it is read.
\<close>

definition process_run_ghz ::
  "(real \<Rightarrow> real) \<Rightarrow> bool \<times> bool \<Rightarrow> QCPUDeviceRequest \<Rightarrow> QCPUDeviceResponse \<Rightarrow> QCPUDeviceResponse" where
  "process_run_ghz rnd alloc request response =
     (if dq_qubits request = 0 \<or> dq_qubits request > QCPU_DEVICE_MAX_QUBITS \<or>
         dq_shots request = 0 \<or> dq_shots request > QCPU_DEVICE_MAX_SHOTS
      then response\<lparr>dr_status := device_status_code QCPU_DEVICE_STATUS_RANGE\<rparr>
      else
        (let (status, kern) = qcpu_kernel_init (fst alloc) (Some zero_kernel)
                                (unat (dq_qubits request)) (dq_seed request)
         in if status \<noteq> QCPU_OK
            then response\<lparr>dr_status := device_status_code QCPU_DEVICE_STATUS_KERNEL\<rparr>
            else
              (let (status, kern) = qcpu_kernel_apply_ghz rnd kern;
                   status = (if status = QCPU_OK
                             then qcpu_kernel_validate rnd kern (rnd (1 / 10 ^ 12)) else status);
                   (status, kern, shot_result) =
                     (if status = QCPU_OK
                      then qcpu_kernel_run_shots rnd (snd alloc) kern (unat (dq_shots request))
                             (Some zero_shot_result)
                      else (status, kern, Some zero_shot_result));
                   (status, kern, measured_state, invalid_results) =
                     (if status = QCPU_OK
                      then (case qcpu_kernel_measure rnd kern (Some 0) of
                              (status, kern', ms) \<Rightarrow>
                                (status, kern', the ms,
                                 count_invalid (state_count (the kern) - 1) (the shot_result)))
                      else (status, kern, 0, 0))
               in if status \<noteq> QCPU_OK
                  then response\<lparr>dr_status := device_status_code QCPU_DEVICE_STATUS_KERNEL\<rparr>
                  else response\<lparr>dr_status := device_status_code QCPU_DEVICE_STATUS_OK,
                         dr_qubits := dq_qubits request,
                         dr_basis_states := of_nat (state_count (the kern)),
                         dr_shots := ucast (dq_shots request),
                         dr_measured_state := of_nat measured_state,
                         dr_invalid_results := invalid_results,
                         dr_norm := dbl_bits (qcpu_kernel_norm rnd kern)\<rparr>)))"

definition process_request ::
  "(real \<Rightarrow> real) \<Rightarrow> bool \<times> bool \<Rightarrow> QCPUDeviceRequest \<Rightarrow> QCPUDeviceResponse" where
  "process_request rnd alloc request =
     (if dq_command request = QCPU_DEVICE_COMMAND_STATUS
      then response_init\<lparr>dr_status := device_status_code QCPU_DEVICE_STATUS_OK\<rparr>
      else if dq_command request = QCPU_DEVICE_COMMAND_RUN_GHZ
      then process_run_ghz rnd alloc request response_init
      else response_init\<lparr>dr_status := device_status_code QCPU_DEVICE_STATUS_BAD_COMMAND\<rparr>)"

definition zero_request :: QCPUDeviceRequest where
  "zero_request = \<lparr> dq_magic = 0, dq_version = 0, dq_command = 0, dq_qubits = 0, dq_shots = 0, dq_seed = 0 \<rparr>"

section \<open>One connection\<close>

text \<open>The two wire buffers and the request are stack objects that are written before they are used.\<close>

definition serve_connection :: "(real \<Rightarrow> real) \<Rightarrow> int \<Rightarrow> os \<Rightarrow> (int \<times> os) option" where
  "serve_connection rnd client_fd s =
     do { ((io_status, request_wire), s) \<leftarrow>
            qcpu_device_read_all client_fd (Some (replicate QCPU_DEVICE_REQUEST_WIRE_SIZE 0))
              QCPU_DEVICE_REQUEST_WIRE_SIZE QCPU_DEVICE_IO_TIMEOUT_MS True s;
          if io_status \<noteq> QCPU_DEVICE_IO_OK
          then Some (- 1, if io_status = QCPU_DEVICE_IO_TIMEOUT then act (Act_stderr ''request read timeout'') s
                          else if io_status \<noteq> QCPU_DEVICE_IO_STOPPED
                          then act (Act_stderr ''incomplete request packet'') s
                          else s)
          else do { (alloc, s) \<leftarrow> sys_alloc s;
            let (protocol_status, request) =
                  qcpu_device_decode_request (Some zero_request) request_wire QCPU_DEVICE_REQUEST_WIRE_SIZE;
                response = (if protocol_status \<noteq> QCPU_DEVICE_STATUS_OK
                            then response_init\<lparr>dr_status := device_status_code protocol_status\<rparr>
                            else process_request rnd alloc (the request));
                (encode_status, response_wire) =
                  qcpu_device_encode_response (Some (replicate QCPU_DEVICE_RESPONSE_WIRE_SIZE 0)) (Some response)
            in if encode_status \<noteq> QCPU_DEVICE_STATUS_OK then Some (- 1, s)
               else do { (io_status, s) \<leftarrow>
                     qcpu_device_write_all client_fd response_wire QCPU_DEVICE_RESPONSE_WIRE_SIZE
                       QCPU_DEVICE_IO_TIMEOUT_MS True s;
                   if io_status \<noteq> QCPU_DEVICE_IO_OK
                   then Some (- 1, if io_status = QCPU_DEVICE_IO_TIMEOUT
                                   then act (Act_stderr ''response write timeout'') s else s)
                   else Some (0, act (Act_served (unat (dq_command (the request)))
                                       (unat (dr_status response))) s) } } }"

section \<open>The server\<close>

record signal_state =
  stop_requested :: bool
  server_fd_for_signal :: int

text \<open>The handler: the new state, and the descriptor it closes.\<close>

definition handle_stop_signal :: "signal_state \<Rightarrow> signal_state \<times> int option" where
  "handle_stop_signal st =
     (st\<lparr>stop_requested := True\<rparr>,
      if server_fd_for_signal st \<ge> 0 then Some (server_fd_for_signal st) else None)"

text \<open>
  Signals that came in while the program was in a system call or between two of them, delivered
  one after the other.  The loop below has such a point after each call that can take time; the reads of the flag
  inside the transfers of a connection are free, so they may see the flag earlier.
\<close>

fun run_handler :: "nat \<Rightarrow> signal_state \<Rightarrow> os \<Rightarrow> signal_state \<times> os" where
  "run_handler 0 st s = (st, s)"
| "run_handler (Suc n) st s =
     (case handle_stop_signal st of
        (st, shut) \<Rightarrow> run_handler n st (case shut of None \<Rightarrow> s | Some fd \<Rightarrow> act (Act_handler_close fd) s))"

definition deliver :: "signal_state \<Rightarrow> os \<Rightarrow> (signal_state \<times> os) option" where
  "deliver st s = do { (n, s) \<leftarrow> sys_signals s; Some (run_handler n st s) }"

text \<open>A read of the flag in the loop sees what the handler has written.\<close>

definition read_stop :: "signal_state \<Rightarrow> os \<Rightarrow> (bool \<times> os) option" where
  "read_stop st s =
     do { (stop, s) \<leftarrow> sys_stop True s; if stop = stop_requested st then Some (stop, s) else None }"

text \<open>Two \<^verbatim>\<open>sigemptyset\<close> and three \<^verbatim>\<open>sigaction\<close> calls, in order; the first failure ends it.\<close>

fun all_succeed :: "nat \<Rightarrow> os \<Rightarrow> (bool \<times> os) option" where
  "all_succeed 0 s = Some (True, s)"
| "all_succeed (Suc n) s =
     do { (r, s) \<leftarrow> sys_call s;
          case r of Inl _ \<Rightarrow> Some (False, s) | Inr _ \<Rightarrow> all_succeed n s }"

definition install_signal_handlers :: "os \<Rightarrow> (int \<times> os) option" where
  "install_signal_handlers s =
     do { (ok, s) \<leftarrow> all_succeed 5 s; Some (if ok then 0 else - 1, s) }"

definition prepare_socket_path :: "string \<Rightarrow> os \<Rightarrow> (int \<times> os) option" where
  "prepare_socket_path socket_path s =
     do { (r, s) \<leftarrow> sys_lstat s;
          case r of
            Inr (is_socket, own) \<Rightarrow>
              if \<not> is_socket \<or> \<not> own
              then Some (- 1, act (Act_stderr ''refusing to replace unsafe socket path'') s)
              else do { (u, s) \<leftarrow> sys_call (act (Act_unlink socket_path) s);
                        case u of Inl _ \<Rightarrow> Some (- 1, act (Act_stderr ''unlink'') s)
                        | Inr _ \<Rightarrow> Some (0, s) }
          | Inl errno \<Rightarrow>
              if errno \<noteq> ENOENT then Some (- 1, act (Act_stderr ''lstat'') s) else Some (0, s) }"

definition EXIT_SUCCESS :: int where "EXIT_SUCCESS = 0"
definition EXIT_FAILURE :: int where "EXIT_FAILURE = 1"

text \<open>The exit path that gives up: close the listener, remove the path, ignore their results.\<close>

definition give_up :: "int \<Rightarrow> string \<Rightarrow> os \<Rightarrow> (int \<times> os) option" where
  "give_up server_fd socket_path s =
     Some (EXIT_FAILURE, act (Act_unlink socket_path) (close_fd server_fd s))"

text \<open>The regular exit path, after the loop.\<close>

definition shut_down :: "int \<Rightarrow> string \<Rightarrow> os \<Rightarrow> (int \<times> os) option" where
  "shut_down server_fd socket_path s =
     do { (r, s) \<leftarrow> sys_call (close_fd server_fd s);
          if (case r of Inl errno \<Rightarrow> errno \<noteq> EBADF | Inr _ \<Rightarrow> False)
          then Some (EXIT_FAILURE, act (Act_unlink socket_path) (act (Act_stderr ''close server socket'') s))
          else do { (u, s) \<leftarrow> sys_call (act (Act_unlink socket_path) s);
                    case u of Inl _ \<Rightarrow> Some (EXIT_FAILURE, act (Act_stderr ''unlink socket'') s)
                    | Inr _ \<Rightarrow> Some (EXIT_SUCCESS, act Act_shutdown s) } }"

lemma serve_transfers: "serve_connection rnd fd s = Some (r, s') \<Longrightarrow> transfers s s'"
  by (auto simp: serve_connection_def Let_def sys_alloc_def split: if_split_asm list.split_asm
      os_event.split_asm prod.split_asm elim!: bindE dest!: read_all_transfers write_all_transfers
      intro!: transfers_trans [OF _ transfers_act])
    (auto simp: transfers_def)

lemma run_handler_effect:
  "run_handler n st s = (st', s') \<Longrightarrow>
     script s' = script s \<and> server_fd_for_signal st' = server_fd_for_signal st \<and> stop_requested st' = (stop_requested st \<or> 0 < n) \<and>
     trace s' = trace s @ (if server_fd_for_signal st \<ge> 0 then replicate n (Act_handler_close (server_fd_for_signal st)) else [])"
  by (induction n st s rule: run_handler.induct)
    (auto simp: handle_stop_signal_def act_def replicate_append_same [symmetric] split: if_split_asm)

lemma deliver_effect:
  assumes "deliver st s = Some (st', s')"
  shows "\<exists>n. script s = Ev_signals n # script s' \<and> server_fd_for_signal st' = server_fd_for_signal st \<and>
     stop_requested st' = (stop_requested st \<or> 0 < n) \<and>
     trace s' = trace s @ (if server_fd_for_signal st \<ge> 0 then replicate n (Act_handler_close (server_fd_for_signal st)) else [])"
  using assms
  by (auto simp: deliver_def sys_signals_def split: list.split_asm os_event.split_asm dest!: run_handler_effect)

function accept_loop ::
  "(real \<Rightarrow> real) \<Rightarrow> bool \<Rightarrow> int \<Rightarrow> string \<Rightarrow> signal_state \<Rightarrow> os \<Rightarrow> (int \<times> os) option" where
  "accept_loop rnd once server_fd socket_path st s =
     do { (client, s) \<leftarrow> sys_call s;
          (st, s) \<leftarrow> deliver st s;
          case client of
            Inl errno \<Rightarrow>
              do { (stop, s) \<leftarrow> read_stop st s;
                   if stop then shut_down server_fd socket_path s
                   else if errno = EINTR then accept_loop rnd once server_fd socket_path st s
                   else give_up server_fd socket_path (act (Act_stderr ''accept'') s) }
          | Inr client_fd \<Rightarrow>
              do { (result, s) \<leftarrow> serve_connection rnd client_fd (act (Act_open client_fd) s);
                   (st, s) \<leftarrow> deliver st s;
                   let s = close_fd client_fd s in
                   if result \<noteq> 0 then
                     let s = act (Act_stderr ''client request failed; daemon remains available'') s in
                     if once then give_up server_fd socket_path s
                     else do { (stop, s) \<leftarrow> read_stop st s;
                               if stop then shut_down server_fd socket_path s
                               else accept_loop rnd once server_fd socket_path st s }
                   else if once then shut_down server_fd socket_path s
                   else accept_loop rnd once server_fd socket_path st s } }"
  by pat_completeness auto
termination
  by (relation "measure (\<lambda>(rnd, once, server_fd, socket_path, st, s). length (script s))")
    (auto simp: transfers_def act_def close_fd_def read_stop_def split: if_split_asm elim!: bindE
      dest!: sys_script serve_transfers deliver_effect)

declare accept_loop.simps [simp del]

definition qcpud_main :: "(real \<Rightarrow> real) \<Rightarrow> string list \<Rightarrow> os \<Rightarrow> (int \<times> os) option" where
  "qcpud_main rnd argv s =
     (if length argv \<noteq> 3 \<and> length argv \<noteq> 4
      then Some (EXIT_FAILURE, act (Act_stderr ''USAGE'') s)
      else if argv ! 1 \<noteq> ''--socket''
      then Some (EXIT_FAILURE, act (Act_stderr ''--socket is required'') s)
      else if length argv = 4 \<and> argv ! 3 \<noteq> ''--once''
      then Some (EXIT_FAILURE, act (Act_stderr ''unsupported option'') s)
      else let socket_path = argv ! 2; once = (length argv = 4) in
      if length socket_path \<ge> 108
      then Some (EXIT_FAILURE, act (Act_stderr ''socket path too long'') s)
      else do { (r, s) \<leftarrow> install_signal_handlers (act (Act_umask 63) s);
        if r \<noteq> 0 then Some (EXIT_FAILURE, act (Act_stderr ''sigaction'') s)
        else do { (r, s) \<leftarrow> prepare_socket_path socket_path s;
          if r \<noteq> 0 then Some (EXIT_FAILURE, s)
          else do { (fd, s) \<leftarrow> sys_call s;
            case fd of
              Inl _ \<Rightarrow> Some (EXIT_FAILURE, act (Act_stderr ''socket'') s)
            | Inr server_fd \<Rightarrow>
                do { (b, s) \<leftarrow> sys_call (act (Act_bind socket_path) (act (Act_open server_fd) s));
                  case b of
                    Inl _ \<Rightarrow> Some (EXIT_FAILURE, close_fd server_fd (act (Act_stderr ''bind'') s))
                  | Inr _ \<Rightarrow>
                      do { (c, s) \<leftarrow> sys_call (act (Act_chmod socket_path 384) s);
                        case c of
                          Inl _ \<Rightarrow> give_up server_fd socket_path (act (Act_stderr ''chmod'') s)
                        | Inr _ \<Rightarrow>
                            do { (l, s) \<leftarrow> sys_call s;
                              case l of
                                Inl _ \<Rightarrow> give_up server_fd socket_path (act (Act_stderr ''listen'') s)
                              | Inr _ \<Rightarrow>
                                  do { (st, s) \<leftarrow>
                                         deliver \<lparr>stop_requested = False, server_fd_for_signal = - 1\<rparr> s;
                                       accept_loop rnd once server_fd socket_path
                                         (st\<lparr>server_fd_for_signal := server_fd\<rparr>)
                                         (act (Act_ready socket_path) s) } } } } } } })"

section \<open>What a request is answered with\<close>

lemma count_invalid_zero:
  assumes "\<And>i. 0 < i \<Longrightarrow> i < n - 1 \<Longrightarrow> c ! i = 0"
  shows "count_invalid (n - 1) \<lparr>sr_shots = sh, sr_state_count = n, sr_counts = Some c\<rparr> = 0"
proof -
  have "foldl (\<lambda>invalid state. if state \<noteq> 0 \<and> state \<noteq> n - 1 then invalid + c ! state else invalid) 0 [0..<m] = 0"
    if "m \<le> n" for m
    using that assms
  proof (induction m)
    case (Suc m)
    then show ?case by (cases "m = 0 \<or> m = n - 1") auto
  qed simp
  then show ?thesis by (simp add: count_invalid_def cong: if_cong)
qed

text \<open>An in-range request on a machine with enough memory.\<close>

lemma run_ghz_ok:
  assumes q: "dq_qubits request \<noteq> 0" "dq_qubits request \<le> QCPU_DEVICE_MAX_QUBITS"
    and sh: "dq_shots request \<noteq> 0" "dq_shots request \<le> QCPU_DEVICE_MAX_SHOTS"
  shows "\<exists>m. process_run_ghz rnd_double (True, True) request response =
     response\<lparr>dr_status := device_status_code QCPU_DEVICE_STATUS_OK,
       dr_qubits := dq_qubits request, dr_basis_states := 2 ^ unat (dq_qubits request),
       dr_shots := ucast (dq_shots request), dr_measured_state := of_nat m,
       dr_invalid_results := 0, dr_norm := dbl_bits 1\<rparr> \<and>
     (m = 0 \<or> m = 2 ^ unat (dq_qubits request) - 1)"
proof -
  let ?n = "unat (dq_qubits request)" and ?s = "unat (dq_shots request)"
  have n: "1 \<le> ?n" "?n \<le> QCPU_KERNEL_MAX_QUBITS"
    using q by (auto simp: QCPU_KERNEL_MAX_QUBITS_def QCPU_DEVICE_MAX_QUBITS_def word_le_nat_alt
        unat_gt_0 Suc_le_eq)
  have s: "0 < ?s" "?s < 2 ^ 64"
    using sh by (auto simp: QCPU_DEVICE_MAX_SHOTS_def word_le_nat_alt unat_gt_0)
  obtain k where k: "qcpu_kernel_init True (Some zero_kernel) ?n (dq_seed request) = (QCPU_OK, Some k)"
      "wf_kernel k" "qubit_count k = ?n"
    using init_wf [OF n] by blast
  let ?g = "ghz_kernel rnd_double k"
  have g: "dbl.holds_ghz ?g" "state_count ?g = 2 ^ ?n" "qubit_count ?g = ?n"
    using dbl.holds_ghz_kernel [OF k(2)] k(2,3) by (auto simp: ghz_kernel_def wf_kernel_def)
  obtain r c where c: "qcpu_kernel_run_shots rnd_double True (Some ?g) ?s (Some zero_shot_result) =
       (QCPU_OK, Some (?g\<lparr>rng_state := r\<rparr>),
        Some \<lparr>sr_shots = ?s, sr_state_count = 2 ^ ?n, sr_counts = Some c\<rparr>)" "r \<noteq> 0"
       "\<forall>i. 0 < i \<and> i < 2 ^ ?n - 1 \<longrightarrow> c ! i = 0"
    using dbl.run_shots_ghz [OF g(1) s, of zero_shot_result] g(2) by auto
  have inv: "count_invalid (2 ^ ?n - 1) \<lparr>sr_shots = ?s, sr_state_count = 2 ^ ?n, sr_counts = Some c\<rparr> = 0"
    using c(3) by (intro count_invalid_zero) auto
  obtain k' j where m: "qcpu_kernel_measure rnd_double (Some (?g\<lparr>rng_state := r\<rparr>)) (Some 0) = (QCPU_OK, Some k', Some j)"
      "wf_kernel k'" "qubit_count k' = ?n" "j = 0 \<or> j = 2 ^ ?n - 1" "qcpu_kernel_norm rnd_double (Some k') = 1"
    using dbl.measure_ghz [of "?g\<lparr>rng_state := r\<rparr>" 0] g c(2) by auto
  have "state_count k' = 2 ^ ?n" using m(2,3) by (simp add: wf_kernel_def)
  then have "process_run_ghz rnd_double (True, True) request response =
     response\<lparr>dr_status := device_status_code QCPU_DEVICE_STATUS_OK,
       dr_qubits := dq_qubits request, dr_basis_states := 2 ^ ?n,
       dr_shots := ucast (dq_shots request), dr_measured_state := of_nat j,
       dr_invalid_results := 0, dr_norm := dbl_bits 1\<rparr>"
    using q sh k(1) c(1) inv m(1,5) g(2) ghz_validate_ok [OF k(2)]
    by (simp add: process_run_ghz_def dbl.apply_ghz_wf [OF k(2)] not_less)
  then show ?thesis using m(4) by blast
qed

text \<open>Which requests are within the limits of the device.\<close>

definition request_in_range :: "QCPUDeviceRequest \<Rightarrow> bool" where
  "request_in_range request \<longleftrightarrow>
     1 \<le> dq_qubits request \<and> dq_qubits request \<le> 20 \<and> 1 \<le> dq_shots request \<and> dq_shots request \<le> 100"

lemma request_in_range_code:
  "request_in_range request \<longleftrightarrow>
     \<not> (dq_qubits request = 0 \<or> dq_qubits request > QCPU_DEVICE_MAX_QUBITS \<or>
        dq_shots request = 0 \<or> dq_shots request > QCPU_DEVICE_MAX_SHOTS)"
proof -
  have "1 \<le> w \<longleftrightarrow> w \<noteq> 0" for w :: u32 by (simp add: word_le_nat_alt Suc_le_eq unat_gt_0)
  then show ?thesis
    by (auto simp: request_in_range_def QCPU_DEVICE_MAX_QUBITS_def QCPU_DEVICE_MAX_SHOTS_def not_less)
qed

lemma run_ghz_out_of_range:
  "\<not> request_in_range request \<Longrightarrow> process_run_ghz rnd alloc request response =
     response\<lparr>dr_status := device_status_code QCPU_DEVICE_STATUS_RANGE\<rparr>"
  by (simp add: request_in_range_code process_run_ghz_def)

lemma run_ghz_no_memory:
  assumes r: "request_in_range request" and a: "alloc \<noteq> (True, True)"
  shows "process_run_ghz rnd_double alloc request response =
     response\<lparr>dr_status := device_status_code QCPU_DEVICE_STATUS_KERNEL\<rparr>"
proof -
  let ?n = "unat (dq_qubits request)" and ?s = "unat (dq_shots request)"
  have n: "1 \<le> ?n" "?n \<le> QCPU_KERNEL_MAX_QUBITS" "?s \<noteq> 0"
    using r by (auto simp: request_in_range_code QCPU_KERNEL_MAX_QUBITS_def QCPU_DEVICE_MAX_QUBITS_def
        word_le_nat_alt unat_gt_0 Suc_le_eq not_less)
  obtain a1 a2 where alloc: "alloc = (a1, a2)" by force
  show ?thesis
  proof (cases a1)
    case False
    then have "qcpu_kernel_init a1 (Some zero_kernel) ?n (dq_seed request) = (QCPU_ERR_ALLOC, Some zero_kernel)"
      using n by (simp add: qcpu_kernel_init_def QCPU_KERNEL_MAX_QUBITS_def)
    then show ?thesis
      using r [unfolded request_in_range_code] by (simp add: process_run_ghz_def alloc)
  next
    case True
    then have a2: "a2 = False" using a alloc by simp
    obtain k where k: "qcpu_kernel_init True (Some zero_kernel) ?n (dq_seed request) = (QCPU_OK, Some k)"
        "wf_kernel k"
      using init_wf [OF n(1,2)] by blast
    have "qcpu_kernel_ready (Some (ghz_kernel rnd_double k))"
      using dbl.holds_ghz_kernel [OF k(2)] wf_kernel_ready by (simp add: dbl.holds_ghz_def)
    then have "qcpu_kernel_run_shots rnd_double a2 (Some (ghz_kernel rnd_double k)) ?s (Some zero_shot_result) =
        (QCPU_ERR_ALLOC, Some (ghz_kernel rnd_double k), Some zero_shot_result)"
      using n(3) a2 by (simp add: qcpu_kernel_run_shots_def)
    then show ?thesis
      using r [unfolded request_in_range_code] True k(1) ghz_validate_ok [OF k(2)] a2
      by (simp add: process_run_ghz_def alloc dbl.apply_ghz_wf [OF k(2)])
  qed
qed

lemma run_ghz_answer:
  assumes "request_in_range request"
  shows "\<exists>m. process_run_ghz rnd_double (True, True) request response =
     response\<lparr>dr_status := device_status_code QCPU_DEVICE_STATUS_OK,
       dr_qubits := dq_qubits request, dr_basis_states := 2 ^ unat (dq_qubits request),
       dr_shots := ucast (dq_shots request), dr_measured_state := of_nat m,
       dr_invalid_results := 0, dr_norm := dbl_bits 1\<rparr> \<and>
     (m = 0 \<or> m = 2 ^ unat (dq_qubits request) - 1)"
  using assms by (intro run_ghz_ok) (auto simp: request_in_range_code not_less)

text \<open>
  C4: every GHZ request within the limits of the device, whatever its seed, is answered with
  status OK, the sizes it asked for, no invalid results, a measured state that is all zeros or
  all ones, and a norm that is exactly 1.0, when the two allocations of the daemon succeed.
\<close>

theorem ghz_request_answered:
  assumes "dq_command request = QCPU_DEVICE_COMMAND_RUN_GHZ" and "request_in_range request"
  shows "\<exists>m. process_request rnd_double (True, True) request =
     response_init\<lparr>dr_status := device_status_code QCPU_DEVICE_STATUS_OK,
       dr_qubits := dq_qubits request, dr_basis_states := 2 ^ unat (dq_qubits request),
       dr_shots := ucast (dq_shots request), dr_measured_state := of_nat m,
       dr_invalid_results := 0, dr_norm := 0x3ff0000000000000\<rparr> \<and>
     (m = 0 \<or> m = 2 ^ unat (dq_qubits request) - 1)"
  using run_ghz_answer [OF assms(2), of response_init] assms(1)
  by (simp add: process_request_def protocol_consts dbl_bits_one)

definition sample_request :: QCPUDeviceRequest where
  "sample_request = \<lparr> dq_magic = QCPU_DEVICE_REQUEST_MAGIC, dq_version = QCPU_DEVICE_PROTOCOL_VERSION,
     dq_command = QCPU_DEVICE_COMMAND_RUN_GHZ, dq_qubits = 3, dq_shots = 50, dq_seed = 42 \<rparr>"

lemma sample_request_in_range: "request_in_range sample_request"
  by (simp add: request_in_range_def sample_request_def)

lemma sample_request_fields:
  "dq_command sample_request = QCPU_DEVICE_COMMAND_RUN_GHZ" "dq_qubits sample_request = 3"
  "dq_shots sample_request = 50"
  by (simp_all add: sample_request_def)

theorem ghz_request_answered_witness:
  "dr_basis_states (process_request rnd_double (True, True) sample_request) = 8 \<and>
   dr_measured_state (process_request rnd_double (True, True) sample_request) \<in> {0, 7}"
  using ghz_request_answered [OF sample_request_fields(1) sample_request_in_range]
  by (auto simp: sample_request_fields)

text \<open>
  The status of every answer: OK for a status command; for a GHZ command RANGE outside the
  limits, KERNEL when an allocation fails, OK otherwise; BAD_COMMAND for every other command.
  Every answer carries the response magic, the protocol version and the four device flags, and
  an answer that is not OK carries no result.
\<close>

theorem request_status:
  "dr_status (process_request rnd_double alloc request) = device_status_code
     (if dq_command request = 1 then QCPU_DEVICE_STATUS_OK
      else if dq_command request \<noteq> 2 then QCPU_DEVICE_STATUS_BAD_COMMAND
      else if \<not> request_in_range request then QCPU_DEVICE_STATUS_RANGE
      else if alloc \<noteq> (True, True) then QCPU_DEVICE_STATUS_KERNEL
      else QCPU_DEVICE_STATUS_OK) \<and>
   dr_magic (process_request rnd_double alloc request) = QCPU_DEVICE_RESPONSE_MAGIC \<and>
   dr_version (process_request rnd_double alloc request) = QCPU_DEVICE_PROTOCOL_VERSION \<and>
   dr_flags (process_request rnd_double alloc request) = 15 \<and>
   (dr_status (process_request rnd_double alloc request) \<noteq> 0 \<longrightarrow>
      dr_qubits (process_request rnd_double alloc request) = 0 \<and>
      dr_basis_states (process_request rnd_double alloc request) = 0 \<and>
      dr_shots (process_request rnd_double alloc request) = 0 \<and>
      dr_measured_state (process_request rnd_double alloc request) = 0 \<and>
      dr_invalid_results (process_request rnd_double alloc request) = 0 \<and>
      dr_norm (process_request rnd_double alloc request) = 0)"
proof -
  have f: "device_flags = 15"
    by (simp add: device_flags_def QCPU_DEVICE_FLAG_SOFTWARE_VIRTUAL_QCPU_def
        QCPU_DEVICE_FLAG_CLASSICAL_HOST_def QCPU_DEVICE_FLAG_PHYSICAL_QPU_ABSENT_def
        QCPU_DEVICE_FLAG_Q0_MOST_SIGNIFICANT_def push_bit_eq_mult)
  consider "dq_command request \<noteq> 2" | "dq_command request = 2" "\<not> request_in_range request"
    | "dq_command request = 2" "request_in_range request" "alloc \<noteq> (True, True)"
    | "dq_command request = 2" "request_in_range request" "alloc = (True, True)" by blast
  then show ?thesis
  proof cases
    case 1
    then show ?thesis
      by (simp add: process_request_def QCPU_DEVICE_COMMAND_STATUS_def QCPU_DEVICE_COMMAND_RUN_GHZ_def
          response_init_def zero_response_def f)
  next
    case 2
    then show ?thesis
      by (simp add: process_request_def QCPU_DEVICE_COMMAND_STATUS_def QCPU_DEVICE_COMMAND_RUN_GHZ_def
          response_init_def zero_response_def f run_ghz_out_of_range)
  next
    case 3
    then show ?thesis
      by (simp add: process_request_def QCPU_DEVICE_COMMAND_STATUS_def QCPU_DEVICE_COMMAND_RUN_GHZ_def
          response_init_def zero_response_def f run_ghz_no_memory)
  next
    case 4
    obtain m where "process_run_ghz rnd_double (True, True) request response_init =
       response_init\<lparr>dr_status := device_status_code QCPU_DEVICE_STATUS_OK,
       dr_qubits := dq_qubits request, dr_basis_states := 2 ^ unat (dq_qubits request),
       dr_shots := ucast (dq_shots request), dr_measured_state := of_nat m,
       dr_invalid_results := 0, dr_norm := dbl_bits 1\<rparr>"
      using run_ghz_answer [OF 4(2)] by blast
    then show ?thesis
      using 4 by (simp add: process_request_def QCPU_DEVICE_COMMAND_STATUS_def QCPU_DEVICE_COMMAND_RUN_GHZ_def
          response_init_def zero_response_def f)
  qed
qed

theorem request_status_witness:
  "dr_status (process_request rnd_double (True, False) sample_request) = 5 \<and>
   dr_shots (process_request rnd_double (True, False) sample_request) = 0"
  using request_status [of "(True, False)" sample_request] sample_request_in_range
  by (simp add: sample_request_fields QCPU_DEVICE_COMMAND_RUN_GHZ_def)

section \<open>One connection\<close>

text \<open>The bytes of a response, and the answer to a packet, from bytes to bytes.\<close>

definition response_bytes :: "QCPUDeviceResponse \<Rightarrow> u8 list" where
  "response_bytes response =
     the (snd (qcpu_device_encode_response (Some (replicate QCPU_DEVICE_RESPONSE_WIRE_SIZE 0)) (Some response)))"

definition answer_packet :: "(real \<Rightarrow> real) \<Rightarrow> bool \<times> bool \<Rightarrow> u8 list \<Rightarrow> u8 list" where
  "answer_packet rnd alloc packet =
     (let (st, request) = qcpu_device_decode_request (Some zero_request) (Some packet) QCPU_DEVICE_REQUEST_WIRE_SIZE
      in response_bytes (if st \<noteq> QCPU_DEVICE_STATUS_OK
                         then response_init\<lparr>dr_status := device_status_code st\<rparr>
                         else process_request rnd alloc (the request)))"

lemma encode_response_bytes:
  "qcpu_device_encode_response (Some (replicate QCPU_DEVICE_RESPONSE_WIRE_SIZE 0)) (Some response) =
     (QCPU_DEVICE_STATUS_OK, Some (response_bytes response))"
  by (simp add: response_bytes_def qcpu_device_encode_response_def Let_def)

lemma length_response_bytes [simp]: "length (response_bytes response) = QCPU_DEVICE_RESPONSE_WIRE_SIZE"
  by (simp add: response_bytes_def qcpu_device_encode_response_def Let_def)

lemma length_answer_packet: "length (answer_packet rnd alloc packet) = QCPU_DEVICE_RESPONSE_WIRE_SIZE"
  by (simp add: answer_packet_def split: prod.splits)

text \<open>One connection, with the allocation result it took from the script.\<close>

lemma serve_connection_exact:
  assumes "serve_connection rnd fd s = Some (r, s')"
  shows "\<exists>packet alloc n. received fd (trace s') = received fd (trace s) @ packet \<and>
     sent fd (trace s') = sent fd (trace s) @ take n (answer_packet rnd alloc packet) \<and>
     length packet \<le> QCPU_DEVICE_REQUEST_WIRE_SIZE \<and> n \<le> QCPU_DEVICE_RESPONSE_WIRE_SIZE \<and>
     (length packet < QCPU_DEVICE_REQUEST_WIRE_SIZE \<longrightarrow> n = 0) \<and>
     (length packet = QCPU_DEVICE_REQUEST_WIRE_SIZE \<longrightarrow> Ev_alloc (fst alloc) (snd alloc) \<in> set (script s)) \<and>
     r = (if length packet = QCPU_DEVICE_REQUEST_WIRE_SIZE \<and> n = QCPU_DEVICE_RESPONSE_WIRE_SIZE
          then 0 else - 1)"
proof -
  let ?in = "replicate QCPU_DEVICE_REQUEST_WIRE_SIZE (0 :: u8)"
  obtain st wire s1 where rd: "qcpu_device_read_all fd (Some ?in) QCPU_DEVICE_REQUEST_WIRE_SIZE
      QCPU_DEVICE_IO_TIMEOUT_MS True s = Some ((st, wire), s1)"
    using assms by (auto simp: serve_connection_def elim!: bindE)
  obtain packet where p: "received fd (trace s1) = received fd (trace s) @ packet"
      "sent fd (trace s1) = sent fd (trace s)" "length packet \<le> QCPU_DEVICE_REQUEST_WIRE_SIZE"
      "wire = Some (packet @ drop (length packet) ?in)"
      "st = QCPU_DEVICE_IO_OK \<longleftrightarrow> length packet = QCPU_DEVICE_REQUEST_WIRE_SIZE"
    using read_all_exact [OF rd] by (auto simp: QCPU_DEVICE_REQUEST_WIRE_SIZE_def)
  show ?thesis
  proof (cases "st = QCPU_DEVICE_IO_OK")
    case False
    then have "r = - 1" "received fd (trace s') = received fd (trace s1)" "sent fd (trace s') = sent fd (trace s1)"
      using assms rd by (auto simp: serve_connection_def act_def split: if_split_asm)
    then show ?thesis
      using False p by (intro exI [of _ packet] exI [of _ "(True, True)"] exI [of _ 0]) auto
  next
    case True
    then have wire: "wire = Some packet" "length packet = QCPU_DEVICE_REQUEST_WIRE_SIZE" using p by auto
    obtain alloc s2 where al: "sys_alloc s1 = Some (alloc, s2)"
      using assms rd True by (auto simp: serve_connection_def elim!: bindE)
    have tr2: "trace s2 = trace s1" "Ev_alloc (fst alloc) (snd alloc) \<in> set (script s1)"
      using al by (auto simp: sys_alloc_def split: list.splits os_event.splits)
    have ev: "Ev_alloc (fst alloc) (snd alloc) \<in> set (script s)"
      using tr2(2) read_all_transfers [OF rd] by (auto simp: transfers_def)
    let ?out = "answer_packet rnd alloc packet"
    obtain w s3 where w: "qcpu_device_write_all fd (Some ?out) QCPU_DEVICE_RESPONSE_WIRE_SIZE
        QCPU_DEVICE_IO_TIMEOUT_MS True s2 = Some (w, s3)"
      "r = (if w = QCPU_DEVICE_IO_OK then 0 else - 1)"
      "received fd (trace s') = received fd (trace s3)" "sent fd (trace s') = sent fd (trace s3)"
      using assms rd True al wire
      by (auto simp: serve_connection_def answer_packet_def act_def Let_def encode_response_bytes
          split: if_split_asm prod.split_asm elim!: bindE)
    obtain n where "sent fd (trace s3) = sent fd (trace s2) @ take n ?out"
        "received fd (trace s3) = received fd (trace s2)" "n \<le> QCPU_DEVICE_RESPONSE_WIRE_SIZE"
        "w = QCPU_DEVICE_IO_OK \<longleftrightarrow> n = QCPU_DEVICE_RESPONSE_WIRE_SIZE"
      using write_all_exact [OF w(1) length_answer_packet] by (auto simp: QCPU_DEVICE_RESPONSE_WIRE_SIZE_def)
    then show ?thesis
      using w p wire tr2(1) ev by (intro exI [of _ packet] exI [of _ alloc] exI [of _ n]) auto
  qed
qed

text \<open>
  C5: the daemon handles a connection by the protocol: it returns 0 exactly when it has received
  one whole request packet and sent one whole answer, and then the answer is the one for the packet
  it received; otherwise it returns -1, having sent at most a proper prefix of that answer, and
  nothing at all when the request was incomplete.
\<close>

theorem serve_connection_protocol:
  assumes "serve_connection rnd fd s = Some (r, s')"
  shows "\<exists>packet alloc n. received fd (trace s') = received fd (trace s) @ packet \<and>
     sent fd (trace s') = sent fd (trace s) @ take n (answer_packet rnd alloc packet) \<and>
     length packet \<le> QCPU_DEVICE_REQUEST_WIRE_SIZE \<and> n \<le> QCPU_DEVICE_RESPONSE_WIRE_SIZE \<and>
     (length packet < QCPU_DEVICE_REQUEST_WIRE_SIZE \<longrightarrow> n = 0) \<and>
     r = (if length packet = QCPU_DEVICE_REQUEST_WIRE_SIZE \<and> n = QCPU_DEVICE_RESPONSE_WIRE_SIZE
          then 0 else - 1)"
  using serve_connection_exact [OF assms] by blast

text \<open>A connection that ends with an unrecognised packet: its magic is zero.\<close>

lemma serve_bad_magic:
  "serve_connection rnd_double 5
     \<lparr>script = [Ev_clock (Some (1, 0)), Ev_getfl 2048, Ev_stop False, Ev_read (Inr (replicate 24 0)),
        Ev_alloc True True, Ev_clock (Some (1, 0)), Ev_getfl 2048, Ev_stop False, Ev_send (Inr 56)],
      trace = []\<rparr> =
   Some (0, \<lparr>script = [], trace = [Act_recv 5 (replicate 24 0),
     Act_send 5 (response_bytes (response_init\<lparr>dr_status := 1\<rparr>)), Act_served 0 1]\<rparr>)"
proof -
  have d: "qcpu_device_decode_request (Some zero_request) (Some (replicate 24 0)) 24 =
      (QCPU_DEVICE_STATUS_BAD_MAGIC, Some zero_request)"
  proof -
    have "get_u16_le (replicate 24 0) 4 = 0" "get_u16_le (replicate 24 0) 6 = 0"
      "get_u32_le (replicate 24 0) 0 = 0" "get_u32_le (replicate 24 0) 8 = 0"
      "get_u32_le (replicate 24 0) 12 = 0" "get_u64_le (replicate 24 0) 16 = 0"
      by (simp_all add: get_u16_le_def get_u32_le_def get_u64_le_def upt_rec numeral_eq_Suc)
    then show ?thesis
      by (simp add: qcpu_device_decode_request_def wire_size_defs zero_request_def
          QCPU_DEVICE_REQUEST_MAGIC_def)
  qed
  have "qcpu_device_read_all 5 (Some (replicate 24 0)) 24 2000 True
     \<lparr>script = [Ev_clock (Some (1, 0)), Ev_getfl 2048, Ev_stop False, Ev_read (Inr (replicate 24 0)),
        Ev_alloc True True, Ev_clock (Some (1, 0)), Ev_getfl 2048, Ev_stop False, Ev_send (Inr 56)],
      trace = []\<rparr> = Some ((QCPU_DEVICE_IO_OK, Some (replicate 24 0)),
     \<lparr>script = [Ev_alloc True True, Ev_clock (Some (1, 0)), Ev_getfl 2048, Ev_stop False, Ev_send (Inr 56)],
      trace = [Act_recv 5 (replicate 24 0)]\<rparr>)"
    by (simp add: qcpu_device_read_all_def prepare_deadline_def monotonic_milliseconds_def
        set_nonblocking_def sys_defs O_NONBLOCK_def read_loop.simps)
  moreover have "qcpu_device_write_all 5 (Some b) 56 2000 True
     \<lparr>script = [Ev_clock (Some (1, 0)), Ev_getfl 2048, Ev_stop False, Ev_send (Inr 56)],
      trace = [Act_recv 5 (replicate 24 0)]\<rparr> = Some (QCPU_DEVICE_IO_OK,
     \<lparr>script = [], trace = [Act_recv 5 (replicate 24 0), Act_send 5 b]\<rparr>)"
    if "length b = 56" for b
    using that
    by (simp add: qcpu_device_write_all_def prepare_deadline_def monotonic_milliseconds_def
        set_nonblocking_def sys_defs O_NONBLOCK_def write_loop.simps write_without_sigpipe_def)
  moreover have "length (response_bytes r) = 56" for r by (simp add: QCPU_DEVICE_RESPONSE_WIRE_SIZE_def)
  moreover have "dq_command zero_request = 0" by (simp add: zero_request_def)
  ultimately show ?thesis
    using encode_response_bytes [of "response_init\<lparr>dr_status := 1\<rparr>"]
    by (simp add: serve_connection_def wire_size_defs QCPU_DEVICE_IO_TIMEOUT_MS_def sys_alloc_def d act_def)
qed

theorem serve_connection_protocol_witness:
  "\<exists>packet alloc n. received 5 [Act_recv 5 (replicate 24 0),
       Act_send 5 (response_bytes (response_init\<lparr>dr_status := 1\<rparr>)), Act_served 0 1] = packet \<and>
     n = 56 \<and> response_bytes (response_init\<lparr>dr_status := 1\<rparr>) = take n (answer_packet rnd_double alloc packet)"
  using serve_connection_protocol [OF serve_bad_magic] by (auto simp: wire_size_defs split: if_split_asm)

section \<open>The server's descriptors and socket path\<close>

text \<open>What makes a daemon that is not asked to serve only once leave its loop.\<close>

definition stop_or_error :: "os_event list \<Rightarrow> bool" where
  "stop_or_error used \<longleftrightarrow> Ev_stop True \<in> set used \<or> (\<exists>e. e \<noteq> EINTR \<and> Ev_call (Inl e) \<in> set used)"

lemma stop_or_error_append [simp]: "stop_or_error (a @ b) \<longleftrightarrow> stop_or_error a \<or> stop_or_error b"
  by (auto simp: stop_or_error_def)

lemma sys_call_used: "sys_call s = Some (v, s') \<Longrightarrow> script s = Ev_call v # script s' \<and> trace s' = trace s"
  by (auto simp: sys_call_def split: list.splits os_event.splits if_splits sum.splits)

lemma sys_stop_used: "sys_stop True s = Some (b, s') \<Longrightarrow> script s = Ev_stop b # script s' \<and> trace s' = trace s"
  by (auto simp: sys_stop_def split: list.splits os_event.splits)

lemma read_stop_used:
  "read_stop st s = Some (b, s') \<Longrightarrow> script s = Ev_stop b # script s' \<and> trace s' = trace s \<and> b = stop_requested st"
  by (auto simp: read_stop_def split: if_split_asm elim!: bindE dest!: sys_stop_used)

text \<open>What a piece of the loop does to descriptors: those it opens it closes, in order; a handler closes only the listener.\<close>

definition loop_effect :: "int \<Rightarrow> int list \<Rightarrow> os \<Rightarrow> os \<Rightarrow> bool" where
  "loop_effect listener fds s s' \<longleftrightarrow>
     (\<exists>tr. trace s' = trace s @ tr \<and> opens tr = fds \<and> closes tr = fds \<and> set (handler_closes tr) \<subseteq> {listener})"

lemma handler_trace [simp]:
  "opens (replicate n (Act_handler_close fd)) = []" "closes (replicate n (Act_handler_close fd)) = []"
  "set (handler_closes (replicate n (Act_handler_close fd))) \<subseteq> {fd}"
  by (induction n) auto

lemma loop_effect_trans: "loop_effect l a s s' \<Longrightarrow> loop_effect l b s' s'' \<Longrightarrow> loop_effect l (a @ b) s s''"
  by (fastforce simp: loop_effect_def)

lemma deliver_loop_effect: "deliver st s = Some (st', s') \<Longrightarrow> loop_effect (server_fd_for_signal st) [] s s'"
proof -
  assume "deliver st s = Some (st', s')"
  then obtain n where "trace s' = trace s @
      (if server_fd_for_signal st \<ge> 0 then replicate n (Act_handler_close (server_fd_for_signal st)) else [])"
    by (blast dest: deliver_effect)
  then show ?thesis using handler_trace(3) [of n "server_fd_for_signal st"] unfolding loop_effect_def by auto
qed

lemma serve_used:
  assumes "serve_connection rnd fd (act (Act_open fd) s) = Some (r, s')"
  obtains used tr where "script s = used @ script s'" "trace s' = trace s @ tr" "opens tr = [fd]" "closes tr = []"
    "handler_closes tr = []"
proof -
  obtain tr where "trace s' = trace s @ Act_open fd # tr"
    using serve_transfers [OF assms] by (auto simp: transfers_def act_def)
  then show ?thesis
    using that serve_transfers [OF assms] transfers_fds [OF serve_transfers [OF assms]]
    by (auto simp: transfers_def act_def)
qed

lemma shut_down_effect:
  "shut_down server_fd path s = Some (r, s') \<or> give_up server_fd path s = Some (r, s') \<Longrightarrow>
     (\<exists>used. script s = used @ script s') \<and>
     (\<exists>tr. trace s' = trace s @ tr \<and> opens tr = [] \<and> closes tr = [server_fd] \<and> handler_closes tr = [] \<and> Act_unlink path \<in> set tr)"
  by (auto simp: shut_down_def give_up_def close_fd_def act_def EXIT_SUCCESS_def EXIT_FAILURE_def
      split: if_split_asm sum.split_asm elim!: bindE dest!: sys_call_used)

text \<open>One turn of the accept loop: it leaves, or it comes round with every client closed.\<close>

lemma accept_unfold:
  assumes "accept_loop rnd once server_fd path st s = Some (r, s')"
  obtains (leave) used fds s1 where "script s = used @ script s1" "loop_effect (server_fd_for_signal st) fds s s1"
      "shut_down server_fd path s1 = Some (r, s') \<or> give_up server_fd path s1 = Some (r, s')"
      "once \<or> stop_or_error used"
  | (again) used fds s1 st' where "script s = used @ script s1" "used \<noteq> []" "loop_effect (server_fd_for_signal st) fds s s1"
      "server_fd_for_signal st' = server_fd_for_signal st" "accept_loop rnd once server_fd path st' s1 = Some (r, s')"
proof -
  obtain c s0 st1 s1 where c: "sys_call s = Some (c, s0)" and d: "deliver st s0 = Some (st1, s1)"
    using assms by (subst (asm) accept_loop.simps) (auto elim!: bindE)
  note c' = sys_call_used [OF c]
  obtain n where n: "script s0 = Ev_signals n # script s1" "server_fd_for_signal st1 = server_fd_for_signal st"
    using deliver_effect [OF d] by blast
  have e1: "loop_effect (server_fd_for_signal st) [] s s1"
    using deliver_loop_effect [OF d] c' by (simp add: loop_effect_def)
  show ?thesis
  proof (cases c)
    case (Inl e)
    then obtain b s2 where b: "read_stop st1 s1 = Some (b, s2)"
      using assms c d by (subst (asm) accept_loop.simps) (auto elim!: bindE)
    note b' = read_stop_used [OF b]
    have e2: "loop_effect (server_fd_for_signal st) [] s s2" "loop_effect (server_fd_for_signal st) [] s (act (Act_stderr ''accept'') s2)"
      using e1 b' by (auto simp: loop_effect_def act_def)
    let ?u = "[Ev_call c, Ev_signals n, Ev_stop b]"
    show ?thesis
    proof (cases "\<not> b \<and> e = EINTR")
      case True
      then show ?thesis
        using assms c d b Inl b' c' n e2 again [of ?u s2 "[]" st1]
        by (subst (asm) accept_loop.simps) auto
    next
      case False
      then have "stop_or_error ?u" using Inl by (auto simp: stop_or_error_def)
      then show ?thesis
        using assms c d b Inl b' c' n e2 False leave [of ?u s2 "[]"] leave [of ?u "act (Act_stderr ''accept'') s2" "[]"]
        by (subst (asm) accept_loop.simps) (auto simp: act_def split: if_split_asm)
    qed
  next
    case (Inr fd)
    then obtain v s2 st3 s3 where v: "serve_connection rnd fd (act (Act_open fd) s1) = Some (v, s2)"
        and d2: "deliver st1 s2 = Some (st3, s3)"
      using assms c d by (subst (asm) accept_loop.simps) (auto elim!: bindE)
    obtain used tr where u: "script s1 = used @ script s2" "trace s2 = trace s1 @ tr" "opens tr = [fd]" "closes tr = []"
        "handler_closes tr = []"
      using serve_used [OF v] .
    obtain n2 where n2: "script s2 = Ev_signals n2 # script s3" "server_fd_for_signal st3 = server_fd_for_signal st"
      using deliver_effect [OF d2] n(2) by auto
    obtain tr2 where tr2: "trace s3 = trace s2 @ tr2" "opens tr2 = []" "closes tr2 = []"
        "set (handler_closes tr2) \<subseteq> {server_fd_for_signal st}"
      using deliver_loop_effect [OF d2] n(2) by (auto simp: loop_effect_def)
    let ?s4 = "close_fd fd s3"
    let ?s5 = "act (Act_stderr ''client request failed; daemon remains available'') ?s4"
    have sc: "script ?s4 = script s3" "script ?s5 = script s3" by (simp_all add: close_fd_def act_def)
    have "loop_effect (server_fd_for_signal st) [fd] s1 ?s4" "loop_effect (server_fd_for_signal st) [fd] s1 ?s5"
      using u tr2 by (auto simp: loop_effect_def act_def)
    then have e5: "loop_effect (server_fd_for_signal st) [fd] s ?s4" "loop_effect (server_fd_for_signal st) [fd] s ?s5"
      using loop_effect_trans [OF e1] by auto
    let ?u = "Ev_call c # Ev_signals n # used @ [Ev_signals n2]"
    have us: "script s = ?u @ script s3" using c' n u n2 by simp
    show ?thesis
    proof (cases "v \<noteq> 0 \<and> \<not> once")
      case True
      then obtain b s6 where b: "read_stop st3 ?s5 = Some (b, s6)"
        using assms c d Inr v d2 by (subst (asm) accept_loop.simps) (auto simp: Let_def elim!: bindE)
      note b' = read_stop_used [OF b]
      have e6: "loop_effect (server_fd_for_signal st) [fd] s s6" using e5(2) b' by (simp add: loop_effect_def)
      have "if b then shut_down server_fd path s6 = Some (r, s')
          else accept_loop rnd once server_fd path st3 s6 = Some (r, s')"
        using assms c d Inr v d2 True b by (subst (asm) accept_loop.simps) (auto simp: Let_def)
      then show ?thesis
        using b' us sc e6 n2(2) leave [of "?u @ [Ev_stop b]" s6 "[fd]"] again [of "?u @ [Ev_stop b]" s6 "[fd]" st3]
        by (cases b) (auto simp: stop_or_error_def)
    next
      case False
      have "if v \<noteq> 0 then give_up server_fd path ?s5 = Some (r, s')
          else if once then shut_down server_fd path ?s4 = Some (r, s')
          else accept_loop rnd once server_fd path st3 ?s4 = Some (r, s')"
        using assms c d Inr v d2 False by (subst (asm) accept_loop.simps) (auto simp: Let_def)
      then show ?thesis
        using us sc e5 n2(2) False leave [of ?u ?s5 "[fd]"] leave [of ?u ?s4 "[fd]"] again [of ?u ?s4 "[fd]" st3]
        by (auto split: if_split_asm)
    qed
  qed
qed

lemma accept_loop_effect:
  assumes "accept_loop rnd once server_fd path st s = Some (r, s')"
  shows "\<exists>used fds tr. script s = used @ script s' \<and> (once \<or> stop_or_error used) \<and>
     trace s' = trace s @ tr \<and> opens tr = fds \<and> closes tr = fds @ [server_fd] \<and>
     set (handler_closes tr) \<subseteq> {server_fd_for_signal st} \<and> Act_unlink path \<in> set tr"
  using assms
proof (induction "length (script s)" arbitrary: s st rule: less_induct)
  case less
  from less.prems show ?case
  proof (cases rule: accept_unfold)
    case (leave used fds s1)
    then show ?thesis using shut_down_effect [OF leave(3)] unfolding loop_effect_def by fastforce
  next
    case (again used fds s1 st')
    then have "length (script s1) < length (script s)" by simp
    then obtain used' fds' tr where "script s1 = used' @ script s'" "once \<or> stop_or_error used'"
        "trace s' = trace s1 @ tr" "opens tr = fds'" "closes tr = fds' @ [server_fd]"
        "set (handler_closes tr) \<subseteq> {server_fd_for_signal st'}" "Act_unlink path \<in> set tr"
      using less.hyps again(5) by blast
    moreover obtain tr0 where "trace s1 = trace s @ tr0" "opens tr0 = fds" "closes tr0 = fds"
        "set (handler_closes tr0) \<subseteq> {server_fd_for_signal st}"
      using again(3) by (auto simp: loop_effect_def)
    ultimately show ?thesis
      using again by (intro exI [of _ "used @ used'"] exI [of _ "fds @ fds'"] exI [of _ "tr0 @ tr"]) auto
  qed
qed

text \<open>
  C36: a running daemon never leaks a descriptor and always removes its socket: whenever the
  accept loop returns, every client it accepted has been closed, in order, then the listener, and
  the socket path has been unlinked; the only descriptor the signal handler has closed is the one registered for it.
  Without \<^verbatim>\<open>--once\<close> the loop returns only after a stop request or a
  failing system call other than an interruption; a failed client request is not a reason.
\<close>

theorem accept_loop_clean_exit:
  assumes "accept_loop rnd once server_fd path st s = Some (r, s')"
  shows "\<exists>used fds tr. script s = used @ script s' \<and>
     (\<not> once \<longrightarrow> Ev_stop True \<in> set used \<or> (\<exists>e. e \<noteq> EINTR \<and> Ev_call (Inl e) \<in> set used)) \<and>
     opens (trace s') = opens (trace s) @ fds \<and> closes (trace s') = closes (trace s) @ fds @ [server_fd] \<and>
     trace s' = trace s @ tr \<and> set (handler_closes tr) \<subseteq> {server_fd_for_signal st} \<and> Act_unlink path \<in> set tr"
proof -
  obtain used fds tr where "script s = used @ script s'" "once \<or> stop_or_error used" "trace s' = trace s @ tr"
      "opens tr = fds" "closes tr = fds @ [server_fd]" "set (handler_closes tr) \<subseteq> {server_fd_for_signal st}"
      "Act_unlink path \<in> set tr"
    using accept_loop_effect [OF assms] by blast
  then show ?thesis
    by (intro exI [of _ used] exI [of _ fds] exI [of _ tr]) (auto simp: stop_or_error_def)
qed

theorem accept_loop_clean_exit_witness:
  "\<exists>fds. opens [Act_handler_close 3, Act_close 3, Act_unlink ''/s'', Act_shutdown] = fds \<and>
     closes [Act_handler_close 3, Act_close 3, Act_unlink ''/s'', Act_shutdown] = fds @ [3]"
proof -
  have "accept_loop rnd_double False 3 ''/s'' \<lparr>stop_requested = False, server_fd_for_signal = 3\<rparr>
      \<lparr>script = [Ev_call (Inl EINTR), Ev_signals 0, Ev_stop False, Ev_call (Inl EBADF), Ev_signals 1, Ev_stop True,
         Ev_call (Inl EBADF), Ev_call (Inr 0)], trace = []\<rparr> =
    Some (0, \<lparr>script = [], trace = [Act_handler_close 3, Act_close 3, Act_unlink ''/s'', Act_shutdown]\<rparr>)"
    by (simp add: accept_loop.simps deliver_def read_stop_def handle_stop_signal_def shut_down_def sys_defs close_fd_def
        EXIT_SUCCESS_def errno_defs)
  from accept_loop_clean_exit [OF this] show ?thesis by auto
qed

text \<open>Start-up opens and closes nothing before it has the listening socket.\<close>

definition no_fds :: "os \<Rightarrow> os \<Rightarrow> bool" where
  "no_fds s s' \<longleftrightarrow> (\<exists>tr. trace s' = trace s @ tr \<and> opens tr = [] \<and> closes tr = [] \<and> handler_closes tr = [])"

lemma all_succeed_trace: "all_succeed n s = Some (b, s') \<Longrightarrow> trace s' = trace s"
proof (induction n arbitrary: s)
  case (Suc n)
  then show ?case by (auto elim!: bindE split: sum.split_asm dest!: sys_call_used)
qed simp

lemma install_no_fds: "install_signal_handlers s = Some (r, s') \<Longrightarrow> no_fds s s'"
  by (auto simp: install_signal_handlers_def no_fds_def elim!: bindE dest!: all_succeed_trace)

lemma sys_lstat_trace: "sys_lstat s = Some (r, s') \<Longrightarrow> trace s' = trace s"
  by (auto simp: sys_lstat_def split: list.splits os_event.splits)

lemma prepare_no_fds: "prepare_socket_path path s = Some (r, s') \<Longrightarrow> no_fds s s'"
  by (auto simp: prepare_socket_path_def no_fds_def act_def split: sum.split_asm if_split_asm
      elim!: bindE dest!: sys_call_used sys_lstat_trace)

lemma give_up_fds:
  "give_up fd path s = Some (r, s') \<Longrightarrow> trace s' = trace s @ [Act_close fd, Act_unlink path]"
  by (auto simp: give_up_def act_def)

text \<open>Before the listener is registered a signal only sets the flag.\<close>

lemma deliver_early:
  "deliver \<lparr>stop_requested = b, server_fd_for_signal = - 1\<rparr> s = Some (st, s') \<Longrightarrow> trace s' = trace s"
  by (auto dest!: deliver_effect)

lemma accept_loop_fds:
  assumes "accept_loop rnd once fd path (st\<lparr>server_fd_for_signal := fd\<rparr>) s = Some (r, s')"
  shows "\<exists>tr fds. trace s' = trace s @ tr \<and> opens tr = fds \<and> closes tr = fds @ [fd] \<and> (\<forall>f \<in> set (handler_closes tr). f = fd)"
  using accept_loop_effect [OF assms] by fastforce

text \<open>
  C37: on every path through \<^verbatim>\<open>main\<close> of the daemon, bad arguments, failing start-up calls, a stop signal and
  regular shutdown alike, \<^verbatim>\<open>main\<close> closes every descriptor exactly as often as it was opened.  The only other calls of
  \<^verbatim>\<open>close\<close> are those of the signal handler, and they are on the listening socket, the first descriptor that
  was opened (so that one is closed again by \<^verbatim>\<open>main\<close>, which tolerates that it is closed already).
\<close>

theorem qcpud_main_closes_all:
  assumes "qcpud_main rnd argv s = Some (r, s')"
  shows "\<exists>tr. trace s' = trace s @ tr \<and> (\<forall>fd. count_list (opens tr) fd = count_list (closes tr) fd) \<and>
     (\<forall>fd \<in> set (handler_closes tr). opens tr \<noteq> [] \<and> fd = hd (opens tr))"
  using assms
  by (auto simp: qcpud_main_def act_def no_fds_def Let_def
      split: if_split_asm sum.split_asm elim!: bindE
      dest!: install_no_fds prepare_no_fds sys_call_used give_up_fds deliver_early accept_loop_fds)

lemma all_succeed_5:
  "all_succeed 5 \<lparr>script = Ev_call (Inr 0) # Ev_call (Inr 0) # Ev_call (Inr 0) # Ev_call (Inr 0) # Ev_call (Inr 0) # es,
     trace = tr\<rparr> = Some (True, \<lparr>script = es, trace = tr\<rparr>)"
  by (simp add: numeral_eq_Suc sys_call_def)

theorem qcpud_main_closes_all_witness:
  "\<exists>tr. [Act_umask 63, Act_open 3, Act_bind ''/s'', Act_chmod ''/s'' 384, Act_ready ''/s'', Act_handler_close 3,
       Act_close 3, Act_unlink ''/s'', Act_shutdown] = tr \<and>
     (\<forall>fd. count_list (opens tr) fd = count_list (closes tr) fd) \<and>
     (\<forall>fd \<in> set (handler_closes tr). opens tr \<noteq> [] \<and> fd = hd (opens tr))"
proof -
  have "qcpud_main rnd_double [''qcpud'', ''--socket'', ''/s'']
      \<lparr>script = [Ev_call (Inr 0), Ev_call (Inr 0), Ev_call (Inr 0), Ev_call (Inr 0), Ev_call (Inr 0),
         Ev_lstat (Inl ENOENT), Ev_call (Inr 3), Ev_call (Inr 0), Ev_call (Inr 0), Ev_call (Inr 0), Ev_signals 0,
         Ev_call (Inl EBADF), Ev_signals 1, Ev_stop True, Ev_call (Inl EBADF), Ev_call (Inr 0)], trace = []\<rparr> =
    Some (0, \<lparr>script = [], trace = [Act_umask 63, Act_open 3, Act_bind ''/s'', Act_chmod ''/s'' 384, Act_ready ''/s'',
      Act_handler_close 3, Act_close 3, Act_unlink ''/s'', Act_shutdown]\<rparr>)"
    using all_succeed_5 by (simp add: qcpud_main_def install_signal_handlers_def prepare_socket_path_def accept_loop.simps deliver_def
        read_stop_def handle_stop_signal_def shut_down_def sys_defs close_fd_def EXIT_SUCCESS_def EXIT_FAILURE_def
        errno_defs Let_def)
  from qcpud_main_closes_all [OF this] show ?thesis by auto
qed

end
