(* ===== verification/Uapi.thy ===== *)
theory Uapi
  imports Posix
begin

text \<open>
  The v4.7 device interface, \<^verbatim>\<open>src/include/uapi/qcpu_device_uapi.h\<close>: its constants and its
  fixed-width structs, as records.  \<^verbatim>\<open>char\<close> arrays are lists of their full length.
\<close>

definition QCPU_UAPI_ABI_VERSION :: u32 where "QCPU_UAPI_ABI_VERSION = 1"
definition QCPU_UAPI_PROTOCOL_VERSION :: u32 where "QCPU_UAPI_PROTOCOL_VERSION = 1"
definition QCPU_UAPI_REQUEST_MAGIC :: u32 where "QCPU_UAPI_REQUEST_MAGIC = 0x51445631"
definition QCPU_UAPI_RESPONSE_MAGIC :: u32 where "QCPU_UAPI_RESPONSE_MAGIC = 0x51525631"
definition QCPU_UAPI_MAX_QUBITS :: u32 where "QCPU_UAPI_MAX_QUBITS = 20"
definition QCPU_UAPI_MAX_SHOTS :: u32 where "QCPU_UAPI_MAX_SHOTS = 100"
definition QCPU_UAPI_MAX_INFLIGHT :: u32 where "QCPU_UAPI_MAX_INFLIGHT = 1"
definition QCPU_UAPI_BACKEND_NAME_BYTES :: nat where "QCPU_UAPI_BACKEND_NAME_BYTES = 32"
definition QCPU_UAPI_DRIVER_VERSION_BYTES :: nat where "QCPU_UAPI_DRIVER_VERSION_BYTES = 16"

definition QCPU_UAPI_COMMAND_STATUS :: u16 where "QCPU_UAPI_COMMAND_STATUS = 1"
definition QCPU_UAPI_COMMAND_RUN_GHZ :: u16 where "QCPU_UAPI_COMMAND_RUN_GHZ = 2"

definition QCPU_UAPI_STATUS_OK :: u32 where "QCPU_UAPI_STATUS_OK = 0"
definition QCPU_UAPI_STATUS_BAD_MAGIC :: u32 where "QCPU_UAPI_STATUS_BAD_MAGIC = 1"
definition QCPU_UAPI_STATUS_BAD_VERSION :: u32 where "QCPU_UAPI_STATUS_BAD_VERSION = 2"
definition QCPU_UAPI_STATUS_BAD_COMMAND :: u32 where "QCPU_UAPI_STATUS_BAD_COMMAND = 3"
definition QCPU_UAPI_STATUS_RANGE :: u32 where "QCPU_UAPI_STATUS_RANGE = 4"
definition QCPU_UAPI_STATUS_KERNEL :: u32 where "QCPU_UAPI_STATUS_KERNEL = 5"
definition QCPU_UAPI_STATUS_IO :: u32 where "QCPU_UAPI_STATUS_IO = 6"
definition QCPU_UAPI_STATUS_BACKEND_ABSENT :: u32 where "QCPU_UAPI_STATUS_BACKEND_ABSENT = 7"
definition QCPU_UAPI_STATUS_BUSY :: u32 where "QCPU_UAPI_STATUS_BUSY = 8"
definition QCPU_UAPI_STATUS_TIMEOUT :: u32 where "QCPU_UAPI_STATUS_TIMEOUT = 9"
definition QCPU_UAPI_STATUS_CANCELED :: u32 where "QCPU_UAPI_STATUS_CANCELED = 10"

definition QCPU_UAPI_FLAG_SOFTWARE_VIRTUAL_QCPU :: u32 where
  "QCPU_UAPI_FLAG_SOFTWARE_VIRTUAL_QCPU = push_bit 0 1"
definition QCPU_UAPI_FLAG_CLASSICAL_HOST :: u32 where
  "QCPU_UAPI_FLAG_CLASSICAL_HOST = push_bit 1 1"
definition QCPU_UAPI_FLAG_PHYSICAL_QPU_ABSENT :: u32 where
  "QCPU_UAPI_FLAG_PHYSICAL_QPU_ABSENT = push_bit 2 1"
definition QCPU_UAPI_FLAG_Q0_MOST_SIGNIFICANT :: u32 where
  "QCPU_UAPI_FLAG_Q0_MOST_SIGNIFICANT = push_bit 3 1"

definition QCPU_UAPI_DEVICE_OFFLINE :: u32 where "QCPU_UAPI_DEVICE_OFFLINE = 0"
definition QCPU_UAPI_DEVICE_IDLE :: u32 where "QCPU_UAPI_DEVICE_IDLE = 1"
definition QCPU_UAPI_DEVICE_BUSY :: u32 where "QCPU_UAPI_DEVICE_BUSY = 2"
definition QCPU_UAPI_DEVICE_ERROR :: u32 where "QCPU_UAPI_DEVICE_ERROR = 3"

lemmas uapi_status_defs =
  QCPU_UAPI_STATUS_OK_def QCPU_UAPI_STATUS_BAD_MAGIC_def QCPU_UAPI_STATUS_BAD_VERSION_def
  QCPU_UAPI_STATUS_BAD_COMMAND_def QCPU_UAPI_STATUS_RANGE_def QCPU_UAPI_STATUS_KERNEL_def
  QCPU_UAPI_STATUS_IO_def QCPU_UAPI_STATUS_BACKEND_ABSENT_def QCPU_UAPI_STATUS_BUSY_def
  QCPU_UAPI_STATUS_TIMEOUT_def QCPU_UAPI_STATUS_CANCELED_def

lemmas uapi_device_defs =
  QCPU_UAPI_DEVICE_OFFLINE_def QCPU_UAPI_DEVICE_IDLE_def QCPU_UAPI_DEVICE_BUSY_def
  QCPU_UAPI_DEVICE_ERROR_def

lemmas uapi_consts =
  QCPU_UAPI_ABI_VERSION_def QCPU_UAPI_PROTOCOL_VERSION_def QCPU_UAPI_REQUEST_MAGIC_def
  QCPU_UAPI_RESPONSE_MAGIC_def QCPU_UAPI_MAX_QUBITS_def QCPU_UAPI_MAX_SHOTS_def
  QCPU_UAPI_MAX_INFLIGHT_def QCPU_UAPI_COMMAND_STATUS_def QCPU_UAPI_COMMAND_RUN_GHZ_def

lemmas uapi_flag_defs =
  QCPU_UAPI_FLAG_SOFTWARE_VIRTUAL_QCPU_def QCPU_UAPI_FLAG_CLASSICAL_HOST_def
  QCPU_UAPI_FLAG_PHYSICAL_QPU_ABSENT_def QCPU_UAPI_FLAG_Q0_MOST_SIGNIFICANT_def

record qcpu_uapi_request_v1 =
  uq_magic :: u32
  uq_version :: u16
  uq_command :: u16
  uq_qubits :: u32
  uq_shots :: u32
  uq_seed :: u64

record qcpu_uapi_response_v1 =
  ur_magic :: u32
  ur_version :: u16
  ur_status :: u16
  ur_flags :: u32
  ur_qubits :: u32
  ur_basis_states :: u64
  ur_shots :: u64
  ur_measured_state :: u64
  ur_invalid_results :: u64
  ur_norm_q32_32 :: u64

record qcpu_uapi_caps_v1 =
  uc_abi_version :: u32
  uc_protocol_version :: u32
  uc_max_qubits :: u32
  uc_max_shots :: u32
  uc_max_inflight :: u32
  uc_flags :: u32
  uc_backend :: string
  uc_driver_version :: string
  uc_reserved :: string

record qcpu_uapi_status_v1 =
  us_device_state :: u32
  us_active_client_sessions :: u32
  us_last_errno :: int
  us_last_protocol_status :: u32
  us_completed_requests :: u64
  us_failed_requests :: u64

record qcpu_uapi_exchange_v1 =
  ux_request :: qcpu_uapi_request_v1
  ux_timeout_ns :: u64
  ux_response :: qcpu_uapi_response_v1

definition zero_uapi_response :: qcpu_uapi_response_v1 where
  "zero_uapi_response = \<lparr> ur_magic = 0, ur_version = 0, ur_status = 0, ur_flags = 0, ur_qubits = 0,
     ur_basis_states = 0, ur_shots = 0, ur_measured_state = 0, ur_invalid_results = 0,
     ur_norm_q32_32 = 0 \<rparr>"

end
