(* ===== verification/Frontend.thy ===== *)
theory Frontend
  imports Uapi Binary64
begin

text \<open>
  The userspace device frontend, \<^verbatim>\<open>src/src/device/qcpu_mock_frontend.c\<close>: its state and every
  section of code that runs with the mutex held, as functions on that state.  \<open>Frontend_Machine\<close>
  puts the sections together into the interleavings of callers, workers and closers.

  A call returns \<open>Inl errno\<close> where the C function sets \<^verbatim>\<open>errno\<close> and returns -1.  A function pointer
  of a backend is a number naming it, or \<open>None\<close> for \<^verbatim>\<open>NULL\<close>; the frontend only stores, compares and
  calls it.
\<close>

section \<open>State\<close>

definition QCPU_MOCK_DEFAULT_TIMEOUT_NS :: u64 where "QCPU_MOCK_DEFAULT_TIMEOUT_NS = 1000000000"
definition QCPU_MOCK_MAX_TIMEOUT_NS :: u64 where "QCPU_MOCK_MAX_TIMEOUT_NS = 5000000000"
definition QCPU_MOCK_CANCEL_GRACE_NS :: u64 where "QCPU_MOCK_CANCEL_GRACE_NS = 100000000"
definition PATH_MAX :: nat where "PATH_MAX = 4096"
definition QCPU_MOCK_LOCK_FILE :: string where "QCPU_MOCK_LOCK_FILE = ''qcpu_mock.lock''"
definition QCPU_MOCK_BACKEND_DEFAULT :: string where "QCPU_MOCK_BACKEND_DEFAULT = ''stage2-mock''"
definition QCPU_MOCK_VERSION_DEFAULT :: string where "QCPU_MOCK_VERSION_DEFAULT = ''v4.7-stage2a''"

definition QCPU_MOCK_REQUIRED_FLAGS :: u32 where
  "QCPU_MOCK_REQUIRED_FLAGS =
     QCPU_UAPI_FLAG_SOFTWARE_VIRTUAL_QCPU OR QCPU_UAPI_FLAG_CLASSICAL_HOST OR
     QCPU_UAPI_FLAG_PHYSICAL_QPU_ABSENT OR QCPU_UAPI_FLAG_Q0_MOST_SIGNIFICANT"

record qcpu_backend_ops =
  op_exchange :: "nat option"
  op_cancel :: "nat option"

record qcpu_exchange_task =
  t_references :: nat
  t_backend_ops :: qcpu_backend_ops
  t_backend_context :: "nat option"
  t_request :: qcpu_uapi_request_v1
  t_response :: qcpu_uapi_response_v1
  t_absolute_deadline_ns :: u64
  t_backend_result :: int
  t_done :: bool
  t_caller_abandoned :: bool

text \<open>Tasks are heap objects: \<^verbatim>\<open>active_task\<close> is the address of one.\<close>

record qcpu_mock =
  m_runtime_dir :: string
  m_lock_path :: string
  m_backend_name :: string
  m_driver_version :: string
  m_backend_ops :: qcpu_backend_ops
  m_backend_context :: "nat option"
  m_backend_attached :: bool
  m_session_open :: bool
  m_busy :: bool
  m_cancel_requested :: bool
  m_cancel_sent :: bool
  m_lock_fd :: int
  m_active_task :: "nat option"
  m_device_state :: u32
  m_last_errno :: int
  m_last_protocol_status :: u32
  m_completed_requests :: u64
  m_failed_requests :: u64

section \<open>Text and time\<close>

definition cstring :: "string \<Rightarrow> string" where
  "cstring buf = takeWhile (\<lambda>c. c \<noteq> CHR 0x00) buf"

definition qcpu_copy_text :: "nat \<Rightarrow> string option \<Rightarrow> string" where
  "qcpu_copy_text bytes source =
     (if bytes = 0 then []
      else case source of
             None \<Rightarrow> replicate bytes (CHR 0x00)
           | Some src \<Rightarrow> take (bytes - 1) src @ replicate (bytes - length (take (bytes - 1) src)) (CHR 0x00))"

definition qcpu_timespec_to_ns :: "u64 \<times> u64 \<Rightarrow> u64" where
  "qcpu_timespec_to_ns t = fst t * 1000000000 + snd t"

definition qcpu_ns_to_timespec :: "u64 \<Rightarrow> u64 \<times> u64" where
  "qcpu_ns_to_timespec v = (v div 1000000000, v mod 1000000000)"

section \<open>Responses and results\<close>

definition qcpu_set_failure_response :: "u32 \<Rightarrow> qcpu_uapi_exchange_v1 option \<Rightarrow> qcpu_uapi_exchange_v1 option" where
  "qcpu_set_failure_response protocol_status exchange =
     map_option (\<lambda>x. x\<lparr>ux_response := zero_uapi_response
       \<lparr>ur_magic := QCPU_UAPI_RESPONSE_MAGIC, ur_version := ucast QCPU_UAPI_PROTOCOL_VERSION,
        ur_status := ucast protocol_status, ur_flags := QCPU_MOCK_REQUIRED_FLAGS,
        ur_qubits := uq_qubits (ux_request x), ur_shots := ucast (uq_shots (ux_request x))\<rparr>\<rparr>) exchange"

definition qcpu_record_result_locked :: "int \<Rightarrow> u32 \<Rightarrow> qcpu_mock \<Rightarrow> qcpu_mock" where
  "qcpu_record_result_locked error_number protocol_status m =
     m\<lparr>m_last_errno := error_number, m_last_protocol_status := protocol_status\<rparr>"

definition qcpu_status_to_errno :: "u32 \<Rightarrow> int" where
  "qcpu_status_to_errno status =
     (if status = QCPU_UAPI_STATUS_OK then 0
      else if status = QCPU_UAPI_STATUS_BAD_MAGIC then EPROTO
      else if status = QCPU_UAPI_STATUS_BAD_VERSION then EPROTONOSUPPORT
      else if status = QCPU_UAPI_STATUS_BAD_COMMAND then EOPNOTSUPP
      else if status = QCPU_UAPI_STATUS_RANGE then ERANGE
      else if status = QCPU_UAPI_STATUS_KERNEL \<or> status = QCPU_UAPI_STATUS_IO then EIO
      else if status = QCPU_UAPI_STATUS_BACKEND_ABSENT then ENODEV
      else if status = QCPU_UAPI_STATUS_BUSY then EBUSY
      else if status = QCPU_UAPI_STATUS_TIMEOUT then ETIMEDOUT
      else if status = QCPU_UAPI_STATUS_CANCELED then ECANCELED
      else EIO)"

definition qcpu_status_known :: "u32 \<Rightarrow> bool" where
  "qcpu_status_known status \<longleftrightarrow> status \<le> QCPU_UAPI_STATUS_CANCELED"

section \<open>Runtime directory\<close>

text \<open>
  \<open>realpath\<close> and \<open>stat\<close> are what the calls of those names return: an error number, or the
  canonical path, or (is a directory, owned by the effective user, mode bits).
\<close>

definition qcpu_validate_runtime_directory ::
  "string option \<Rightarrow> nat \<Rightarrow> int + string \<Rightarrow> int + (bool \<times> bool \<times> nat) \<Rightarrow> int + string" where
  "qcpu_validate_runtime_directory runtime_dir resolved_size realpath stat =
     (if runtime_dir = None \<or> runtime_dir = Some [] then Inl EINVAL
      else case realpath of
             Inl e \<Rightarrow> Inl e
           | Inr canonical \<Rightarrow>
               if length canonical \<ge> resolved_size then Inl ENAMETOOLONG
               else case stat of
                      Inl e \<Rightarrow> Inl e
                    | Inr (is_dir, own, mode) \<Rightarrow>
                        if \<not> is_dir then Inl ENOTDIR
                        else if \<not> own then Inl EPERM
                        else if mode AND 63 \<noteq> 0 then Inl EPERM
                        else Inr (qcpu_copy_text resolved_size (Some canonical)))"

definition qcpu_build_lock_path :: "qcpu_mock \<Rightarrow> int + qcpu_mock" where
  "qcpu_build_lock_path m =
     (let path = cstring (m_runtime_dir m) @ ''/'' @ QCPU_MOCK_LOCK_FILE
      in if length path \<ge> PATH_MAX then Inl ENAMETOOLONG
         else Inr (m\<lparr>m_lock_path := qcpu_copy_text PATH_MAX (Some path)\<rparr>))"

section \<open>Sections under the mutex\<close>

definition qcpu_request_cancel_locked :: "qcpu_mock \<Rightarrow> bool \<times> qcpu_mock" where
  "qcpu_request_cancel_locked m =
     (if \<not> m_busy m \<or> m_cancel_sent m then (False, m)
      else (op_cancel (m_backend_ops m) \<noteq> None, m\<lparr>m_cancel_requested := True, m_cancel_sent := True\<rparr>))"

definition qcpu_finalize_exchange_locked :: "bool \<Rightarrow> bool \<Rightarrow> int \<Rightarrow> u32 \<Rightarrow> qcpu_mock \<Rightarrow> qcpu_mock" where
  "qcpu_finalize_exchange_locked offline success error_number protocol_status m =
     (let m = (if success then m\<lparr>m_completed_requests := m_completed_requests m + 1\<rparr>
               else m\<lparr>m_failed_requests := m_failed_requests m + 1\<rparr>);
          m = qcpu_record_result_locked error_number protocol_status m;
          m = m\<lparr>m_busy := False, m_cancel_requested := False, m_cancel_sent := False\<rparr>
      in if offline \<or> \<not> m_backend_attached m
         then m\<lparr>m_device_state := QCPU_UAPI_DEVICE_OFFLINE\<rparr>
         else m\<lparr>m_device_state := QCPU_UAPI_DEVICE_IDLE\<rparr>)"

text \<open>
  The worker's section, after the backend returned \<open>result\<close> and filled in \<open>response\<close>; \<open>task\<close> is the
  address of \<open>t\<close>.
\<close>

definition qcpu_exchange_worker ::
  "nat \<Rightarrow> int \<Rightarrow> qcpu_uapi_response_v1 \<Rightarrow> qcpu_mock \<Rightarrow> qcpu_exchange_task \<Rightarrow>
     qcpu_mock \<times> qcpu_exchange_task" where
  "qcpu_exchange_worker task result response m t =
     (let t = t\<lparr>t_response := response, t_backend_result := result, t_done := True\<rparr>
      in if t_caller_abandoned t \<and> m_active_task m = Some task
         then (m\<lparr>m_active_task := None, m_busy := False, m_cancel_requested := False,
                 m_cancel_sent := False,
                 m_device_state := (if \<not> m_backend_attached m \<or> result = - ENODEV
                                    then QCPU_UAPI_DEVICE_OFFLINE else QCPU_UAPI_DEVICE_IDLE)\<rparr>, t)
         else (m, t))"

text \<open>
  Validation of a backend response: \<open>Inr ()\<close>, or the error number, protocol status and offline flag
  of the failure.  \<^verbatim>\<open>UINT64_C(1) << qubits\<close> is reached with at most 20 qubits.
\<close>

definition qcpu_validate_backend_response ::
  "qcpu_uapi_request_v1 \<Rightarrow> qcpu_uapi_response_v1 \<Rightarrow> (int \<times> u32 \<times> bool) + unit" where
  "qcpu_validate_backend_response request response =
     (if ur_magic response \<noteq> QCPU_UAPI_RESPONSE_MAGIC then Inl (EIO, QCPU_UAPI_STATUS_IO, False)
      else if ucast (ur_version response) \<noteq> QCPU_UAPI_PROTOCOL_VERSION
      then Inl (EIO, QCPU_UAPI_STATUS_IO, False)
      else if \<not> qcpu_status_known (ucast (ur_status response))
      then Inl (EIO, QCPU_UAPI_STATUS_IO, False)
      else if ucast (ur_status response) \<noteq> QCPU_UAPI_STATUS_OK
      then Inl (qcpu_status_to_errno (ucast (ur_status response)), ucast (ur_status response),
                ucast (ur_status response) = QCPU_UAPI_STATUS_BACKEND_ABSENT)
      else if ur_flags response AND QCPU_MOCK_REQUIRED_FLAGS \<noteq> QCPU_MOCK_REQUIRED_FLAGS
      then Inl (EIO, QCPU_UAPI_STATUS_IO, False)
      else if ur_qubits response \<noteq> uq_qubits request \<or> ur_shots response \<noteq> ucast (uq_shots request)
      then Inl (EIO, QCPU_UAPI_STATUS_IO, False)
      else if ur_norm_q32_32 response > push_bit 32 1
      then Inl (EIO, QCPU_UAPI_STATUS_KERNEL, False)
      else if uq_command request = QCPU_UAPI_COMMAND_RUN_GHZ then
        (if ur_basis_states response \<noteq> push_bit (unat (uq_qubits request)) 1
         then Inl (EIO, QCPU_UAPI_STATUS_KERNEL, False)
         else let all_one_state = push_bit (unat (uq_qubits request)) 1 - 1 in
         if ur_measured_state response \<noteq> 0 \<and> ur_measured_state response \<noteq> all_one_state
         then Inl (EIO, QCPU_UAPI_STATUS_KERNEL, False)
         else if ur_invalid_results response \<noteq> 0
         then Inl (EIO, QCPU_UAPI_STATUS_KERNEL, False)
         else Inr ())
      else Inr ())"

text \<open>The checks of a request that do not depend on the frontend's state, in their order.\<close>

definition check_request :: "qcpu_uapi_request_v1 \<Rightarrow> (int \<times> u32) option" where
  "check_request request =
     (if uq_magic request \<noteq> QCPU_UAPI_REQUEST_MAGIC then Some (EPROTO, QCPU_UAPI_STATUS_BAD_MAGIC)
      else if ucast (uq_version request) \<noteq> QCPU_UAPI_PROTOCOL_VERSION
      then Some (EPROTONOSUPPORT, QCPU_UAPI_STATUS_BAD_VERSION)
      else if uq_command request \<noteq> QCPU_UAPI_COMMAND_STATUS \<and>
              uq_command request \<noteq> QCPU_UAPI_COMMAND_RUN_GHZ
      then Some (EOPNOTSUPP, QCPU_UAPI_STATUS_BAD_COMMAND)
      else if uq_command request = QCPU_UAPI_COMMAND_STATUS then
        (if uq_qubits request \<noteq> 0 \<or> uq_shots request \<noteq> 0
         then Some (ERANGE, QCPU_UAPI_STATUS_RANGE) else None)
      else
        (if uq_qubits request = 0 \<or> uq_qubits request > QCPU_UAPI_MAX_QUBITS \<or>
            uq_shots request = 0 \<or> uq_shots request > QCPU_UAPI_MAX_SHOTS
         then Some (ERANGE, QCPU_UAPI_STATUS_RANGE) else None))"

text \<open>The absolute deadline for a timeout, given the result of \<^verbatim>\<open>clock_gettime\<close>.\<close>

definition exchange_deadline :: "u64 \<Rightarrow> (u64 \<times> u64) option \<Rightarrow> (int \<times> u32) + u64" where
  "exchange_deadline timeout clock =
     (let timeout_ns = (if timeout = 0 then QCPU_MOCK_DEFAULT_TIMEOUT_NS else timeout)
      in if timeout_ns > QCPU_MOCK_MAX_TIMEOUT_NS then Inl (ERANGE, QCPU_UAPI_STATUS_RANGE)
         else case clock of
                None \<Rightarrow> Inl (EIO, QCPU_UAPI_STATUS_IO)
              | Some now \<Rightarrow>
                  if - 1 - qcpu_timespec_to_ns now < timeout_ns
                  then Inl (ERANGE, QCPU_UAPI_STATUS_RANGE)
                  else Inr (qcpu_timespec_to_ns now + timeout_ns))"

definition prevalidate_reject ::
  "int \<times> u32 \<Rightarrow> qcpu_mock \<Rightarrow> qcpu_uapi_exchange_v1 option \<Rightarrow>
     (int + u64) \<times> qcpu_mock \<times> qcpu_uapi_exchange_v1 option" where
  "prevalidate_reject failure m exchange =
     (Inl (fst failure), qcpu_record_result_locked (fst failure) (snd failure) m,
      qcpu_set_failure_response (snd failure) exchange)"

definition qcpu_prevalidate_exchange_locked ::
  "(u64 \<times> u64) option \<Rightarrow> qcpu_mock \<Rightarrow> qcpu_uapi_exchange_v1 option \<Rightarrow>
     (int + u64) \<times> qcpu_mock \<times> qcpu_uapi_exchange_v1 option" where
  "qcpu_prevalidate_exchange_locked clock m exchange =
     (if \<not> m_session_open m then prevalidate_reject (EBUSY, QCPU_UAPI_STATUS_BUSY) m exchange
      else case exchange of
             None \<Rightarrow> (Inl EINVAL, qcpu_record_result_locked EINVAL QCPU_UAPI_STATUS_RANGE m, None)
           | Some x0 \<Rightarrow>
               let x = Some (x0\<lparr>ux_response := zero_uapi_response\<rparr>) in
               (case check_request (ux_request x0) of
                  Some failure \<Rightarrow> prevalidate_reject failure m x
                | None \<Rightarrow>
                    (case exchange_deadline (ux_timeout_ns x0) clock of
                       Inl failure \<Rightarrow> prevalidate_reject failure m x
                     | Inr absolute_deadline_ns \<Rightarrow>
                         if m_busy m then prevalidate_reject (EBUSY, QCPU_UAPI_STATUS_BUSY) m x
                         else if \<not> m_backend_attached m \<or> op_exchange (m_backend_ops m) = None
                         then prevalidate_reject (ENODEV, QCPU_UAPI_STATUS_BACKEND_ABSENT)
                                (m\<lparr>m_device_state := QCPU_UAPI_DEVICE_OFFLINE\<rparr>) x
                         else (Inr absolute_deadline_ns, m, x))))"

section \<open>Creation, backends and sessions\<close>

record qcpu_mock_config =
  cfg_runtime_dir :: "string option"
  cfg_backend_name :: "string option"
  cfg_driver_version :: "string option"
  cfg_backend_ops :: "qcpu_backend_ops option"
  cfg_backend_context :: "nat option"

definition zero_mock :: qcpu_mock where
  "zero_mock = \<lparr> m_runtime_dir = replicate PATH_MAX (CHR 0x00), m_lock_path = replicate PATH_MAX (CHR 0x00),
     m_backend_name = replicate QCPU_UAPI_BACKEND_NAME_BYTES (CHR 0x00),
     m_driver_version = replicate QCPU_UAPI_DRIVER_VERSION_BYTES (CHR 0x00),
     m_backend_ops = \<lparr>op_exchange = None, op_cancel = None\<rparr>, m_backend_context = None,
     m_backend_attached = False, m_session_open = False, m_busy = False, m_cancel_requested = False,
     m_cancel_sent = False, m_lock_fd = 0, m_active_task = None, m_device_state = 0, m_last_errno = 0,
     m_last_protocol_status = 0, m_completed_requests = 0, m_failed_requests = 0 \<rparr>"

text \<open>What the calls of \<^verbatim>\<open>qcpu_mock_create\<close> return; 0 is success for the \<^verbatim>\<open>pthread\<close> calls.\<close>

record create_env =
  ce_calloc :: bool
  ce_realpath :: "int + string"
  ce_stat :: "int + (bool \<times> bool \<times> nat)"
  ce_mutex_init :: int
  ce_condattr_init :: int
  ce_setclock :: int
  ce_cond_init :: int

definition create_backend :: "qcpu_mock_config \<Rightarrow> qcpu_mock \<Rightarrow> int + qcpu_mock" where
  "create_backend config m =
     (let m = m\<lparr>m_backend_name := qcpu_copy_text QCPU_UAPI_BACKEND_NAME_BYTES
                  (Some (case cfg_backend_name config of Some n \<Rightarrow> n | None \<Rightarrow> QCPU_MOCK_BACKEND_DEFAULT)),
                m_driver_version := qcpu_copy_text QCPU_UAPI_DRIVER_VERSION_BYTES
                  (Some (case cfg_driver_version config of Some n \<Rightarrow> n | None \<Rightarrow> QCPU_MOCK_VERSION_DEFAULT))\<rparr>
      in case cfg_backend_ops config of
           Some ops \<Rightarrow>
             if op_exchange ops = None then Inl EINVAL
             else Inr (m\<lparr>m_backend_ops := ops, m_backend_context := cfg_backend_context config,
                         m_backend_attached := True, m_device_state := QCPU_UAPI_DEVICE_IDLE,
                         m_last_protocol_status := QCPU_UAPI_STATUS_OK\<rparr>)
         | None \<Rightarrow>
             Inr (m\<lparr>m_backend_ops := \<lparr>op_exchange = None, op_cancel = None\<rparr>, m_backend_context := None,
                    m_backend_attached := False, m_device_state := QCPU_UAPI_DEVICE_OFFLINE,
                    m_last_protocol_status := QCPU_UAPI_STATUS_OK\<rparr>))"

definition qcpu_mock_create ::
  "create_env \<Rightarrow> bool \<Rightarrow> qcpu_mock_config option \<Rightarrow> int + qcpu_mock" where
  "qcpu_mock_create env out config =
     (case config of
        None \<Rightarrow> Inl EINVAL
      | Some c \<Rightarrow>
          if \<not> out then Inl EINVAL
          else if \<not> ce_calloc env then Inl ENOMEM
          else case qcpu_validate_runtime_directory (cfg_runtime_dir c) PATH_MAX (ce_realpath env) (ce_stat env) of
                 Inl e \<Rightarrow> Inl e
               | Inr dir \<Rightarrow>
                   (case qcpu_build_lock_path (zero_mock\<lparr>m_lock_fd := - 1, m_runtime_dir := dir\<rparr>) of
                      Inl e \<Rightarrow> Inl e
                    | Inr m \<Rightarrow>
                        if ce_mutex_init env \<noteq> 0 then Inl (ce_mutex_init env)
                        else if ce_condattr_init env \<noteq> 0 then Inl (ce_condattr_init env)
                        else if ce_setclock env \<noteq> 0 then Inl (ce_setclock env)
                        else if ce_cond_init env \<noteq> 0 then Inl (ce_cond_init env)
                        else create_backend c m))"

definition qcpu_mock_set_backend ::
  "qcpu_backend_ops option \<Rightarrow> nat option \<Rightarrow> string option \<Rightarrow> qcpu_mock option \<Rightarrow>
     (int + unit) \<times> qcpu_mock option" where
  "qcpu_mock_set_backend backend_ops backend_context backend_name mock =
     (case mock of
        None \<Rightarrow> (Inl EINVAL, mock)
      | Some m \<Rightarrow>
          if m_busy m then (Inl EBUSY, mock)
          else case backend_ops of
                 None \<Rightarrow>
                   (Inr (), Some (m\<lparr>m_backend_ops := \<lparr>op_exchange = None, op_cancel = None\<rparr>,
                      m_backend_context := None, m_backend_attached := False,
                      m_device_state := QCPU_UAPI_DEVICE_OFFLINE,
                      m_backend_name := qcpu_copy_text QCPU_UAPI_BACKEND_NAME_BYTES (Some ''absent'')\<rparr>))
               | Some ops \<Rightarrow>
                   if op_exchange ops = None then (Inl EINVAL, mock)
                   else (Inr (), Some (m\<lparr>m_backend_ops := ops, m_backend_context := backend_context,
                           m_backend_attached := True, m_device_state := QCPU_UAPI_DEVICE_IDLE,
                           m_backend_name := qcpu_copy_text QCPU_UAPI_BACKEND_NAME_BYTES
                             (Some (case backend_name of Some n \<Rightarrow> n | None \<Rightarrow> QCPU_MOCK_BACKEND_DEFAULT))\<rparr>)))"

text \<open>
  \<open>opened\<close>, \<open>fchmod\<close> and \<open>flock\<close> are the results of the three calls (0 is success for the last
  two, otherwise the error number).  The third component lists the descriptors that are closed.
\<close>

definition qcpu_mock_open ::
  "int + int \<Rightarrow> int \<Rightarrow> int \<Rightarrow> qcpu_mock option \<Rightarrow> (int + unit) \<times> qcpu_mock option \<times> int list" where
  "qcpu_mock_open opened fchmod flock mock =
     (case mock of
        None \<Rightarrow> (Inl EINVAL, mock, [])
      | Some m \<Rightarrow>
          if m_session_open m then (Inl EBUSY, mock, [])
          else case opened of
                 Inl e \<Rightarrow> (Inl e, mock, [])
               | Inr descriptor \<Rightarrow>
                   if fchmod \<noteq> 0 then (Inl fchmod, mock, [descriptor])
                   else if flock \<noteq> 0
                   then (Inl (if flock = EWOULDBLOCK \<or> flock = EAGAIN then EBUSY else flock), mock, [descriptor])
                   else (Inr (), Some (m\<lparr>m_lock_fd := descriptor, m_session_open := True\<rparr>), []))"

definition qcpu_fill_caps :: "qcpu_mock \<Rightarrow> bool \<Rightarrow> int + qcpu_uapi_caps_v1" where
  "qcpu_fill_caps m caps =
     (if \<not> caps then Inl EINVAL
      else Inr \<lparr> uc_abi_version = QCPU_UAPI_ABI_VERSION, uc_protocol_version = QCPU_UAPI_PROTOCOL_VERSION,
        uc_max_qubits = QCPU_UAPI_MAX_QUBITS, uc_max_shots = QCPU_UAPI_MAX_SHOTS,
        uc_max_inflight = QCPU_UAPI_MAX_INFLIGHT, uc_flags = QCPU_MOCK_REQUIRED_FLAGS,
        uc_backend = qcpu_copy_text QCPU_UAPI_BACKEND_NAME_BYTES (Some (cstring (m_backend_name m))),
        uc_driver_version = qcpu_copy_text QCPU_UAPI_DRIVER_VERSION_BYTES (Some (cstring (m_driver_version m))),
        uc_reserved = replicate 8 (CHR 0x00) \<rparr>)"

definition qcpu_fill_status :: "qcpu_mock \<Rightarrow> bool \<Rightarrow> int + qcpu_uapi_status_v1" where
  "qcpu_fill_status m status =
     (if \<not> status then Inl EINVAL
      else Inr \<lparr> us_device_state = m_device_state m,
        us_active_client_sessions = (if m_session_open m then 1 else 0),
        us_last_errno = m_last_errno m, us_last_protocol_status = m_last_protocol_status m,
        us_completed_requests = m_completed_requests m, us_failed_requests = m_failed_requests m \<rparr>)"

section \<open>The sections of an exchange\<close>

text \<open>What the calls of the first section return.\<close>

record begin_env =
  be_clock :: "(u64 \<times> u64) option"
  be_calloc :: bool
  be_attr_result :: int
  be_create_result :: int

definition exchange_spawn_failure ::
  "int \<Rightarrow> qcpu_mock \<Rightarrow> qcpu_uapi_exchange_v1 option \<Rightarrow> qcpu_mock \<times> qcpu_uapi_exchange_v1 option" where
  "exchange_spawn_failure error_number m exchange =
     (qcpu_finalize_exchange_locked False False error_number QCPU_UAPI_STATUS_IO (m\<lparr>m_active_task := None\<rparr>),
      qcpu_set_failure_response QCPU_UAPI_STATUS_IO exchange)"

text \<open>
  From taking the mutex to the first wait: the call ends with an error number, or a task has been
  put at the address \<open>task\<close> and a worker has been started on it.
\<close>

definition exchange_begin ::
  "begin_env \<Rightarrow> nat \<Rightarrow> qcpu_mock \<Rightarrow> qcpu_uapi_exchange_v1 option \<Rightarrow>
     (int + qcpu_exchange_task) \<times> qcpu_mock \<times> qcpu_uapi_exchange_v1 option" where
  "exchange_begin env task m exchange =
     (case qcpu_prevalidate_exchange_locked (be_clock env) m exchange of
        (Inl e, m, x) \<Rightarrow> (Inl e, m, x)
      | (Inr absolute_deadline_ns, m, x) \<Rightarrow>
          if \<not> be_calloc env
          then (Inl ENOMEM, qcpu_finalize_exchange_locked False False ENOMEM QCPU_UAPI_STATUS_IO m,
                qcpu_set_failure_response QCPU_UAPI_STATUS_IO x)
          else
            (let t = \<lparr> t_references = 2, t_backend_ops = m_backend_ops m,
                       t_backend_context = m_backend_context m, t_request = ux_request (the x),
                       t_response = zero_uapi_response, t_absolute_deadline_ns = absolute_deadline_ns,
                       t_backend_result = 0, t_done = False, t_caller_abandoned = False \<rparr>;
                 m = m\<lparr>m_busy := True, m_cancel_requested := False, m_cancel_sent := False,
                       m_device_state := QCPU_UAPI_DEVICE_BUSY, m_active_task := Some task\<rparr>
             in if be_attr_result env \<noteq> 0
                then (Inl (be_attr_result env), exchange_spawn_failure (be_attr_result env) m x)
                else if be_create_result env \<noteq> 0
                then (Inl (be_create_result env), exchange_spawn_failure (be_create_result env) m x)
                else (Inr t, m, x)))"

text \<open>
  One return of \<^verbatim>\<open>pthread_cond_timedwait\<close> in the first loop: \<open>None\<close> to wait on, or the loop is left
  with the timeout flag set and perhaps a cancel call to make.
\<close>

definition exchange_wait_result :: "int \<Rightarrow> qcpu_mock \<Rightarrow> qcpu_exchange_task \<Rightarrow> (bool \<times> qcpu_mock) option" where
  "exchange_wait_result wait_result m t =
     (if wait_result = ETIMEDOUT \<and> \<not> t_done t then Some (qcpu_request_cancel_locked m)
      else if wait_result \<noteq> 0 \<and> wait_result \<noteq> EINTR then Some (qcpu_request_cancel_locked m)
      else None)"

text \<open>The grace period: whether there is one, and whether a wait in it ends it.\<close>

definition grace_deadline :: "(u64 \<times> u64) option \<Rightarrow> u64 option" where
  "grace_deadline clock =
     (case clock of
        None \<Rightarrow> None
      | Some now \<Rightarrow>
          if - 1 - qcpu_timespec_to_ns now \<ge> QCPU_MOCK_CANCEL_GRACE_NS
          then Some (qcpu_timespec_to_ns now + QCPU_MOCK_CANCEL_GRACE_NS) else None)"

definition grace_wait_ends :: "int \<Rightarrow> qcpu_exchange_task \<Rightarrow> bool" where
  "grace_wait_ends wait_result t \<longleftrightarrow>
     wait_result = ETIMEDOUT \<and> \<not> t_done t \<or> wait_result \<noteq> 0 \<and> wait_result \<noteq> EINTR"

text \<open>The caller gives up on a task that is still running.\<close>

definition exchange_abandon ::
  "qcpu_mock \<Rightarrow> qcpu_exchange_task \<Rightarrow> qcpu_uapi_exchange_v1 option \<Rightarrow>
     int \<times> qcpu_mock \<times> qcpu_exchange_task \<times> qcpu_uapi_exchange_v1 option" where
  "exchange_abandon m t x =
     (ETIMEDOUT,
      qcpu_record_result_locked ETIMEDOUT QCPU_UAPI_STATUS_TIMEOUT
        (m\<lparr>m_failed_requests := m_failed_requests m + 1\<rparr>),
      t\<lparr>t_caller_abandoned := True\<rparr>,
      qcpu_set_failure_response QCPU_UAPI_STATUS_TIMEOUT x)"

text \<open>How a finished task ends: error number (0 on success), protocol status, offline flag.\<close>

definition exchange_verdict :: "bool \<Rightarrow> qcpu_mock \<Rightarrow> qcpu_exchange_task \<Rightarrow> int \<times> u32 \<times> bool" where
  "exchange_verdict timed_out m t =
     (if timed_out then (ETIMEDOUT, QCPU_UAPI_STATUS_TIMEOUT, False)
      else if m_cancel_requested m \<or> t_backend_result t = - ECANCELED
      then (ECANCELED, QCPU_UAPI_STATUS_CANCELED, False)
      else if t_backend_result t \<noteq> 0 then
        (if t_backend_result t = - ENODEV then (ENODEV, QCPU_UAPI_STATUS_BACKEND_ABSENT, True)
         else if t_backend_result t = - ETIMEDOUT then (ETIMEDOUT, QCPU_UAPI_STATUS_TIMEOUT, False)
         else if t_backend_result t = - ECANCELED then (ECANCELED, QCPU_UAPI_STATUS_CANCELED, False)
         else if qcpu_status_known (ucast (ur_status (t_response t))) \<and>
                 ucast (ur_status (t_response t)) \<noteq> QCPU_UAPI_STATUS_OK
         then (qcpu_status_to_errno (ucast (ur_status (t_response t))), ucast (ur_status (t_response t)),
               ucast (ur_status (t_response t)) = QCPU_UAPI_STATUS_BACKEND_ABSENT)
         else (EIO, QCPU_UAPI_STATUS_IO, False))
      else case qcpu_validate_backend_response (t_request t) (t_response t) of
             Inl failure \<Rightarrow> failure
           | Inr _ \<Rightarrow> (0, QCPU_UAPI_STATUS_OK, False))"

definition exchange_succeeds :: "bool \<Rightarrow> qcpu_mock \<Rightarrow> qcpu_exchange_task \<Rightarrow> bool" where
  "exchange_succeeds timed_out m t \<longleftrightarrow>
     \<not> timed_out \<and> \<not> m_cancel_requested m \<and> t_backend_result t = 0 \<and>
     qcpu_validate_backend_response (t_request t) (t_response t) = Inr ()"

definition exchange_finish ::
  "bool \<Rightarrow> qcpu_mock \<Rightarrow> qcpu_exchange_task \<Rightarrow> qcpu_uapi_exchange_v1 option \<Rightarrow>
     (int + unit) \<times> qcpu_mock \<times> qcpu_uapi_exchange_v1 option" where
  "exchange_finish timed_out m t x =
     (case exchange_verdict timed_out m t of
        (error_number, protocol_status, offline) \<Rightarrow>
          (let success = exchange_succeeds timed_out m t
           in (if success then Inr () else Inl error_number,
               qcpu_finalize_exchange_locked offline success error_number protocol_status
                 (m\<lparr>m_active_task := None\<rparr>),
               if success then map_option (\<lambda>e. e\<lparr>ux_response := t_response t\<rparr>) x
               else qcpu_set_failure_response protocol_status x)))"

section \<open>Closing and destroying\<close>

text \<open>
  The first section of \<^verbatim>\<open>qcpu_mock_close\<close>: an error, or it must wait for an exchange (after calling
  the cancel operation, if the flag says so), or it may go on at once.  \<open>abandoned\<close> is the flag of
  the active task.
\<close>

datatype close_next = Close_error int | Close_wait bool | Close_now

definition close_begin :: "bool \<Rightarrow> qcpu_mock \<Rightarrow> close_next \<times> qcpu_mock" where
  "close_begin abandoned m =
     (if \<not> m_session_open m then (Close_error EINVAL, m)
      else if m_busy m \<and> m_active_task m \<noteq> None \<and> abandoned then (Close_error EBUSY, m)
      else if m_busy m
      then (case qcpu_request_cancel_locked m of (call_cancel, m') \<Rightarrow> (Close_wait call_cancel, m'))
      else (Close_now, m))"

text \<open>
  The last section, once the frontend is not busy: \<open>unlocked\<close> and \<open>close_res\<close> are the results of
  \<^verbatim>\<open>flock(LOCK_UN)\<close> and \<^verbatim>\<open>close\<close>; the last component is the descriptor that is closed.
\<close>

definition close_finish :: "int \<Rightarrow> int \<Rightarrow> qcpu_mock \<Rightarrow> (int + unit) \<times> qcpu_mock \<times> int list" where
  "close_finish unlocked close_res m =
     (let descriptor = m_lock_fd m;
          m' = m\<lparr>m_lock_fd := - 1, m_session_open := False\<rparr>;
          saved_errno = (if descriptor \<ge> 0 then (if unlocked \<noteq> 0 then unlocked else close_res) else 0)
      in (if saved_errno \<noteq> 0 then Inl saved_errno else Inr (), m', if descriptor \<ge> 0 then [descriptor] else []))"

definition qcpu_mock_destroy :: "int \<Rightarrow> int \<Rightarrow> qcpu_mock option \<Rightarrow> int + unit" where
  "qcpu_mock_destroy cond_destroy mutex_destroy mock =
     (case mock of
        None \<Rightarrow> Inl EINVAL
      | Some m \<Rightarrow>
          if m_session_open m \<or> m_busy m then Inl EBUSY
          else if cond_destroy \<noteq> 0 then Inl cond_destroy
          else if mutex_destroy \<noteq> 0 then Inl mutex_destroy
          else Inr ())"

section \<open>The ioctl entry point\<close>

text \<open>\<^verbatim>\<open>_IOC\<close> of \<^verbatim>\<open>linux/ioctl.h\<close>: direction, size, type and number; the sizes are those of the structs.\<close>

definition ioc :: "u64 \<Rightarrow> u64 \<Rightarrow> u64 \<Rightarrow> u64" where
  "ioc dir nr bytes = push_bit 30 dir OR push_bit 16 bytes OR push_bit 8 0x51 OR nr"

definition QCPU_IOC_GET_CAPS_V1 :: u64 where "QCPU_IOC_GET_CAPS_V1 = ioc 2 0x00 80"
definition QCPU_IOC_GET_STATUS_V1 :: u64 where "QCPU_IOC_GET_STATUS_V1 = ioc 2 0x01 32"
definition QCPU_IOC_EXCHANGE_V1 :: u64 where "QCPU_IOC_EXCHANGE_V1 = ioc 3 0x10 88"

datatype ioctl_call = Ioctl_error int | Ioctl_caps | Ioctl_status | Ioctl_exchange

definition qcpu_mock_ioctl :: "bool \<Rightarrow> u64 \<Rightarrow> ioctl_call" where
  "qcpu_mock_ioctl mock request =
     (if \<not> mock then Ioctl_error EINVAL
      else if request = QCPU_IOC_GET_CAPS_V1 then Ioctl_caps
      else if request = QCPU_IOC_GET_STATUS_V1 then Ioctl_status
      else if request = QCPU_IOC_EXCHANGE_V1 then Ioctl_exchange
      else Ioctl_error ENOTTY)"

section \<open>Q32.32 conversion\<close>

text \<open>
  \<open>rndl\<close> rounds \<^verbatim>\<open>long double\<close> results.  The norm is given by its bits: \<^verbatim>\<open>isfinite\<close> reads them, and
  a finite one is the real number \<open>dbl_value\<close>.
\<close>

definition qcpu_mock_norm_to_q32_32 :: "(real \<Rightarrow> real) \<Rightarrow> u64 \<Rightarrow> bool \<Rightarrow> int + u64" where
  "qcpu_mock_norm_to_q32_32 rndl norm_bits out =
     (let tolerance = 2 powi (- 40); v = dbl_value norm_bits
      in if \<not> out then Inl EINVAL
         else if \<not> dbl_isfinite norm_bits \<or> v < 0 then Inl ERANGE
         else if v > rnd_double (1 + tolerance) then Inl ERANGE
         else let clamped = (if v > 1 then 1 else v);
                  scaled = rndl (clamped * 4294967296);
                  rounded = of_int \<lfloor>rndl (scaled + 1 / 2)\<rfloor> :: real
              in if rounded < 0 \<or> rounded > 4294967296 then Inl ERANGE
                 else Inr (word_of_int \<lfloor>rounded\<rfloor>))"

section \<open>Request and response validation\<close>

lemma required_flags: "QCPU_MOCK_REQUIRED_FLAGS = 15"
  by (simp add: QCPU_MOCK_REQUIRED_FLAGS_def uapi_flag_defs push_bit_eq_mult)

text \<open>What the code accepts as a good answer, written as one condition.\<close>

definition good_response :: "qcpu_uapi_request_v1 \<Rightarrow> qcpu_uapi_response_v1 \<Rightarrow> bool" where
  "good_response request response \<longleftrightarrow>
     ur_magic response = 0x51525631 \<and> ur_version response = 1 \<and> ur_status response = 0 \<and>
     ur_flags response AND 15 = 15 \<and>
     ur_qubits response = uq_qubits request \<and> ur_shots response = ucast (uq_shots request) \<and>
     ur_norm_q32_32 response \<le> 2 ^ 32 \<and>
     (uq_command request = 2 \<longrightarrow>
        ur_basis_states response = 2 ^ unat (uq_qubits request) \<and>
        ur_measured_state response \<in> {0, 2 ^ unat (uq_qubits request) - 1} \<and>
        ur_invalid_results response = 0)"

lemma unat_ucast_16_32: "unat (ucast (w :: u16) :: u32) = unat w"
proof -
  have "unat w < 2 ^ 16" using unsigned_less [of w] by simp
  then have "unat w < 2 ^ 32" by simp
  then show ?thesis by (simp add: unsigned_ucast_eq take_bit_nat_eq_self)
qed

lemma ucast_16_32_eq:
  "(ucast (w :: u16) :: u32) = 0 \<longleftrightarrow> w = 0" "(ucast (w :: u16) :: u32) = 1 \<longleftrightarrow> w = 1"
  by (simp_all add: word_unat_eq_iff unat_ucast_16_32)

lemma validate_iff_good: "qcpu_validate_backend_response request response = Inr () \<longleftrightarrow> good_response request response"
  by (auto simp: qcpu_validate_backend_response_def good_response_def required_flags uapi_consts
      qcpu_status_known_def uapi_status_defs push_bit_eq_mult ucast_16_32_eq Let_def not_less)

lemma validate_ok_status:
  assumes "ur_status response = 0"
  shows "qcpu_validate_backend_response request response = Inr () \<or>
     (\<exists>status. qcpu_validate_backend_response request response = Inl (EIO, status, False))"
  using assms by (simp add: qcpu_validate_backend_response_def Let_def uapi_status_defs)

text \<open>
  C18: a backend response is accepted exactly when its magic, version, status, truth flags,
  qubits and shots are right, its norm is at most one in Q32.32 and, for a GHZ run, its number of
  basis states, measured state and invalid count are those of a GHZ run; every rejection of
  a response with an OK status is reported as EIO and never takes the device offline.
\<close>

theorem validate_response_exact:
  "(qcpu_validate_backend_response request response = Inr () \<longleftrightarrow> good_response request response) \<and>
   (\<not> good_response request response \<and> ur_status response = 0 \<longrightarrow>
      (\<exists>status. qcpu_validate_backend_response request response = Inl (EIO, status, False)))"
  using validate_iff_good [of request response] validate_ok_status [of response request] by blast

definition sample_uapi_request :: qcpu_uapi_request_v1 where
  "sample_uapi_request = \<lparr> uq_magic = 0x51445631, uq_version = 1, uq_command = 2, uq_qubits = 3,
     uq_shots = 50, uq_seed = 7 \<rparr>"

definition sample_uapi_response :: qcpu_uapi_response_v1 where
  "sample_uapi_response = \<lparr> ur_magic = 0x51525631, ur_version = 1, ur_status = 0, ur_flags = 15,
     ur_qubits = 3, ur_basis_states = 8, ur_shots = 50, ur_measured_state = 7, ur_invalid_results = 0,
     ur_norm_q32_32 = 4294967296 \<rparr>"

lemma sample_response_good: "good_response sample_uapi_request sample_uapi_response"
  by (simp add: good_response_def sample_uapi_request_def sample_uapi_response_def)

theorem validate_response_exact_witness:
  "qcpu_validate_backend_response sample_uapi_request sample_uapi_response = Inr () \<and>
   (\<exists>status. qcpu_validate_backend_response sample_uapi_request
      (sample_uapi_response\<lparr>ur_measured_state := 3\<rparr>) = Inl (EIO, status, False))"
proof -
  have "\<not> good_response sample_uapi_request (sample_uapi_response\<lparr>ur_measured_state := 3\<rparr>)"
    "ur_status (sample_uapi_response\<lparr>ur_measured_state := 3\<rparr>) = 0"
    by (simp_all add: good_response_def sample_uapi_request_def sample_uapi_response_def)
  then show ?thesis
    using validate_response_exact [of sample_uapi_request sample_uapi_response]
      validate_response_exact [of sample_uapi_request "sample_uapi_response\<lparr>ur_measured_state := 3\<rparr>"]
      sample_response_good by blast
qed

text \<open>The fields a rejected request must leave alone.\<close>

definition same_execution :: "qcpu_mock \<Rightarrow> qcpu_mock \<Rightarrow> bool" where
  "same_execution m m' \<longleftrightarrow>
     m_completed_requests m' = m_completed_requests m \<and> m_failed_requests m' = m_failed_requests m \<and>
     m_busy m' = m_busy m \<and> m_active_task m' = m_active_task m \<and>
     m_cancel_requested m' = m_cancel_requested m \<and> m_cancel_sent m' = m_cancel_sent m \<and>
     m_session_open m' = m_session_open m \<and> m_lock_fd m' = m_lock_fd m \<and>
     m_backend_attached m' = m_backend_attached m \<and> m_backend_ops m' = m_backend_ops m"

text \<open>
  The validation order of the design document, as the first failing check.  \<^verbatim>\<open>UINT64_MAX\<close> is
  \<open>2 ^ 64 - 1\<close>.
\<close>

fun first_failure :: "(bool \<times> int \<times> u32) list \<Rightarrow> (int \<times> u32) option" where
  "first_failure [] = None"
| "first_failure ((ok, e, st) # cs) = (if ok then first_failure cs else Some (e, st))"

definition request_checks :: "qcpu_uapi_request_v1 \<Rightarrow> (bool \<times> int \<times> u32) list" where
  "request_checks r =
     [(uq_magic r = 0x51445631, EPROTO, 1),
      (uq_version r = 1, EPROTONOSUPPORT, 2),
      (uq_command r = 1 \<or> uq_command r = 2, EOPNOTSUPP, 3),
      (uq_command r = 1 \<and> uq_qubits r = 0 \<and> uq_shots r = 0 \<or>
       uq_command r = 2 \<and> uq_qubits r \<noteq> 0 \<and> uq_qubits r \<le> 20 \<and> uq_shots r \<noteq> 0 \<and> uq_shots r \<le> 100,
       ERANGE, 4)]"

definition effective_timeout :: "u64 \<Rightarrow> nat" where
  "effective_timeout timeout = (if timeout = 0 then 1000000000 else unat timeout)"

definition deadline_checks :: "u64 \<Rightarrow> (u64 \<times> u64) option \<Rightarrow> (bool \<times> int \<times> u32) list" where
  "deadline_checks timeout clock =
     [(effective_timeout timeout \<le> 5000000000, ERANGE, 4),
      (clock \<noteq> None, EIO, 6),
      (unat (qcpu_timespec_to_ns (the clock)) + effective_timeout timeout < 2 ^ 64, ERANGE, 4)]"

definition validation_order ::
  "(u64 \<times> u64) option \<Rightarrow> qcpu_mock \<Rightarrow> qcpu_uapi_exchange_v1 \<Rightarrow> (bool \<times> int \<times> u32) list" where
  "validation_order clock m x =
     (m_session_open m, EBUSY, 8) # request_checks (ux_request x) @
     deadline_checks (ux_timeout_ns x) clock @
     [(\<not> m_busy m, EBUSY, 8),
      (m_backend_attached m \<and> op_exchange (m_backend_ops m) \<noteq> None, ENODEV, 7)]"

lemma first_failure_append:
  "first_failure (a @ b) = (case first_failure a of None \<Rightarrow> first_failure b | Some f \<Rightarrow> Some f)"
  by (induction a rule: first_failure.induct) auto

lemma check_request_order: "check_request r = first_failure (request_checks r)"
  by (auto simp: check_request_def request_checks_def uapi_consts uapi_status_defs ucast_16_32_eq not_less)

lemma deadline_overflow:
  "- 1 - (a :: u64) < b \<longleftrightarrow> \<not> unat a + unat b < 2 ^ 64"
proof -
  have "unat (- 1 - a) = 2 ^ 64 - 1 - unat a"
    using unat_sub [of a "- 1"] by (simp add: unsigned_minus_1_eq_mask mask_eq_exp_minus_1)
  moreover have "unat a < 2 ^ 64" using unsigned_less [of a] by simp
  ultimately show ?thesis by (simp add: word_less_nat_alt) arith
qed

lemma exchange_deadline_order:
  "case exchange_deadline timeout clock of
     Inl failure \<Rightarrow> first_failure (deadline_checks timeout clock) = Some failure
   | Inr deadline \<Rightarrow> first_failure (deadline_checks timeout clock) = None \<and>
       unat deadline = unat (qcpu_timespec_to_ns (the clock)) + effective_timeout timeout"
proof -
  define t where "t = (if timeout = 0 then QCPU_MOCK_DEFAULT_TIMEOUT_NS else timeout)"
  have eff: "unat t = effective_timeout timeout"
    by (simp add: t_def effective_timeout_def QCPU_MOCK_DEFAULT_TIMEOUT_NS_def)
  have max: "t > QCPU_MOCK_MAX_TIMEOUT_NS \<longleftrightarrow> \<not> effective_timeout timeout \<le> 5000000000"
    by (simp add: word_less_nat_alt eff QCPU_MOCK_MAX_TIMEOUT_NS_def not_le)
  have sum: "unat (qcpu_timespec_to_ns now + t) = unat (qcpu_timespec_to_ns now) + effective_timeout timeout"
    if "unat (qcpu_timespec_to_ns now) + effective_timeout timeout < 2 ^ 64" for now
    using that by (simp add: unat_word_ariths flip: eff)
  show ?thesis
    unfolding exchange_deadline_def Let_def t_def [symmetric] max deadline_overflow eff
    by (cases clock) (simp_all add: deadline_checks_def uapi_status_defs sum)
qed

lemma check_request_no_device: "first_failure (request_checks r) \<noteq> Some (ENODEV, st)"
  by (simp add: request_checks_def errno_defs)

lemma deadline_no_device: "exchange_deadline timeout clock \<noteq> Inl (ENODEV, st)"
  by (auto simp: exchange_deadline_def errno_defs Let_def split: option.split)

lemma reject_result:
  "prevalidate_reject f m x = (Inl (fst f), m\<lparr>m_last_errno := fst f, m_last_protocol_status := snd f\<rparr>,
     qcpu_set_failure_response (snd f) x)"
  by (simp add: prevalidate_reject_def qcpu_record_result_locked_def)

lemma set_failure_response_zeroed [simp]:
  "qcpu_set_failure_response st (Some (x\<lparr>ux_response := r\<rparr>)) = qcpu_set_failure_response st (Some x)"
  by (simp add: qcpu_set_failure_response_def)

text \<open>
  C14: an exchange is admitted exactly when every check of the documented order passes, and then the frontend is
  unchanged and the deadline is the current time plus the timeout (one second when none is given), without
  wrap-around; otherwise the error number and protocol status are those of the first check that
  fails, the response is a failure response, and the frontend is the old one but for the record of the error and,
  when it is the backend that is missing, the reported state, which becomes OFFLINE.  A timeout above five
  seconds fails its check with \<^verbatim>\<open>ERANGE\<close>, as the design document and the comment in the code say; the comment of the older
  UAPI header, which says that it is clamped, does not describe this code.
\<close>

theorem prevalidate_order:
  "case qcpu_prevalidate_exchange_locked clock m (Some x) of
     (Inr deadline, m', x') \<Rightarrow>
       first_failure (validation_order clock m x) = None \<and> m' = m \<and>
       x' = Some (x\<lparr>ux_response := zero_uapi_response\<rparr>) \<and>
       unat deadline = unat (qcpu_timespec_to_ns (the clock)) + effective_timeout (ux_timeout_ns x)
   | (Inl e, m', x') \<Rightarrow>
       \<exists>st. first_failure (validation_order clock m x) = Some (e, st) \<and>
         m' = m\<lparr>m_last_errno := e, m_last_protocol_status := st,
           m_device_state := (if e = ENODEV then QCPU_UAPI_DEVICE_OFFLINE else m_device_state m)\<rparr> \<and>
         x' = qcpu_set_failure_response st (Some x)"
proof -
  let ?order = "validation_order clock m x" and ?d = "exchange_deadline (ux_timeout_ns x) clock"
  note pre = qcpu_prevalidate_exchange_locked_def validation_order_def first_failure_append check_request_order Let_def
  have f: "fst failure \<noteq> ENODEV"
    if "first_failure (request_checks (ux_request x)) = Some failure \<or> ?d = Inl failure" for failure
    using that check_request_no_device [of "ux_request x"] deadline_no_device [of "ux_timeout_ns x" clock]
    by (cases failure) auto
  note dl = exchange_deadline_order [of "ux_timeout_ns x" clock]
  consider "\<not> m_session_open m"
    | failure where "m_session_open m" "first_failure (request_checks (ux_request x)) = Some failure"
    | failure where "m_session_open m" "first_failure (request_checks (ux_request x)) = None" "?d = Inl failure"
    | deadline where "m_session_open m" "first_failure (request_checks (ux_request x)) = None" "?d = Inr deadline"
    by (cases "first_failure (request_checks (ux_request x))"; cases "?d"; blast)
  then show ?thesis
  proof cases
    case 1
    then show ?thesis by (simp add: pre reject_result uapi_status_defs errno_defs)
  next
    case (2 failure)
    then show ?thesis using f [of failure] by (cases failure) (simp add: pre reject_result)
  next
    case (3 failure)
    then show ?thesis using f [of failure] dl by (cases failure) (simp add: pre reject_result)
  next
    case (4 deadline)
    then have d: "first_failure (deadline_checks (ux_timeout_ns x) clock) = None"
        "unat deadline = unat (qcpu_timespec_to_ns (the clock)) + effective_timeout (ux_timeout_ns x)"
      using dl by simp_all
    consider "m_busy m" | "\<not> m_busy m" "\<not> (m_backend_attached m \<and> op_exchange (m_backend_ops m) \<noteq> None)"
      | "\<not> m_busy m" "m_backend_attached m" "op_exchange (m_backend_ops m) \<noteq> None" by blast
    then show ?thesis
    proof cases
      case 1
      then show ?thesis using 4 d(1) by (simp add: pre reject_result uapi_status_defs errno_defs)
    next
      case 2
      then have b: "\<not> m_backend_attached m \<or> op_exchange (m_backend_ops m) = None" by blast
      have "qcpu_prevalidate_exchange_locked clock m (Some x) =
          prevalidate_reject (ENODEV, QCPU_UAPI_STATUS_BACKEND_ABSENT) (m\<lparr>m_device_state := QCPU_UAPI_DEVICE_OFFLINE\<rparr>)
            (Some (x\<lparr>ux_response := zero_uapi_response\<rparr>))"
        using 4 2(1) b by (simp add: pre)
      moreover have "first_failure ?order = Some (ENODEV, QCPU_UAPI_STATUS_BACKEND_ABSENT)"
        using 4 2 d(1) by (simp add: pre uapi_status_defs)
      ultimately show ?thesis by (simp add: reject_result)
    next
      case 3
      then show ?thesis using 4 d by (auto simp: pre)
    qed
  qed
qed

section \<open>The norm in Q32.32\<close>

lemma dbl_value_dyadic: "\<exists>m e. dbl_value b = of_int m * 2 powi e \<and> \<bar>m\<bar> \<le> 2 ^ 53"
proof -
  let ?s = "if dbl_sign b then - 1 else 1 :: int"
  have "int (dbl_fraction b) < 2 ^ 52" using dbl_fraction_less [of b] by simp
  then have "\<bar>?s * int (dbl_fraction b)\<bar> \<le> 2 ^ 53" "\<bar>?s * (2 ^ 52 + int (dbl_fraction b))\<bar> \<le> 2 ^ 53"
    by (simp_all add: abs_mult)
  moreover have "dbl_value b = of_int (?s * int (dbl_fraction b)) * 2 powi (- 1074) \<or>
      dbl_value b = of_int (?s * (2 ^ 52 + int (dbl_fraction b))) * 2 powi (int (dbl_exponent b) - 1075)"
    by (simp add: dbl_value_def)
  ultimately show ?thesis by blast
qed

context fp_rounding
begin

lemma half_up_exact:
  assumes p: "64 \<le> p" and w: "w = of_int m * 2 powi e" "\<bar>m\<bar> \<le> 2 ^ 53" and r: "0 \<le> w" "w \<le> 2 ^ 32"
  shows "\<lfloor>rnd (w + 1 / 2)\<rfloor> = \<lfloor>w + 1 / 2\<rfloor>"
proof (cases "w < 1 / 4")
  case True
  have "(2 :: real) ^ 64 \<le> 2 ^ p" using p by (intro power_increasing) auto
  then have "(w + 1 / 2) / 2 ^ p \<le> (3 / 4) / 2 ^ 64"
    using True r(1) by (intro frac_le) auto
  moreover have "\<bar>rnd (w + 1 / 2) - (w + 1 / 2)\<bar> \<le> (w + 1 / 2) / 2 ^ p"
    using r(1) by (intro rnd_close) simp
  moreover have "(3 / 4 :: real) / 2 ^ 64 < 1 / 8" by simp
  ultimately have "\<bar>rnd (w + 1 / 2) - (w + 1 / 2)\<bar> < 1 / 8" by linarith
  then have "0 \<le> rnd (w + 1 / 2)" "rnd (w + 1 / 2) < 1" using True r(1) by linarith+
  then have "\<lfloor>rnd (w + 1 / 2)\<rfloor> = 0" by (simp add: floor_eq_iff)
  moreover have "\<lfloor>w + 1 / 2\<rfloor> = 0" using True r(1) by (simp add: floor_eq_iff)
  ultimately show ?thesis by simp
next
  case False
  have p64: "(2 :: real) ^ 64 \<le> 2 ^ p" using p by (intro power_increasing) auto
  have dyadic: "representable p x" if "x = of_int k * 2 powi j" "\<bar>of_int k\<bar> \<le> (2 :: real) ^ 64" for x k j
  proof -
    have "\<bar>of_int k\<bar> \<le> (2 :: real) ^ p" using that(2) p64 by linarith
    then have "\<bar>k\<bar> \<le> 2 ^ p" by (metis of_int_abs of_int_le_iff of_int_numeral of_int_power)
    then show ?thesis unfolding representable_def using that(1) by blast
  qed
  have "representable p (w + 1 / 2)"
  proof (cases "- 1 \<le> e")
    case True
    have "(2 :: real) ^ nat (e + 1) = 2 powi (e + 1)" using True by (simp add: power_int_def)
    then have "of_int (m * 2 ^ nat (e + 1) + 1) = 2 * w + (1 :: real)"
      by (simp add: w(1) power_int_add)
    then show ?thesis
      using r by (intro dyadic [where k = "m * 2 ^ nat (e + 1) + 1" and j = "- 1"])
        (simp_all only: power_int_minus power_int_1_right, simp_all)
  next
    case low: False
    define c where "c = (2 :: real) powi e"
    have c: "0 < c" "w = of_int m * c" by (simp_all add: c_def w(1))
    have "(2 :: real) ^ nat (- 1 - e) = 2 powi (- 1 - e)" using low by (simp add: power_int_def)
    then have k: "(2 :: real) ^ nat (- 1 - e) * c = 1 / 2"
      unfolding c_def by (simp flip: power_int_add)
    have m: "\<bar>of_int m\<bar> \<le> (2 :: real) ^ 53"
      using w(2) by (metis of_int_abs of_int_le_iff of_int_numeral of_int_power)
    then have "of_int m * c \<le> 2 ^ 53 * c" using c(1) by (intro mult_right_mono) auto
    then have "1 / 4 \<le> 2 ^ 53 * c" using False c(2) by linarith
    moreover have "(2 :: real) ^ 54 * c = 2 * (2 ^ 53 * c)" by simp
    ultimately have "(2 :: real) ^ nat (- 1 - e) * c \<le> 2 ^ 54 * c" using k by linarith
    then have "(2 :: real) ^ nat (- 1 - e) \<le> 2 ^ 54" using c(1) by (simp only: mult_le_cancel_right_pos)
    moreover have "(2 :: real) ^ 53 + 2 ^ 54 \<le> 2 ^ 64" "0 \<le> (2 :: real) ^ nat (- 1 - e)" by simp_all
    ultimately have "\<bar>of_int m + 2 ^ nat (- 1 - e)\<bar> \<le> (2 :: real) ^ 64" using m by linarith
    then have "\<bar>of_int (m + 2 ^ nat (- 1 - e))\<bar> \<le> (2 :: real) ^ 64" by simp
    moreover have "w + 1 / 2 = of_int (m + 2 ^ nat (- 1 - e)) * 2 powi e"
      unfolding c_def [symmetric] using k c(2) by (simp add: distrib_right)
    ultimately show ?thesis by (rule dyadic [rotated])
  qed
  then show ?thesis by (simp add: exact)
qed

end

lemma norm_to_q32_32_eq:
  assumes "fp_rounding p rndl" and "64 \<le> p"
  shows "qcpu_mock_norm_to_q32_32 rndl b True =
     (if dbl_isfinite b \<and> 0 \<le> dbl_value b \<and> dbl_value b \<le> 1 + 2 powi (- 40)
      then Inr (word_of_int \<lfloor>min 1 (dbl_value b) * 2 ^ 32 + 1 / 2\<rfloor>) else Inl ERANGE)"
proof -
  define v where "v = min 1 (dbl_value b)"
  have tol: "rnd_double (1 + 2 powi (- 40)) = 1 + 2 powi (- 40)"
  proof -
    have "(1 :: real) + 2 powi (- 40) = of_int (2 ^ 40 + 1) * 2 powi (- 40)"
      by (simp add: power_int_minus field_simps)
    then show ?thesis using dbl.rnd_dyadic [of "2 ^ 40 + 1" "- 40"] by simp
  qed
  obtain m e where me: "v * 2 ^ 32 = of_int m * 2 powi e" "\<bar>m\<bar> \<le> 2 ^ 53"
  proof -
    obtain m e where "dbl_value b = of_int m * 2 powi e" "\<bar>m\<bar> \<le> 2 ^ 53" using dbl_value_dyadic by blast
    then have "v * 2 ^ 32 = of_int 1 * 2 powi 32 \<or> v * 2 ^ 32 = of_int m * 2 powi (e + 32)"
      by (auto simp: v_def min_def power_int_add)
    then show ?thesis using that \<open>\<bar>m\<bar> \<le> 2 ^ 53\<close> by (metis abs_1 one_le_numeral one_le_power)
  qed
  have v1: "v \<le> 1" by (simp add: v_def)
  have "(2 :: int) ^ 53 \<le> 2 ^ p" using assms(2) by (intro power_increasing) auto
  then have scale: "rndl (v * 4294967296) = v * 4294967296"
    using me fp_rounding.rnd_dyadic [OF assms(1), of m e] by simp
  have fl: "0 \<le> v \<Longrightarrow> \<lfloor>rndl (v * 4294967296 + 1 / 2)\<rfloor> = \<lfloor>v * 4294967296 + 1 / 2\<rfloor>"
    using fp_rounding.half_up_exact [OF assms me] v1 by simp
  have bounds: "0 \<le> v \<Longrightarrow> 0 \<le> \<lfloor>v * 4294967296 + 1 / 2\<rfloor> \<and> \<lfloor>v * 4294967296 + 1 / 2\<rfloor> \<le> 4294967296"
    using v1 by (simp add: floor_le_iff)
  have clamp: "(if dbl_value b > 1 then 1 else dbl_value b) = v" by (simp add: v_def min_def)
  have v0: "0 \<le> v \<longleftrightarrow> 0 \<le> dbl_value b" by (simp add: v_def)
  define F where "F = \<lfloor>v * 4294967296 + 1 / 2\<rfloor>"
  define T where "T = (1 :: real) + 2 powi (- 40)"
  have tolT: "rnd_double T = T" using tol by (simp only: T_def)
  have "qcpu_mock_norm_to_q32_32 rndl b True =
     (if dbl_isfinite b \<and> 0 \<le> dbl_value b \<and> dbl_value b \<le> T then Inr (word_of_int F) else Inl ERANGE)"
  proof (cases "dbl_isfinite b \<and> 0 \<le> dbl_value b \<and> dbl_value b \<le> T")
    case False
    then show ?thesis
      unfolding qcpu_mock_norm_to_q32_32_def Let_def T_def [symmetric] tolT by auto
  next
    case True
    then have F: "\<lfloor>rndl (v * 4294967296 + 1 / 2)\<rfloor> = F" "0 \<le> F" "F \<le> 4294967296"
      using fl bounds v0 by (simp_all add: F_def)
    show ?thesis
      unfolding qcpu_mock_norm_to_q32_32_def Let_def T_def [symmetric] tolT clamp scale F(1)
      using True F(2,3) by auto
  qed
  then show ?thesis by (simp add: F_def T_def v_def)
qed

text \<open>
  The Q32.32 conversion, for any \<^verbatim>\<open>long double\<close> with at least 64 bits of precision and any
  correctly rounding arithmetic on it: NaN, infinities, negative values and values above
  \<open>1 + 2 ^ -40\<close> are ERANGE, and every other value is clamped to at most one, scaled by \<open>2 ^ 32\<close>
  and rounded to the nearest integer, halves upward.
\<close>

theorem norm_conversion:
  assumes "fp_rounding p rndl" and "64 \<le> p"
  shows "qcpu_mock_norm_to_q32_32 rndl b True =
     (if dbl_isfinite b \<and> 0 \<le> dbl_value b \<and> dbl_value b \<le> 1 + 2 powi (- 40)
      then Inr (word_of_int \<lfloor>min 1 (dbl_value b) * 2 ^ 32 + 1 / 2\<rfloor>) else Inl ERANGE)"
  by (rule norm_to_q32_32_eq [OF assms])

theorem norm_conversion_witness:
  "qcpu_mock_norm_to_q32_32 (rnd_prec 64) 0x3ff0000000000000 True = Inr 4294967296"
proof -
  have "\<lfloor>(4294967296 :: real) + 1 / 2\<rfloor> = 4294967296" by linarith
  moreover have "(1 :: real) \<le> 1 + 2 powi (- 40)" by simp
  ultimately show ?thesis
    using norm_conversion [OF fp_rounding_rnd_prec, of 64 "0x3ff0000000000000"] dbl_value_one by simp
qed

end
