(* ===== verification/Frontend_Machine.thy ===== *)
theory Frontend_Machine
  imports Frontend
begin

text \<open>
  The frontend as a concurrent machine.  Any number of threads may be inside
  \<^verbatim>\<open>qcpu_exchange_ioctl\<close>, \<^verbatim>\<open>qcpu_mock_close\<close> and the other calls at once; every step of the machine is
  one section of code between taking and releasing the mutex (a wait on the condition variable
  releases it), as \<open>Frontend\<close> defines it, or the release of a task reference, which happens outside
  it.  Tasks live on a heap: the address of a freed task may be handed out again.
\<close>

section \<open>States\<close>

datatype caller_pc =
    C_idle \<comment> \<open>no call on a task at this address\<close>
  | C_wait \<comment> \<open>in the first wait loop\<close>
  | C_unlocked bool bool \<comment> \<open>left it: timed out, must call cancel\<close>
  | C_grace \<comment> \<open>timed out, in the grace-period loop\<close>
  | C_release \<comment> \<open>about to drop its reference and return\<close>

datatype worker_pc = W_none | W_run | W_release

datatype closer_pc = L_none | L_wait

record fe_state =
  fe_mock :: qcpu_mock
  fe_heap :: "nat \<Rightarrow> qcpu_exchange_task option"
  fe_caller :: "nat \<Rightarrow> caller_pc"
  fe_exchange :: "nat \<Rightarrow> qcpu_uapi_exchange_v1 option"
  fe_worker :: "nat \<Rightarrow> worker_pc"
  fe_closer :: "nat \<Rightarrow> closer_pc"
  fe_started :: nat \<comment> \<open>exchanges that passed validation so far\<close>

definition qcpu_task_release :: "qcpu_exchange_task \<Rightarrow> qcpu_exchange_task option" where
  "qcpu_task_release t =
     (if t_references t = 1 then None else Some (t\<lparr>t_references := t_references t - 1\<rparr>))"

definition active_abandoned :: "fe_state \<Rightarrow> bool" where
  "active_abandoned s =
     (case m_active_task (fe_mock s) of
        None \<Rightarrow> False
      | Some a \<Rightarrow> (case fe_heap s a of None \<Rightarrow> False | Some t \<Rightarrow> t_caller_abandoned t))"

definition prevalidated :: "begin_env \<Rightarrow> qcpu_mock \<Rightarrow> qcpu_uapi_exchange_v1 option \<Rightarrow> bool" where
  "prevalidated env m x =
     (case fst (qcpu_prevalidate_exchange_locked (be_clock env) m x) of Inl _ \<Rightarrow> False | Inr _ \<Rightarrow> True)"

section \<open>Steps\<close>

inductive fe_step :: "fe_state \<Rightarrow> fe_state \<Rightarrow> bool" where
  begin_error:
    "exchange_begin env a (fe_mock s) x = (Inl e, m, x') \<Longrightarrow> fe_heap s a = None \<Longrightarrow>
     fe_step s (s\<lparr>fe_mock := m,
                  fe_started := fe_started s + (if prevalidated env (fe_mock s) x then 1 else 0)\<rparr>)"
| dispatch:
    "exchange_begin env a (fe_mock s) x = (Inr t, m, x') \<Longrightarrow> fe_heap s a = None \<Longrightarrow>
     fe_step s (s\<lparr>fe_mock := m, fe_heap := (fe_heap s)(a := Some t),
                  fe_caller := (fe_caller s)(a := C_wait), fe_exchange := (fe_exchange s)(a := x'),
                  fe_worker := (fe_worker s)(a := W_run), fe_started := fe_started s + 1\<rparr>)"
| wait_done:
    "fe_caller s a = C_wait \<Longrightarrow> fe_heap s a = Some t \<Longrightarrow> t_done t \<Longrightarrow>
     fe_step s (s\<lparr>fe_caller := (fe_caller s)(a := C_unlocked False False)\<rparr>)"
| wait_leave:
    "fe_caller s a = C_wait \<Longrightarrow> fe_heap s a = Some t \<Longrightarrow>
     exchange_wait_result w (fe_mock s) t = Some (call_cancel, m) \<Longrightarrow>
     fe_step s (s\<lparr>fe_mock := m, fe_caller := (fe_caller s)(a := C_unlocked True call_cancel)\<rparr>)"
| relock_grace:
    "fe_caller s a = C_unlocked True call_cancel \<Longrightarrow> fe_heap s a = Some t \<Longrightarrow> \<not> t_done t \<Longrightarrow>
     grace_deadline clock = Some d \<Longrightarrow>
     fe_step s (s\<lparr>fe_caller := (fe_caller s)(a := C_grace)\<rparr>)"
| abandon:
    "fe_caller s a = C_unlocked True call_cancel \<and> grace_deadline clock = None \<or>
     fe_caller s a = C_grace \<and> grace_wait_ends w t \<Longrightarrow>
     fe_heap s a = Some t \<Longrightarrow> \<not> t_done t \<Longrightarrow>
     exchange_abandon (fe_mock s) t (fe_exchange s a) = (e, m, t', x') \<Longrightarrow>
     fe_step s (s\<lparr>fe_mock := m, fe_heap := (fe_heap s)(a := Some t'),
                  fe_caller := (fe_caller s)(a := C_release), fe_exchange := (fe_exchange s)(a := x')\<rparr>)"
| finish:
    "fe_caller s a = C_unlocked timed_out call_cancel \<or> fe_caller s a = C_grace \<and> timed_out \<Longrightarrow>
     fe_heap s a = Some t \<Longrightarrow> timed_out \<longrightarrow> t_done t \<Longrightarrow>
     exchange_finish timed_out (fe_mock s) t (fe_exchange s a) = (r, m, x') \<Longrightarrow>
     fe_step s (s\<lparr>fe_mock := m, fe_caller := (fe_caller s)(a := C_release),
                  fe_exchange := (fe_exchange s)(a := x')\<rparr>)"
| caller_release:
    "fe_caller s a = C_release \<Longrightarrow> fe_heap s a = Some t \<Longrightarrow>
     fe_step s (s\<lparr>fe_heap := (fe_heap s)(a := qcpu_task_release t),
                  fe_caller := (fe_caller s)(a := C_idle)\<rparr>)"
| worker_done:
    "fe_worker s a = W_run \<Longrightarrow> fe_heap s a = Some t \<Longrightarrow>
     qcpu_exchange_worker a result response (fe_mock s) t = (m, t') \<Longrightarrow>
     fe_step s (s\<lparr>fe_mock := m, fe_heap := (fe_heap s)(a := Some t'),
                  fe_worker := (fe_worker s)(a := W_release)\<rparr>)"
| worker_release:
    "fe_worker s a = W_release \<Longrightarrow> fe_heap s a = Some t \<Longrightarrow>
     fe_step s (s\<lparr>fe_heap := (fe_heap s)(a := qcpu_task_release t),
                  fe_worker := (fe_worker s)(a := W_none)\<rparr>)"
| set_backend:
    "qcpu_mock_set_backend ops context name (Some (fe_mock s)) = (r, Some m) \<Longrightarrow>
     fe_step s (s\<lparr>fe_mock := m\<rparr>)"
| open_session:
    "qcpu_mock_open opened fchmod flock (Some (fe_mock s)) = (r, Some m, fds) \<Longrightarrow>
     (\<forall>fd. opened = Inr fd \<longrightarrow> 0 \<le> fd) \<Longrightarrow>
     fe_step s (s\<lparr>fe_mock := m\<rparr>)"
| close_wait:
    "close_begin (active_abandoned s) (fe_mock s) = (Close_wait call_cancel, m) \<Longrightarrow>
     fe_closer s l = L_none \<Longrightarrow>
     fe_step s (s\<lparr>fe_mock := m, fe_closer := (fe_closer s)(l := L_wait)\<rparr>)"
| close_now:
    "close_begin (active_abandoned s) (fe_mock s) = (Close_now, m) \<Longrightarrow>
     close_finish unlocked close_res m = (r, m', fds) \<Longrightarrow>
     fe_step s (s\<lparr>fe_mock := m'\<rparr>)"
| close_wakeup:
    "fe_closer s l = L_wait \<Longrightarrow> \<not> m_busy (fe_mock s) \<Longrightarrow>
     close_finish unlocked close_res (fe_mock s) = (r, m', fds) \<Longrightarrow>
     fe_step s (s\<lparr>fe_mock := m', fe_closer := (fe_closer s)(l := L_none)\<rparr>)"

text \<open>A frontend that has just been created.\<close>

definition fe_init :: "fe_state \<Rightarrow> bool" where
  "fe_init s \<longleftrightarrow>
     (\<exists>env config. qcpu_mock_create env True (Some config) = Inr (fe_mock s)) \<and>
     fe_heap s = (\<lambda>_. None) \<and> fe_caller s = (\<lambda>_. C_idle) \<and> fe_worker s = (\<lambda>_. W_none) \<and>
     fe_closer s = (\<lambda>_. L_none) \<and> fe_started s = 0"

definition fe_reachable :: "fe_state \<Rightarrow> bool" where
  "fe_reachable s \<longleftrightarrow> (\<exists>s0. fe_init s0 \<and> fe_step\<^sup>*\<^sup>* s0 s)"

section \<open>The invariant\<close>

fun in_exchange :: "caller_pc \<Rightarrow> bool" where
  "in_exchange C_wait = True"
| "in_exchange (C_unlocked timed_out call_cancel) = True"
| "in_exchange C_grace = True"
| "in_exchange C_idle = False"
| "in_exchange C_release = False"

text \<open>What holds of every task address.\<close>

definition task_inv :: "fe_state \<Rightarrow> nat \<Rightarrow> bool" where
  "task_inv s a \<longleftrightarrow>
     (case fe_heap s a of
        None \<Rightarrow> fe_caller s a = C_idle \<and> fe_worker s a = W_none \<and> m_active_task (fe_mock s) \<noteq> Some a
      | Some t \<Rightarrow>
          t_references t = (if fe_caller s a \<noteq> C_idle then 1 else 0) + (if fe_worker s a \<noteq> W_none then 1 else 0) \<and>
          0 < t_references t \<and>
          (t_done t \<longleftrightarrow> fe_worker s a \<noteq> W_run) \<and>
          (in_exchange (fe_caller s a) \<longrightarrow> m_active_task (fe_mock s) = Some a \<and> \<not> t_caller_abandoned t) \<and>
          (fe_worker s a = W_run \<longrightarrow> m_active_task (fe_mock s) = Some a) \<and>
          (\<forall>cc. fe_caller s a = C_unlocked False cc \<longrightarrow> t_done t) \<and>
          (m_active_task (fe_mock s) = Some a \<longrightarrow>
             in_exchange (fe_caller s a) \<or> t_caller_abandoned t \<and> fe_worker s a = W_run))"

definition mock_inv :: "qcpu_mock \<Rightarrow> bool" where
  "mock_inv m \<longleftrightarrow>
     (m_busy m \<longleftrightarrow> m_active_task m \<noteq> None) \<and>
     (m_busy m \<longrightarrow> m_device_state m = QCPU_UAPI_DEVICE_BUSY \<and> m_backend_attached m \<and> m_session_open m) \<and>
     (\<not> m_busy m \<longrightarrow> \<not> m_cancel_requested m \<and>
        m_device_state m \<in> {QCPU_UAPI_DEVICE_OFFLINE, QCPU_UAPI_DEVICE_IDLE}) \<and>
     (m_cancel_requested m \<longleftrightarrow> m_cancel_sent m) \<and>
     (\<not> m_backend_attached m \<longrightarrow> m_device_state m = QCPU_UAPI_DEVICE_OFFLINE) \<and>
     (m_backend_attached m \<longrightarrow> op_exchange (m_backend_ops m) \<noteq> None) \<and>
     (m_session_open m \<longleftrightarrow> 0 \<le> m_lock_fd m)"

text \<open>Whether an exchange is under way that has not been counted yet.\<close>

definition pending :: "fe_state \<Rightarrow> nat" where
  "pending s =
     (case m_active_task (fe_mock s) of
        None \<Rightarrow> 0 | Some a \<Rightarrow> if in_exchange (fe_caller s a) then 1 else 0)"

definition counts_inv :: "fe_state \<Rightarrow> bool" where
  "counts_inv s \<longleftrightarrow>
     m_completed_requests (fe_mock s) + m_failed_requests (fe_mock s) + of_nat (pending s) =
       (of_nat (fe_started s) :: u64)"

definition fe_inv :: "fe_state \<Rightarrow> bool" where
  "fe_inv s \<longleftrightarrow> mock_inv (fe_mock s) \<and> (\<forall>a. task_inv s a) \<and> counts_inv s"

text \<open>Proving invariants of a step system, once.\<close>

locale invariant_system =
  fixes init :: "'s \<Rightarrow> bool" and step :: "'s \<Rightarrow> 's \<Rightarrow> bool" and inv :: "'s \<Rightarrow> bool"
  assumes init_inv: "init s \<Longrightarrow> inv s"
    and step_inv: "inv s \<Longrightarrow> step s s' \<Longrightarrow> inv s'"
begin

lemma steps_inv: "step\<^sup>*\<^sup>* s s' \<Longrightarrow> inv s \<Longrightarrow> inv s'"
  by (induction rule: rtranclp_induct) (auto intro: step_inv)

lemma reachable_inv: "\<exists>s0. init s0 \<and> step\<^sup>*\<^sup>* s0 s \<Longrightarrow> inv s"
  using init_inv steps_inv by blast

end

lemma create_inv:
  "qcpu_mock_create env out config = Inr m \<Longrightarrow>
     mock_inv m \<and> m_active_task m = None \<and> m_completed_requests m = 0 \<and> m_failed_requests m = 0"
  by (auto simp: mock_inv_def qcpu_mock_create_def create_backend_def qcpu_build_lock_path_def
      zero_mock_def Let_def uapi_device_defs split: if_split_asm sum.split_asm option.split_asm)

lemma fe_init_inv: "fe_init s \<Longrightarrow> fe_inv s"
  by (auto simp: fe_init_def fe_inv_def task_inv_def counts_inv_def pending_def dest: create_inv)

text \<open>What the first section of an exchange does to the state, by outcome.\<close>

lemma prevalidate_effect:
  assumes "qcpu_prevalidate_exchange_locked clock m x = (r, m', x')"
  shows "same_execution m m' \<and>
     (m_device_state m' = m_device_state m \<or> \<not> m_busy m \<and> m_device_state m' = QCPU_UAPI_DEVICE_OFFLINE) \<and>
     (\<forall>dl. r = Inr dl \<longrightarrow> m' = m \<and> \<not> m_busy m \<and> m_session_open m \<and> m_backend_attached m)"
  using assms
  by (auto simp: qcpu_prevalidate_exchange_locked_def reject_result qcpu_record_result_locked_def Let_def
      same_execution_def split: if_split_asm option.split_asm sum.split_asm)

lemma same_execution_inv:
  "mock_inv m \<Longrightarrow> same_execution m m' \<Longrightarrow>
     m_device_state m' = m_device_state m \<or> \<not> m_busy m \<and> m_device_state m' = QCPU_UAPI_DEVICE_OFFLINE \<Longrightarrow>
     mock_inv m'"
  by (auto simp: mock_inv_def same_execution_def)

text \<open>After a finished exchange the frontend is free again.\<close>

lemma finalize_effect:
  "m' = qcpu_finalize_exchange_locked offline success e st m \<Longrightarrow>
     m_busy m' = False \<and> m_cancel_requested m' = False \<and> m_cancel_sent m' = False \<and>
     m_active_task m' = m_active_task m \<and> m_session_open m' = m_session_open m \<and>
     m_lock_fd m' = m_lock_fd m \<and> m_backend_attached m' = m_backend_attached m \<and>
     m_backend_ops m' = m_backend_ops m \<and>
     m_device_state m' = (if offline \<or> \<not> m_backend_attached m then QCPU_UAPI_DEVICE_OFFLINE
                          else QCPU_UAPI_DEVICE_IDLE) \<and>
     m_completed_requests m' + m_failed_requests m' = m_completed_requests m + m_failed_requests m + 1"
  by (simp add: qcpu_finalize_exchange_locked_def qcpu_record_result_locked_def Let_def)

lemma finalize_inv:
  assumes "mock_inv m" and "m' = qcpu_finalize_exchange_locked offline success e st (m\<lparr>m_active_task := None\<rparr>)"
  shows "mock_inv m'"
  using finalize_effect [OF assms(2)] assms(1) by (auto simp: mock_inv_def)

text \<open>The first section of an exchange that ends in an error.\<close>

lemma begin_error_effect:
  assumes "exchange_begin env a m x = (Inl e, m', x')" and "mock_inv m"
  shows "mock_inv m' \<and> m_active_task m' = m_active_task m \<and>
     m_completed_requests m' + m_failed_requests m' =
       m_completed_requests m + m_failed_requests m + (if prevalidated env m x then 1 else 0)"
proof -
  obtain r m1 x1 where p: "qcpu_prevalidate_exchange_locked (be_clock env) m x = (r, m1, x1)"
    by (metis prod_cases3)
  note eff = prevalidate_effect [OF p]
  show ?thesis
  proof (cases r)
    case (Inl e1)
    then have "m' = m1" using assms(1) by (simp add: exchange_begin_def p)
    then show ?thesis
      using eff same_execution_inv [OF assms(2)] Inl by (auto simp: prevalidated_def p same_execution_def)
  next
    case (Inr dl)
    then have idle: "m1 = m" "\<not> m_busy m" "m_active_task m = None"
      using eff assms(2) by (auto simp: mock_inv_def)
    let ?b = "m\<lparr>m_busy := True, m_cancel_requested := False, m_cancel_sent := False,
       m_device_state := QCPU_UAPI_DEVICE_BUSY, m_active_task := Some a\<rparr>"
    obtain e2 m2 where m2: "m' = qcpu_finalize_exchange_locked False False e2 QCPU_UAPI_STATUS_IO m2"
        "m2 = m \<or> m2 = ?b\<lparr>m_active_task := None\<rparr>"
      using assms(1) Inr idle(1)
      by (auto simp: exchange_begin_def p exchange_spawn_failure_def Let_def split: if_split_asm)
    have fin: "mock_inv m'" using finalize_effect [OF m2(1)] m2(2) assms(2) idle
      by (auto simp: mock_inv_def)
    show ?thesis
      using finalize_effect [OF m2(1)] m2(2) fin idle Inr by (auto simp: prevalidated_def p)
  qed
qed

text \<open>The first section of an exchange that starts a worker.\<close>

lemma dispatch_effect:
  assumes "exchange_begin env a m x = (Inr t, m', x')" and "mock_inv m"
  shows "mock_inv m' \<and> m_active_task m = None \<and> m_active_task m' = Some a \<and> t_references t = 2 \<and> \<not> t_done t \<and>
     \<not> t_caller_abandoned t \<and> m_completed_requests m' = m_completed_requests m \<and>
     m_failed_requests m' = m_failed_requests m"
proof -
  obtain r m1 x1 where p: "qcpu_prevalidate_exchange_locked (be_clock env) m x = (r, m1, x1)"
    by (metis prod_cases3)
  obtain dl where r: "r = Inr dl" using assms(1) by (cases r) (auto simp: exchange_begin_def p)
  have idle: "m1 = m" "\<not> m_busy m" "m_active_task m = None" "m_session_open m" "m_backend_attached m"
    using prevalidate_effect [OF p] assms(2) r by (auto simp: mock_inv_def)
  show ?thesis
    using assms idle r by (auto simp: exchange_begin_def p Let_def mock_inv_def split: if_split_asm)
qed

text \<open>The invariant of an address only looks at that address and at the active task.\<close>

lemma task_inv_cong:
  assumes "fe_heap s' b = fe_heap s b" "fe_caller s' b = fe_caller s b" "fe_worker s' b = fe_worker s b"
    and "m_active_task (fe_mock s') = Some b \<longleftrightarrow> m_active_task (fe_mock s) = Some b"
  shows "task_inv s' b = task_inv s b"
  unfolding task_inv_def assms by (rule refl)

text \<open>Steps that leave the tasks alone.\<close>

lemma mock_only_inv:
  assumes "fe_inv s" and "mock_inv m" and "m_active_task m = m_active_task (fe_mock s)"
    and "m_completed_requests m + m_failed_requests m =
      m_completed_requests (fe_mock s) + m_failed_requests (fe_mock s) + of_nat n"
  shows "fe_inv (s\<lparr>fe_mock := m, fe_started := fe_started s + n\<rparr>)"
proof -
  let ?s = "s\<lparr>fe_mock := m, fe_started := fe_started s + n\<rparr>"
  have "task_inv ?s a" for a
    using assms(1,3) task_inv_cong [of ?s a s] by (simp add: fe_inv_def)
  moreover have "pending ?s = pending s" using assms(3) by (simp add: pending_def split: option.split)
  ultimately show ?thesis using assms by (simp add: fe_inv_def counts_inv_def algebra_simps)
qed

lemma mock_closer_inv:
  assumes "fe_inv s" and "mock_inv m" and "m_active_task m = m_active_task (fe_mock s)"
    and "m_completed_requests m = m_completed_requests (fe_mock s)"
    and "m_failed_requests m = m_failed_requests (fe_mock s)"
  shows "fe_inv (s\<lparr>fe_mock := m, fe_closer := c\<rparr>)"
proof -
  let ?s = "s\<lparr>fe_mock := m, fe_closer := c\<rparr>"
  have "task_inv ?s a" for a
    using assms(1,3) task_inv_cong [of ?s a s] by (simp add: fe_inv_def)
  moreover have "pending ?s = pending s" using assms(3) by (simp add: pending_def split: option.split)
  ultimately show ?thesis using assms by (simp add: fe_inv_def counts_inv_def)
qed

lemma set_backend_inv:
  "mock_inv m \<Longrightarrow> qcpu_mock_set_backend ops ctx name (Some m) = (r, Some m') \<Longrightarrow>
     mock_inv m' \<and> m_active_task m' = m_active_task m \<and>
     m_completed_requests m' = m_completed_requests m \<and> m_failed_requests m' = m_failed_requests m"
  by (auto simp: qcpu_mock_set_backend_def mock_inv_def split: if_split_asm option.split_asm)

lemma open_inv:
  "mock_inv m \<Longrightarrow> qcpu_mock_open opened fchmod flock (Some m) = (r, Some m', fds) \<Longrightarrow>
     \<forall>fd. opened = Inr fd \<longrightarrow> 0 \<le> fd \<Longrightarrow>
     mock_inv m' \<and> m_active_task m' = m_active_task m \<and>
     m_completed_requests m' = m_completed_requests m \<and> m_failed_requests m' = m_failed_requests m"
  by (auto simp: qcpu_mock_open_def mock_inv_def split: if_split_asm sum.split_asm)

lemma close_finish_inv:
  "mock_inv m \<Longrightarrow> \<not> m_busy m \<Longrightarrow> close_finish u c m = (r, m', fds) \<Longrightarrow>
     mock_inv m' \<and> m_active_task m' = m_active_task m \<and>
     m_completed_requests m' = m_completed_requests m \<and> m_failed_requests m' = m_failed_requests m"
  by (auto simp: close_finish_def mock_inv_def Let_def)

lemma request_cancel_inv:
  "mock_inv m \<Longrightarrow> qcpu_request_cancel_locked m = (b, m') \<Longrightarrow>
     mock_inv m' \<and> m_active_task m' = m_active_task m \<and> m_busy m' = m_busy m \<and>
     m_completed_requests m' = m_completed_requests m \<and> m_failed_requests m' = m_failed_requests m"
  by (auto simp: qcpu_request_cancel_locked_def mock_inv_def split: if_split_asm)

lemma close_begin_inv:
  "mock_inv m \<Longrightarrow> close_begin ab m = (n, m') \<Longrightarrow>
     mock_inv m' \<and> m_active_task m' = m_active_task m \<and> m_busy m' = m_busy m \<and>
     m_completed_requests m' = m_completed_requests m \<and> m_failed_requests m' = m_failed_requests m \<and>
     (n = Close_now \<longrightarrow> \<not> m_busy m)"
  by (auto simp: close_begin_def dest: request_cancel_inv split: if_split_asm prod.split_asm)

text \<open>The caller's and the worker's last sections.\<close>

lemma finish_effect:
  assumes "mock_inv m" and "exchange_finish timed_out m t x = (r, m', x')"
  shows "mock_inv m' \<and> m_active_task m' = None \<and>
     m_completed_requests m' + m_failed_requests m' = m_completed_requests m + m_failed_requests m + 1"
proof -
  obtain e st off where v: "exchange_verdict timed_out m t = (e, st, off)" by (metis prod_cases3)
  have m': "m' = qcpu_finalize_exchange_locked off (exchange_succeeds timed_out m t) e st (m\<lparr>m_active_task := None\<rparr>)"
    using assms(2) by (simp add: exchange_finish_def v Let_def)
  show ?thesis using finalize_effect [OF m'] finalize_inv [OF assms(1) m'] by auto
qed

lemma abandon_effect:
  "mock_inv m \<Longrightarrow> exchange_abandon m t x = (e, m', t', x') \<Longrightarrow>
     mock_inv m' \<and> m_active_task m' = m_active_task m \<and> t' = t\<lparr>t_caller_abandoned := True\<rparr> \<and>
     m_completed_requests m' + m_failed_requests m' = m_completed_requests m + m_failed_requests m + 1"
  by (auto simp: exchange_abandon_def qcpu_record_result_locked_def mock_inv_def)

lemma worker_effect:
  "mock_inv m \<Longrightarrow> qcpu_exchange_worker a result response m t = (m', t') \<Longrightarrow>
     mock_inv m' \<and> t' = t\<lparr>t_response := response, t_backend_result := result, t_done := True\<rparr> \<and>
     m_active_task m' = (if t_caller_abandoned t \<and> m_active_task m = Some a then None else m_active_task m) \<and>
     m_completed_requests m' = m_completed_requests m \<and> m_failed_requests m' = m_failed_requests m"
  by (auto simp: qcpu_exchange_worker_def Let_def mock_inv_def split: if_split_asm)

lemma request_cancel_wait:
  "exchange_wait_result w m t = Some (b, m') \<Longrightarrow> qcpu_request_cancel_locked m = (b, m')"
  by (auto simp: exchange_wait_result_def split: if_split_asm)

text \<open>Steps on one task.\<close>

lemma task_step_inv:
  assumes "fe_inv s" and "mock_inv (fe_mock s')" and "task_inv s' a"
    and "\<And>b. b \<noteq> a \<Longrightarrow> fe_heap s' b = fe_heap s b \<and> fe_caller s' b = fe_caller s b \<and>
      fe_worker s' b = fe_worker s b \<and>
      (m_active_task (fe_mock s') = Some b \<longleftrightarrow> m_active_task (fe_mock s) = Some b)"
    and "counts_inv s'"
  shows "fe_inv s'"
proof -
  have "task_inv s' b" for b
  proof (cases "b = a")
    case False
    then show ?thesis using assms(1,4) task_inv_cong [of s' b s] by (simp add: fe_inv_def)
  qed (use assms(3) in simp)
  then show ?thesis using assms(2,5) by (simp add: fe_inv_def)
qed

lemma fe_invD:
  assumes "fe_inv s"
  shows "mock_inv (fe_mock s)" and "task_inv s a" and "counts_inv s"
  using assms by (simp_all add: fe_inv_def)

lemma fe_step_inv: "fe_step s s' \<Longrightarrow> fe_inv s \<Longrightarrow> fe_inv s'"
proof (induction rule: fe_step.induct)
  case (begin_error env a s x e m x')
  show ?case
    using begin_error_effect [OF begin_error(1) fe_invD(1) [OF begin_error(3)]] begin_error(3)
    by (intro mock_only_inv) auto
next
  case (dispatch env a s x t m x')
  note d = dispatch_effect [OF dispatch(1) fe_invD(1) [OF dispatch(3)]]
  have ti: "task_inv s a" "counts_inv s" using dispatch(3) by (rule fe_invD)+
  show ?case
    by (rule task_step_inv [OF dispatch(3), where a = a])
      (use d ti dispatch(2) in \<open>auto simp: task_inv_def counts_inv_def pending_def\<close>)
next
  case (wait_done s a t)
  have ti: "task_inv s a" "counts_inv s" "mock_inv (fe_mock s)" using wait_done(4) by (rule fe_invD)+
  show ?case
    by (rule task_step_inv [OF wait_done(4), where a = a])
      (use wait_done ti in \<open>auto simp: task_inv_def counts_inv_def pending_def split: option.splits\<close>)
next
  case (wait_leave s a t w call_cancel m)
  have ti: "task_inv s a" "counts_inv s" "mock_inv (fe_mock s)" using wait_leave(4) by (rule fe_invD)+
  note c = request_cancel_inv [OF ti(3) request_cancel_wait [OF wait_leave(3)]]
  show ?case
    by (rule task_step_inv [OF wait_leave(4), where a = a])
      (use wait_leave ti c in \<open>auto simp: task_inv_def counts_inv_def pending_def split: option.splits\<close>)
next
  case (relock_grace s a call_cancel t clock d)
  have ti: "task_inv s a" "counts_inv s" "mock_inv (fe_mock s)" using relock_grace(5) by (rule fe_invD)+
  show ?case
    by (rule task_step_inv [OF relock_grace(5), where a = a])
      (use relock_grace ti in \<open>auto simp: task_inv_def counts_inv_def pending_def split: option.splits\<close>)
next
  case (abandon s a call_cancel clock w t e m t' x')
  have ti: "task_inv s a" "counts_inv s" "mock_inv (fe_mock s)" using abandon(5) by (rule fe_invD)+
  note c = abandon_effect [OF ti(3) abandon(4)]
  show ?case
    by (rule task_step_inv [OF abandon(5), where a = a])
      (use abandon(1-3) ti c in \<open>auto simp: task_inv_def counts_inv_def pending_def algebra_simps split: option.splits\<close>)
next
  case (finish s a timed_out call_cancel t r m x')
  have ti: "task_inv s a" "counts_inv s" "mock_inv (fe_mock s)" using finish(5) by (rule fe_invD)+
  note c = finish_effect [OF ti(3) finish(4)]
  show ?case
    by (rule task_step_inv [OF finish(5), where a = a])
      (use finish(1-3) ti c in \<open>auto simp: task_inv_def counts_inv_def pending_def algebra_simps split: option.splits\<close>)
next
  case (caller_release s a t)
  have ti: "task_inv s a" "counts_inv s" "mock_inv (fe_mock s)" using caller_release(3) by (rule fe_invD)+
  show ?case
    by (rule task_step_inv [OF caller_release(3), where a = a])
      (use caller_release(1,2) ti in \<open>auto simp: task_inv_def counts_inv_def pending_def qcpu_task_release_def split: option.splits\<close>)
next
  case (worker_done s a t result response m t')
  have ti: "task_inv s a" "counts_inv s" "mock_inv (fe_mock s)" using worker_done(4) by (rule fe_invD)+
  note c = worker_effect [OF ti(3) worker_done(3)]
  show ?case
    by (rule task_step_inv [OF worker_done(4), where a = a])
      (use worker_done(1,2) ti c in \<open>auto simp: task_inv_def counts_inv_def pending_def split: option.splits\<close>)
next
  case (worker_release s a t)
  have ti: "task_inv s a" "counts_inv s" "mock_inv (fe_mock s)" using worker_release(3) by (rule fe_invD)+
  show ?case
    by (rule task_step_inv [OF worker_release(3), where a = a])
      (use worker_release(1,2) ti in \<open>auto simp: task_inv_def counts_inv_def pending_def qcpu_task_release_def split: option.splits\<close>)
next
  case (set_backend ops ctx name s r m)
  show ?case
    using set_backend_inv [OF fe_invD(1) [OF set_backend(2)] set_backend(1)] set_backend(2)
      mock_only_inv [of s m 0] by simp
next
  case (open_session opened fchmod flock s r m fds)
  show ?case
    using open_inv [OF fe_invD(1) [OF open_session(3)] open_session(1,2)] open_session(3)
      mock_only_inv [of s m 0] by simp
next
  case (close_wait s call_cancel m l)
  show ?case
    using close_begin_inv [OF fe_invD(1) [OF close_wait(3)] close_wait(1)] close_wait(3)
    by (intro mock_closer_inv) auto
next
  case (close_now s m unlocked close_res r m' fds)
  have b: "mock_inv m \<and> m_active_task m = m_active_task (fe_mock s) \<and> m_busy m = m_busy (fe_mock s) \<and>
     m_completed_requests m = m_completed_requests (fe_mock s) \<and> m_failed_requests m = m_failed_requests (fe_mock s) \<and>
     \<not> m_busy (fe_mock s)"
    using close_begin_inv [OF fe_invD(1) [OF close_now(3)] close_now(1)] by simp
  show ?case
    using close_finish_inv [OF _ _ close_now(2)] b close_now(3) mock_only_inv [of s m' 0] by simp
next
  case (close_wakeup s l unlocked close_res r m' fds)
  show ?case
    using close_finish_inv [OF fe_invD(1) [OF close_wakeup(4)] close_wakeup(2,3)] close_wakeup(4)
    by (intro mock_closer_inv) auto
qed

interpretation fe: invariant_system fe_init fe_step fe_inv
  by unfold_locales (auto intro: fe_init_inv fe_step_inv)

lemma reachable_fe_inv: "fe_reachable s \<Longrightarrow> fe_inv s"
  unfolding fe_reachable_def by (rule fe.reachable_inv)

end
