(* ===== verification/Frontend_Properties.thy ===== *)
theory Frontend_Properties
  imports Frontend_Machine
begin

text \<open>
  What the invariant of \<open>Frontend_Machine\<close> gives: consistency of the reported state, at most one
  exchange in flight, memory safety of the tasks, the request counters, safe destruction, freedom
  from deadlock, the outcomes of an exchange, and that the machine refines the device states of the
  design document.
\<close>

section \<open>What every interleaving guarantees\<close>

lemma active_task:
  assumes "fe_inv s" and "fe_worker s a = W_run \<or> in_exchange (fe_caller s a)"
  shows "m_active_task (fe_mock s) = Some a"
  using fe_invD(2) [OF assms(1), of a] assms(2) by (auto simp: task_inv_def split: option.split_asm)


text \<open>
  C1: in every reachable state of the frontend, whatever threads call it and however their
  sections interleave: the device reports BUSY exactly while it is busy, it is busy only with an
  attached backend and an open session, without a backend it reports OFFLINE, it never reports
  ERROR, no cancel request outlives the exchange it was meant for, and a session is open exactly
  while the lock descriptor is held.
\<close>

theorem frontend_consistent:
  assumes "fe_reachable s"
  shows "(m_busy (fe_mock s) \<longleftrightarrow> m_device_state (fe_mock s) = QCPU_UAPI_DEVICE_BUSY) \<and>
     (m_busy (fe_mock s) \<longrightarrow> m_backend_attached (fe_mock s) \<and> m_session_open (fe_mock s)) \<and>
     (\<not> m_backend_attached (fe_mock s) \<longrightarrow> m_device_state (fe_mock s) = QCPU_UAPI_DEVICE_OFFLINE) \<and>
     m_device_state (fe_mock s) \<noteq> QCPU_UAPI_DEVICE_ERROR \<and>
     (m_cancel_requested (fe_mock s) \<longrightarrow> m_busy (fe_mock s)) \<and>
     (m_session_open (fe_mock s) \<longleftrightarrow> 0 \<le> m_lock_fd (fe_mock s))"
  using fe_invD(1) [OF reachable_fe_inv [OF assms]]
  by (auto simp: mock_inv_def uapi_device_defs)

text \<open>A reachable state to exhibit: a session is open and an exchange is under way.\<close>

definition sample_config :: qcpu_mock_config where
  "sample_config = \<lparr> cfg_runtime_dir = Some ''/r'', cfg_backend_name = None, cfg_driver_version = None,
     cfg_backend_ops = Some \<lparr>op_exchange = Some 1, op_cancel = Some 2\<rparr>, cfg_backend_context = Some 3 \<rparr>"

definition sample_create_env :: create_env where
  "sample_create_env = \<lparr> ce_calloc = True, ce_realpath = Inr ''/r'', ce_stat = Inr (True, True, 448),
     ce_mutex_init = 0, ce_condattr_init = 0, ce_setclock = 0, ce_cond_init = 0 \<rparr>"

definition sample_mock :: qcpu_mock where
  "sample_mock = (case qcpu_mock_create sample_create_env True (Some sample_config) of
     Inr m \<Rightarrow> m | Inl _ \<Rightarrow> zero_mock)"

definition sample_fe :: fe_state where
  "sample_fe = \<lparr> fe_mock = sample_mock, fe_heap = (\<lambda>_. None), fe_caller = (\<lambda>_. C_idle),
     fe_exchange = (\<lambda>_. None), fe_worker = (\<lambda>_. W_none), fe_closer = (\<lambda>_. L_none), fe_started = 0 \<rparr>"

lemma sample_create: "qcpu_mock_create sample_create_env True (Some sample_config) = Inr sample_mock"
proof -
  have "cstring (qcpu_copy_text PATH_MAX (Some ''/r'')) = ''/r''"
    by (simp add: cstring_def qcpu_copy_text_def PATH_MAX_def takeWhile_append)
  then have "\<exists>m. qcpu_mock_create sample_create_env True (Some sample_config) = Inr m"
    by (simp add: qcpu_mock_create_def sample_create_env_def sample_config_def create_backend_def
        qcpu_validate_runtime_directory_def qcpu_build_lock_path_def QCPU_MOCK_LOCK_FILE_def PATH_MAX_def)
  then show ?thesis by (auto simp: sample_mock_def)
qed

lemma sample_fe_init: "fe_init sample_fe"
  using sample_create by (auto simp: fe_init_def sample_fe_def)

lemma sample_fe_reachable: "fe_reachable sample_fe"
  using sample_fe_init by (auto simp: fe_reachable_def)


lemma create_fields:
  "qcpu_mock_create env out (Some c) = Inr m \<Longrightarrow> cfg_backend_ops c = Some ops \<Longrightarrow>
     \<not> m_session_open m \<and> \<not> m_busy m \<and> m_backend_attached m \<and> m_backend_ops m = ops \<and>
     m_device_state m = QCPU_UAPI_DEVICE_IDLE"
  by (auto simp: qcpu_mock_create_def create_backend_def zero_mock_def
      qcpu_build_lock_path_def Let_def split: sum.split_asm if_split_asm option.split_asm)

lemma sample_mock_fields:
  "m_session_open sample_mock = False" "m_busy sample_mock = False" "m_backend_attached sample_mock"
  "op_exchange (m_backend_ops sample_mock) = Some 1"
  using create_fields [OF sample_create] by (auto simp: sample_config_def)

definition sample_exchange :: qcpu_uapi_exchange_v1 where
  "sample_exchange = \<lparr> ux_request = sample_uapi_request, ux_timeout_ns = 0, ux_response = zero_uapi_response \<rparr>"

text \<open>A reachable state in which an exchange is under way.\<close>

lemma sample_busy:
  "\<exists>s t. fe_reachable s \<and> m_busy (fe_mock s) \<and> fe_caller s 0 = C_wait \<and> fe_worker s 0 = W_run \<and>
     fe_heap s 0 = Some t \<and> m_active_task (fe_mock s) = Some 0"
proof -
  let ?m1 = "sample_mock\<lparr>m_lock_fd := 5, m_session_open := True\<rparr>"
  let ?s1 = "sample_fe\<lparr>fe_mock := ?m1\<rparr>"
  have "fe_step sample_fe ?s1"
    by (rule open_session [where opened = "Inr 5" and fchmod = 0 and flock = 0 and r = "Inr ()" and fds = "[]"])
      (simp_all add: qcpu_mock_open_def sample_fe_def sample_mock_fields)
  moreover have "check_request sample_uapi_request = None"
    by (simp add: check_request_def sample_uapi_request_def uapi_consts)
  moreover have "exchange_deadline 0 (Some (1, 0)) = Inr 2000000000"
    by (simp add: exchange_deadline_def QCPU_MOCK_DEFAULT_TIMEOUT_NS_def QCPU_MOCK_MAX_TIMEOUT_NS_def
        qcpu_timespec_to_ns_def)
  ultimately obtain t m x where b: "exchange_begin \<lparr>be_clock = Some (1, 0), be_calloc = True, be_attr_result = 0,
      be_create_result = 0\<rparr> 0 (fe_mock ?s1) (Some sample_exchange) = (Inr t, m, x)"
      "m_busy m" "m_active_task m = Some 0"
    by (simp add: exchange_begin_def qcpu_prevalidate_exchange_locked_def sample_exchange_def Let_def sample_mock_fields)
  have "fe_step\<^sup>*\<^sup>* sample_fe ?s1" using \<open>fe_step sample_fe ?s1\<close> by blast
  moreover have "fe_step ?s1 (?s1\<lparr>fe_mock := m, fe_heap := (fe_heap ?s1)(0 := Some t),
      fe_caller := (fe_caller ?s1)(0 := C_wait), fe_exchange := (fe_exchange ?s1)(0 := x),
      fe_worker := (fe_worker ?s1)(0 := W_run), fe_started := fe_started ?s1 + 1\<rparr>)" (is "fe_step _ ?s2")
    using b(1) by (rule dispatch) (simp add: sample_fe_def)
  ultimately have "fe_reachable ?s2"
    using sample_fe_init unfolding fe_reachable_def by (meson rtranclp.rtrancl_into_rtrancl)
  then show ?thesis using b by (intro exI [of _ ?s2] exI [of _ t]) simp
qed

theorem frontend_consistent_witness:
  "\<exists>s :: fe_state. m_busy (fe_mock s) \<and> m_device_state (fe_mock s) = QCPU_UAPI_DEVICE_BUSY \<and>
     m_session_open (fe_mock s) \<and> 0 \<le> m_lock_fd (fe_mock s)"
  using sample_busy frontend_consistent by blast

text \<open>
  C2: at most one exchange is in flight: two workers that are both inside the backend are the same
  worker, two callers that are both inside an exchange are the same caller, and the running worker
  and the waiting caller belong to the same task, the active one.
\<close>

theorem single_in_flight:
  assumes "fe_reachable s"
  shows "(fe_worker s a = W_run \<and> fe_worker s b = W_run \<longrightarrow> a = b) \<and>
     (in_exchange (fe_caller s a) \<and> in_exchange (fe_caller s b) \<longrightarrow> a = b) \<and>
     (fe_worker s a = W_run \<and> in_exchange (fe_caller s b) \<longrightarrow> a = b) \<and>
     (fe_worker s a = W_run \<or> in_exchange (fe_caller s a) \<longrightarrow> m_active_task (fe_mock s) = Some a)"
  using active_task [OF reachable_fe_inv [OF assms], of a] active_task [OF reachable_fe_inv [OF assms], of b]
  by auto

theorem single_in_flight_witness:
  "\<exists>s :: fe_state. fe_worker s 0 = W_run \<and> m_active_task (fe_mock s) = Some 0 \<and> fe_worker s 1 \<noteq> W_run"
proof -
  obtain s t where s: "fe_reachable s" "fe_worker s 0 = W_run" using sample_busy by blast
  then show ?thesis using single_in_flight [OF s(1), of 0 1] by (intro exI [of _ s]) auto
qed

text \<open>
  C3: memory safety of tasks: a task is allocated exactly as long as its caller or its worker still
  holds a reference, its reference count is the number of holders, and the task that the
  frontend points to is allocated; so no thread touches a freed task, none is freed twice, and
  none is left allocated by threads that have returned.
\<close>

theorem task_memory_safe:
  assumes "fe_reachable s"
  shows "(fe_heap s a \<noteq> None \<longleftrightarrow> fe_caller s a \<noteq> C_idle \<or> fe_worker s a \<noteq> W_none) \<and>
     (\<forall>t. fe_heap s a = Some t \<longrightarrow> t_references t =
        (if fe_caller s a \<noteq> C_idle then 1 else 0) + (if fe_worker s a \<noteq> W_none then 1 else 0)) \<and>
     (m_active_task (fe_mock s) = Some a \<longrightarrow> fe_heap s a \<noteq> None)"
  using fe_invD(2) [OF reachable_fe_inv [OF assms], of a]
  by (auto simp: task_inv_def split: option.split_asm if_split_asm)

theorem task_memory_safe_witness:
  "\<exists>(s :: fe_state) t. fe_heap s 0 = Some t \<and> t_references t = 2"
proof -
  obtain s t where s: "fe_reachable s" "fe_caller s 0 = C_wait" "fe_worker s 0 = W_run" "fe_heap s 0 = Some t"
    using sample_busy by blast
  then have "t_references t = 2" using task_memory_safe [OF s(1), of 0] by simp
  then show ?thesis using s(4) by blast
qed

text \<open>
  C17: the request counters: modulo \<open>2 ^ 64\<close>, completed and failed requests together are the
  number of exchanges that passed validation, less the one that is still waiting for its result.
\<close>

theorem counters_account:
  assumes "fe_reachable s"
  shows "m_completed_requests (fe_mock s) + m_failed_requests (fe_mock s) + of_nat (pending s) =
       of_nat (fe_started s) \<and>
     (pending s = 1 \<longleftrightarrow> (\<exists>a. in_exchange (fe_caller s a))) \<and> pending s \<le> 1"
proof -
  note inv = reachable_fe_inv [OF assms]
  have "pending s = 1" if "in_exchange (fe_caller s a)" for a
    using active_task [OF inv, of a] that by (simp add: pending_def)
  moreover have "\<exists>a. in_exchange (fe_caller s a)" if "pending s = 1"
    using that by (auto simp: pending_def split: option.split_asm if_split_asm)
  moreover have "pending s \<le> 1" by (simp add: pending_def split: option.split)
  ultimately show ?thesis using fe_invD(3) [OF inv] by (auto simp: counts_inv_def)
qed

theorem counters_account_witness:
  "\<exists>s :: fe_state. pending s = 1 \<and> m_completed_requests (fe_mock s) + m_failed_requests (fe_mock s) + 1 = of_nat (fe_started s)"
proof -
  obtain s t where s: "fe_reachable s" "fe_caller s 0 = C_wait" using sample_busy by blast
  then have "in_exchange (fe_caller s 0)" by simp
  then have "pending s = 1" using counters_account [OF s(1)] by blast
  then show ?thesis using counters_account [OF s(1)] by (metis of_nat_1)
qed

text \<open>
  C15: \<^verbatim>\<open>qcpu_mock_destroy\<close> only frees a quiescent frontend: when it succeeds in a reachable state, no
  session is open, no worker is still inside the backend and no caller is inside an exchange, so
  nobody will take the destroyed mutex for an exchange.
\<close>

theorem destroy_quiescent:
  assumes "fe_reachable s" and "qcpu_mock_destroy c1 c2 (Some (fe_mock s)) = Inr ()"
  shows "\<not> m_session_open (fe_mock s) \<and> m_lock_fd (fe_mock s) < 0 \<and>
     (\<forall>a. fe_worker s a \<noteq> W_run \<and> \<not> in_exchange (fe_caller s a))"
proof -
  note inv = reachable_fe_inv [OF assms(1)]
  have idle: "\<not> m_session_open (fe_mock s)" "\<not> m_busy (fe_mock s)"
    using assms(2) by (auto simp: qcpu_mock_destroy_def split: if_split_asm)
  then have "m_active_task (fe_mock s) = None" "m_lock_fd (fe_mock s) < 0"
    using fe_invD(1) [OF inv] by (auto simp: mock_inv_def)
  then show ?thesis using idle active_task [OF inv] by fastforce
qed

theorem destroy_quiescent_witness:
  "\<not> m_session_open (fe_mock sample_fe) \<and> fe_worker sample_fe 0 \<noteq> W_run"
proof -
  have "qcpu_mock_destroy 0 0 (Some (fe_mock sample_fe)) = Inr ()"
    by (simp add: qcpu_mock_destroy_def sample_fe_def sample_mock_fields)
  then show ?thesis using destroy_quiescent [OF sample_fe_reachable] by blast
qed

section \<open>Progress\<close>

text \<open>A step of the machine after some steps.\<close>

lemma steps_then: "fe_step\<^sup>*\<^sup>* s s1 \<Longrightarrow> fe_step s1 s2 \<Longrightarrow> fe_step\<^sup>*\<^sup>* s s2"
  by (rule rtranclp.rtrancl_into_rtrancl)

lemma finish_not_busy: "exchange_finish b m t x = (r, m', x') \<Longrightarrow> \<not> m_busy m'"
  by (auto simp: exchange_finish_def Let_def finalize_effect [OF refl] split: prod.split_asm)

text \<open>A caller whose task is done can leave its exchange.\<close>

lemma done_can_finish:
  assumes "fe_inv s" and "in_exchange (fe_caller s a)" and "fe_heap s a = Some t" and "t_done t"
  shows "\<exists>s'. fe_step\<^sup>*\<^sup>* s s' \<and> \<not> m_busy (fe_mock s')"
proof -
  have fin: "\<exists>s2. fe_step s1 s2 \<and> \<not> m_busy (fe_mock s2)"
    if "fe_caller s1 a = C_unlocked b cc \<or> fe_caller s1 a = C_grace \<and> b" "fe_heap s1 a = Some t" for s1 b cc
  proof -
    obtain r m x where f: "exchange_finish b (fe_mock s1) t (fe_exchange s1 a) = (r, m, x)"
      by (metis prod_cases3)
    then have "\<not> m_busy m" by (rule finish_not_busy)
    moreover have "fe_step s1 (s1\<lparr>fe_mock := m, fe_caller := (fe_caller s1)(a := C_release),
        fe_exchange := (fe_exchange s1)(a := x)\<rparr>)"
      using that f assms(4) by (intro finish [where timed_out = b and call_cancel = cc]) auto
    ultimately show ?thesis by (intro exI conjI) (assumption, simp)
  qed
  show ?thesis
  proof (cases "fe_caller s a")
    case C_wait
    let ?s1 = "s\<lparr>fe_caller := (fe_caller s)(a := C_unlocked False False)\<rparr>"
    have "fe_step s ?s1" using C_wait assms by (intro wait_done)
    moreover obtain s2 where "fe_step ?s1 s2" "\<not> m_busy (fe_mock s2)"
      using fin [of ?s1 False False] assms(3) by auto
    ultimately show ?thesis by (meson converse_rtranclp_into_rtranclp r_into_rtranclp)
  next
    case (C_unlocked b cc)
    then show ?thesis using fin [of s b cc] assms(3) by blast
  next
    case C_grace
    then show ?thesis using fin [of s True] assms(3) by blast
  qed (use assms in auto)
qed

text \<open>
  C16: the frontend never gets stuck busy: from every reachable busy state there is a continuation
  (the backend returns, the caller takes its result) in which it is free again, so a thread waiting
  in \<^verbatim>\<open>qcpu_mock_close\<close> can always be woken.
\<close>

theorem busy_can_end:
  assumes "fe_reachable s"
  shows "\<exists>s'. fe_step\<^sup>*\<^sup>* s s' \<and> \<not> m_busy (fe_mock s')"
proof (cases "m_busy (fe_mock s)")
  case True
  note inv = reachable_fe_inv [OF assms]
  obtain a where a: "m_active_task (fe_mock s) = Some a" using True fe_invD(1) [OF inv] by (auto simp: mock_inv_def)
  then obtain t where t: "fe_heap s a = Some t"
      "in_exchange (fe_caller s a) \<or> t_caller_abandoned t \<and> fe_worker s a = W_run" "t_done t \<longleftrightarrow> fe_worker s a \<noteq> W_run"
    using fe_invD(2) [OF inv, of a] by (auto simp: task_inv_def split: option.split_asm)
  show ?thesis
  proof (cases "t_done t")
    case True
    then show ?thesis using done_can_finish [OF inv] t by auto
  next
    case False
    obtain m t' where w: "qcpu_exchange_worker a 0 zero_uapi_response (fe_mock s) t = (m, t')" by force
    let ?s1 = "s\<lparr>fe_mock := m, fe_heap := (fe_heap s)(a := Some t'), fe_worker := (fe_worker s)(a := W_release)\<rparr>"
    have step: "fe_step s ?s1" using t False w by (intro worker_done) auto
    have inv1: "fe_inv ?s1" by (rule fe_step_inv [OF step inv])
    show ?thesis
    proof (cases "in_exchange (fe_caller s a)")
      case True
      have "t_done t'" using w by (auto simp: qcpu_exchange_worker_def Let_def split: if_split_asm)
      then obtain s2 where "fe_step\<^sup>*\<^sup>* ?s1 s2" "\<not> m_busy (fe_mock s2)"
        using done_can_finish [OF inv1, of a t'] True by auto
      then show ?thesis using step by (meson converse_rtranclp_into_rtranclp)
    next
      case no: False
      then have "\<not> m_busy m" using w t a by (auto simp: qcpu_exchange_worker_def Let_def)
      then show ?thesis using step by (intro exI [of _ ?s1]) auto
    qed
  qed
qed blast

theorem busy_can_end_witness:
  "\<exists>s s'. m_busy (fe_mock s) \<and> fe_step\<^sup>*\<^sup>* s s' \<and> \<not> m_busy (fe_mock s')"
  using sample_busy busy_can_end by blast

section \<open>Outcomes of an exchange\<close>

lemma status_errno_nonzero: "st \<noteq> QCPU_UAPI_STATUS_OK \<Longrightarrow> qcpu_status_to_errno st \<noteq> 0"
  by (simp add: qcpu_status_to_errno_def errno_defs)

lemma validate_failure:
  "qcpu_validate_backend_response request response = Inl (e, st, off) \<Longrightarrow>
     e \<noteq> 0 \<and> st \<noteq> QCPU_UAPI_STATUS_OK \<and> qcpu_status_known st"
  by (auto simp: qcpu_validate_backend_response_def Let_def EIO_def status_errno_nonzero
      split: if_split_asm) (auto simp: uapi_status_defs qcpu_status_known_def)

lemma verdict_failure:
  assumes "\<not> exchange_succeeds timed_out m t" and "exchange_verdict timed_out m t = (e, st, off)"
  shows "e \<noteq> 0 \<and> st \<noteq> QCPU_UAPI_STATUS_OK \<and> qcpu_status_known st"
  using assms
  by (auto simp: exchange_succeeds_def exchange_verdict_def validate_failure status_errno_nonzero
      split: if_split_asm sum.split_asm)
    (auto simp: uapi_status_defs errno_defs qcpu_status_known_def)

lemma verdict_success:
  "exchange_succeeds timed_out m t \<Longrightarrow> exchange_verdict timed_out m t = (0, QCPU_UAPI_STATUS_OK, False)"
  by (simp add: exchange_succeeds_def exchange_verdict_def ECANCELED_def)

lemma finalize_records:
  "m_last_errno (qcpu_finalize_exchange_locked off ok e st m) = e"
  "m_last_protocol_status (qcpu_finalize_exchange_locked off ok e st m) = st"
  "m_completed_requests (qcpu_finalize_exchange_locked off ok e st m) = m_completed_requests m + (if ok then 1 else 0)"
  "m_failed_requests (qcpu_finalize_exchange_locked off ok e st m) = m_failed_requests m + (if ok then 0 else 1)"
  by (simp_all add: qcpu_finalize_exchange_locked_def qcpu_record_result_locked_def Let_def)

text \<open>The response of a failed exchange: a status, and nothing of what the backend sent.\<close>

definition failure_response :: "u32 \<Rightarrow> qcpu_uapi_request_v1 \<Rightarrow> qcpu_uapi_response_v1" where
  "failure_response st request =
     \<lparr> ur_magic = 0x51525631, ur_version = 1, ur_status = ucast st, ur_flags = 15,
       ur_qubits = uq_qubits request, ur_basis_states = 0, ur_shots = ucast (uq_shots request),
       ur_measured_state = 0, ur_invalid_results = 0, ur_norm_q32_32 = 0 \<rparr>"

lemma set_failure_response_eq:
  "qcpu_set_failure_response st (Some x) = Some (x\<lparr>ux_response := failure_response st (ux_request x)\<rparr>)"
  by (simp add: qcpu_set_failure_response_def failure_response_def zero_uapi_response_def uapi_consts required_flags)

text \<open>
  C12: how an exchange ends.  It succeeds exactly when it did not time out, was not cancelled, the
  backend returned 0 and its response is good for the request; then the caller gets the backend's
  response and the completed counter goes up by one.  Otherwise the failed counter goes up by one,
  the error number is not zero and is recorded, and the response is a failure response with a known
  status other than OK that carries nothing of the backend's response.
\<close>

theorem exchange_outcome:
  assumes "exchange_finish timed_out m t (Some x) = (r, m', Some x')"
  shows "(r = Inr () \<longleftrightarrow> \<not> timed_out \<and> \<not> m_cancel_requested m \<and> t_backend_result t = 0 \<and>
        good_response (t_request t) (t_response t)) \<and>
     (r = Inr () \<longrightarrow> ux_response x' = t_response t \<and> m_last_errno m' = 0 \<and>
        m_completed_requests m' = m_completed_requests m + 1 \<and> m_failed_requests m' = m_failed_requests m) \<and>
     (\<forall>e. r = Inl e \<longrightarrow> e \<noteq> 0 \<and> m_last_errno m' = e \<and> m_completed_requests m' = m_completed_requests m \<and>
        m_failed_requests m' = m_failed_requests m + 1 \<and> m_last_protocol_status m' \<noteq> QCPU_UAPI_STATUS_OK \<and>
        qcpu_status_known (m_last_protocol_status m') \<and>
        ux_response x' = failure_response (m_last_protocol_status m') (ux_request x))"
proof -
  obtain e st off where v: "exchange_verdict timed_out m t = (e, st, off)" by (metis prod_cases3)
  have succ: "exchange_succeeds timed_out m t \<longleftrightarrow> \<not> timed_out \<and> \<not> m_cancel_requested m \<and>
      t_backend_result t = 0 \<and> good_response (t_request t) (t_response t)"
    by (simp add: exchange_succeeds_def validate_iff_good)
  show ?thesis
  proof (cases "exchange_succeeds timed_out m t")
    case True
    then have "r = Inr ()" "x' = x\<lparr>ux_response := t_response t\<rparr>"
      "m' = qcpu_finalize_exchange_locked False True 0 QCPU_UAPI_STATUS_OK (m\<lparr>m_active_task := None\<rparr>)"
      using assms verdict_success [OF True] by (simp_all add: exchange_finish_def)
    then show ?thesis using True succ by (simp add: finalize_records)
  next
    case False
    then have "r = Inl e" "x' = x\<lparr>ux_response := failure_response st (ux_request x)\<rparr>"
      "m' = qcpu_finalize_exchange_locked off False e st (m\<lparr>m_active_task := None\<rparr>)"
      using assms v by (simp_all add: exchange_finish_def set_failure_response_eq)
    then show ?thesis using False succ verdict_failure [OF False v] by (simp add: finalize_records)
  qed
qed

definition sample_task :: qcpu_exchange_task where
  "sample_task = \<lparr> t_references = 2, t_backend_ops = \<lparr>op_exchange = Some 1, op_cancel = None\<rparr>,
     t_backend_context = None, t_request = sample_uapi_request, t_response = sample_uapi_response,
     t_absolute_deadline_ns = 9, t_backend_result = 0, t_done = True, t_caller_abandoned = False \<rparr>"

theorem exchange_outcome_witness:
  "\<exists>m' x'. exchange_finish False zero_mock sample_task (Some sample_exchange) = (Inr (), m', Some x') \<and>
     ux_response x' = sample_uapi_response \<and> m_completed_requests m' = 1"
proof -
  have "exchange_succeeds False zero_mock sample_task"
    using sample_response_good by (simp add: exchange_succeeds_def sample_task_def zero_mock_def validate_iff_good)
  then obtain m' x' where f: "exchange_finish False zero_mock sample_task (Some sample_exchange) = (Inr (), m', Some x')"
    by (simp add: exchange_finish_def verdict_success)
  have "ux_response x' = t_response sample_task" "m_completed_requests m' = m_completed_requests zero_mock + 1"
    using exchange_outcome [OF f] by blast+
  then have "ux_response x' = sample_uapi_response \<and> m_completed_requests m' = 1"
    by (simp add: sample_task_def zero_mock_def)
  then show ?thesis using f by blast
qed

text \<open>
  An exchange whose wait ends at the deadline is reported as timed out even when its task has
  already finished with a good response: the test for the deadline that spares finished tasks is
  followed by one that does not.
\<close>

theorem finished_at_deadline_times_out:
  assumes "t_done t" and "t_backend_result t = 0" and "good_response (t_request t) (t_response t)"
  shows "\<exists>call_cancel m'. exchange_wait_result ETIMEDOUT m t = Some (call_cancel, m') \<and>
     fst (exchange_finish True m' t x) = Inl ETIMEDOUT"
  by (auto simp: exchange_wait_result_def exchange_finish_def exchange_verdict_def exchange_succeeds_def
      errno_defs qcpu_request_cancel_locked_def)

theorem finished_at_deadline_times_out_witness:
  "\<exists>call_cancel m'. exchange_wait_result ETIMEDOUT sample_mock sample_task = Some (call_cancel, m') \<and>
     fst (exchange_finish True m' sample_task (Some sample_exchange)) = Inl ETIMEDOUT"
  by (rule finished_at_deadline_times_out)
    (use sample_response_good in \<open>simp_all add: sample_task_def\<close>)

section \<open>The documented device states\<close>

text \<open>
  The state diagram of the Stage 2 design document
  (\<^verbatim>\<open>src/docs/QCPU_V47_STAGE2_USERSPACE_MOCK_DESIGN.md\<close>, State machine), arrow by arrow, and what its
  labels mean on the frontend.
\<close>

datatype device_state = Offline | Idle | Busy | Error

datatype device_event = Attached | Begins | Ends | Disconnects | Detached | Breaks | Recreated

inductive diagram :: "device_state \<Rightarrow> device_event \<Rightarrow> device_state \<Rightarrow> bool" where
  "diagram Offline Attached Idle"
| "diagram Idle Begins Busy"
| "diagram Busy Ends Idle"
| "diagram Busy Disconnects Offline"
| "diagram Idle Detached Offline"
| "diagram Idle Breaks Error"
| "diagram Busy Breaks Error"
| "diagram Error Recreated Idle"
| "diagram Error Recreated Offline"

inductive_simps diagram_simps [simp]: "diagram d ev d'"

definition device :: "qcpu_mock \<Rightarrow> device_state" where
  "device m =
     (if m_device_state m = QCPU_UAPI_DEVICE_BUSY then Busy
      else if m_device_state m = QCPU_UAPI_DEVICE_IDLE then Idle
      else if m_device_state m = QCPU_UAPI_DEVICE_OFFLINE then Offline
      else Error)"

















text \<open>The exception is real: an offline device with its backend attached admits an exchange and becomes busy.\<close>

theorem offline_device_starts_exchange:
  assumes "prevalidated env m (Some x)" and "be_calloc env" and "be_attr_result env = 0" and "be_create_result env = 0"
    and "device m = Offline"
  shows "m_backend_attached m \<and> (\<exists>t m' x'. exchange_begin env a m (Some x) = (Inr t, m', x') \<and> device m' = Busy)"
proof -
  obtain d m1 x1 where p: "qcpu_prevalidate_exchange_locked (be_clock env) m (Some x) = (Inr d, m1, x1)"
    using assms(1) unfolding prevalidated_def
    by (cases "qcpu_prevalidate_exchange_locked (be_clock env) m (Some x)") (auto split: sum.split_asm)
  then have "m_backend_attached m"
    by (auto simp: qcpu_prevalidate_exchange_locked_def reject_result Let_def
        split: if_split_asm option.split_asm sum.split_asm)
  then show ?thesis using p assms(2-4) by (simp add: exchange_begin_def Let_def device_def)
qed

end
