(* ===== verification/Adapter.thy ===== *)
theory Adapter
  imports Qcpud Frontend
begin

text \<open>
  The backend that connects the frontend to the daemon, \<^verbatim>\<open>src/src/device/qcpu_qcpud_adapter.c\<close>.  An
  exchange runs over the scripted system calls of \<open>Posix\<close>; a cancel call of another thread can come
  in before any of its critical sections, which is a result \<open>Ev_cancel\<close> of the script.
\<close>

section \<open>State and critical sections\<close>

record qcpu_qcpud_adapter =
  ad_socket_path :: string
  ad_active_fd :: int
  ad_active :: bool
  ad_cancel_requested :: bool

definition qcpu_qcpud_cancel :: "qcpu_qcpud_adapter option \<Rightarrow> os \<Rightarrow> int \<times> qcpu_qcpud_adapter option \<times> os" where
  "qcpu_qcpud_cancel adapter s =
     (case adapter of
        None \<Rightarrow> (- EINVAL, None, s)
      | Some ad \<Rightarrow>
          if ad_active ad
          then (0, Some (ad\<lparr>ad_cancel_requested := True\<rparr>),
                if ad_active_fd ad \<ge> 0 then act (Act_shut (ad_active_fd ad) 2) s else s)
          else (0, Some ad, s))"

text \<open>Taking the mutex: a pending cancel of another thread has run by then.\<close>

definition adapter_lock :: "qcpu_qcpud_adapter \<Rightarrow> os \<Rightarrow> (qcpu_qcpud_adapter \<times> os) option" where
  "adapter_lock ad s =
     do { (b, s) \<leftarrow> sys_cancel s;
          if b then (case qcpu_qcpud_cancel (Some ad) s of (_, ad', s') \<Rightarrow> Some (the ad', s'))
          else Some (ad, s) }"

definition qcpu_adapter_now_ns :: "os \<Rightarrow> (u64 \<times> os) option" where
  "qcpu_adapter_now_ns s =
     do { (now, s) \<leftarrow> sys_clock s;
          case now of None \<Rightarrow> Some (- 1, s)
          | Some (tv_sec, tv_nsec) \<Rightarrow> Some (word_of_int tv_sec * 1000000000 + word_of_int tv_nsec, s) }"

definition qcpu_adapter_remaining_ms :: "u64 \<Rightarrow> os \<Rightarrow> (int \<times> os) option" where
  "qcpu_adapter_remaining_ms absolute_deadline_ns s =
     do { (now_ns, s) \<leftarrow> qcpu_adapter_now_ns s;
          if now_ns = - 1 \<or> now_ns \<ge> absolute_deadline_ns then Some (0, s)
          else let remaining_ns = absolute_deadline_ns - now_ns;
                   remaining_ms = remaining_ns div 1000000;
                   remaining_ms = (if remaining_ns mod 1000000 \<noteq> 0 then remaining_ms + 1 else remaining_ms)
               in Some (if remaining_ms > word_of_int INT_MAX then INT_MAX else uint remaining_ms, s) }"

definition qcpu_adapter_is_canceled :: "qcpu_qcpud_adapter \<Rightarrow> os \<Rightarrow> (bool \<times> qcpu_qcpud_adapter \<times> os) option" where
  "qcpu_adapter_is_canceled ad s =
     do { (ad, s) \<leftarrow> adapter_lock ad s; Some (ad_cancel_requested ad, ad, s) }"

definition qcpu_adapter_begin :: "qcpu_qcpud_adapter \<Rightarrow> os \<Rightarrow> (int \<times> qcpu_qcpud_adapter \<times> os) option" where
  "qcpu_adapter_begin ad s =
     do { (ad, s) \<leftarrow> adapter_lock ad s;
          if ad_active ad then Some (- EBUSY, ad, s)
          else Some (0, ad\<lparr>ad_active := True, ad_cancel_requested := False, ad_active_fd := - 1\<rparr>, s) }"

definition qcpu_adapter_register_fd ::
  "int \<Rightarrow> qcpu_qcpud_adapter \<Rightarrow> os \<Rightarrow> (bool \<times> qcpu_qcpud_adapter \<times> os) option" where
  "qcpu_adapter_register_fd fd ad s =
     do { (ad, s) \<leftarrow> adapter_lock ad s;
          let ad = ad\<lparr>ad_active_fd := fd\<rparr> in
          Some (ad_cancel_requested ad, ad, if ad_cancel_requested ad then act (Act_shut fd 2) s else s) }"

definition qcpu_adapter_finish ::
  "int \<Rightarrow> int \<Rightarrow> qcpu_qcpud_adapter \<Rightarrow> os \<Rightarrow> (int \<times> qcpu_qcpud_adapter \<times> os) option" where
  "qcpu_adapter_finish fd result ad s =
     do { (ad, s) \<leftarrow> adapter_lock ad s;
          Some (if ad_cancel_requested ad then - ECANCELED else result,
                ad\<lparr>ad_active_fd := - 1, ad_active := False, ad_cancel_requested := False\<rparr>,
                if fd \<ge> 0 then close_fd fd s else s) }"

section \<open>Translation\<close>

definition qcpu_adapter_status :: "u16 \<Rightarrow> u16" where
  "qcpu_adapter_status status =
     (if status = device_status_code QCPU_DEVICE_STATUS_OK then ucast QCPU_UAPI_STATUS_OK
      else if status = device_status_code QCPU_DEVICE_STATUS_BAD_MAGIC then ucast QCPU_UAPI_STATUS_BAD_MAGIC
      else if status = device_status_code QCPU_DEVICE_STATUS_BAD_VERSION then ucast QCPU_UAPI_STATUS_BAD_VERSION
      else if status = device_status_code QCPU_DEVICE_STATUS_BAD_COMMAND then ucast QCPU_UAPI_STATUS_BAD_COMMAND
      else if status = device_status_code QCPU_DEVICE_STATUS_RANGE then ucast QCPU_UAPI_STATUS_RANGE
      else if status = device_status_code QCPU_DEVICE_STATUS_KERNEL then ucast QCPU_UAPI_STATUS_KERNEL
      else if status = device_status_code QCPU_DEVICE_STATUS_IO then ucast QCPU_UAPI_STATUS_IO
      else ucast QCPU_UAPI_STATUS_IO)"

definition qcpu_adapter_status_result :: "u16 \<Rightarrow> int" where
  "qcpu_adapter_status_result status =
     (if status = ucast QCPU_UAPI_STATUS_OK then 0
      else if status = ucast QCPU_UAPI_STATUS_BAD_MAGIC then - EPROTO
      else if status = ucast QCPU_UAPI_STATUS_BAD_VERSION then - EPROTONOSUPPORT
      else if status = ucast QCPU_UAPI_STATUS_BAD_COMMAND then - EOPNOTSUPP
      else if status = ucast QCPU_UAPI_STATUS_RANGE then - ERANGE
      else - EIO)"

definition qcpu_adapter_flags :: "u32 \<Rightarrow> u32" where
  "qcpu_adapter_flags flags =
     (let translated = 0;
          translated = (if flags AND QCPU_DEVICE_FLAG_SOFTWARE_VIRTUAL_QCPU \<noteq> 0
                        then translated OR QCPU_UAPI_FLAG_SOFTWARE_VIRTUAL_QCPU else translated);
          translated = (if flags AND QCPU_DEVICE_FLAG_CLASSICAL_HOST \<noteq> 0
                        then translated OR QCPU_UAPI_FLAG_CLASSICAL_HOST else translated);
          translated = (if flags AND QCPU_DEVICE_FLAG_PHYSICAL_QPU_ABSENT \<noteq> 0
                        then translated OR QCPU_UAPI_FLAG_PHYSICAL_QPU_ABSENT else translated);
          translated = (if flags AND QCPU_DEVICE_FLAG_Q0_MOST_SIGNIFICANT \<noteq> 0
                        then translated OR QCPU_UAPI_FLAG_Q0_MOST_SIGNIFICANT else translated)
      in translated)"

definition qcpu_adapter_translate_request :: "qcpu_uapi_request_v1 \<Rightarrow> int \<times> QCPUDeviceRequest" where
  "qcpu_adapter_translate_request request =
     (let t = zero_request\<lparr>dq_magic := QCPU_DEVICE_REQUEST_MAGIC, dq_version := QCPU_DEVICE_PROTOCOL_VERSION\<rparr>;
          fill = (\<lambda>command. (0, t\<lparr>dq_command := command, dq_qubits := uq_qubits request,
                                  dq_shots := uq_shots request, dq_seed := uq_seed request\<rparr>))
      in if uq_command request = QCPU_UAPI_COMMAND_STATUS then fill QCPU_DEVICE_COMMAND_STATUS
         else if uq_command request = QCPU_UAPI_COMMAND_RUN_GHZ then fill QCPU_DEVICE_COMMAND_RUN_GHZ
         else (- EOPNOTSUPP, t))"

definition qcpu_adapter_translate_response ::
  "(real \<Rightarrow> real) \<Rightarrow> QCPUDeviceResponse \<Rightarrow> int \<times> qcpu_uapi_response_v1" where
  "qcpu_adapter_translate_response rndl source =
     (let response = zero_uapi_response\<lparr>ur_magic := QCPU_UAPI_RESPONSE_MAGIC,
            ur_version := ucast QCPU_UAPI_PROTOCOL_VERSION, ur_status := qcpu_adapter_status (dr_status source),
            ur_flags := qcpu_adapter_flags (dr_flags source), ur_qubits := dr_qubits source,
            ur_basis_states := dr_basis_states source, ur_shots := dr_shots source,
            ur_measured_state := dr_measured_state source, ur_invalid_results := dr_invalid_results source\<rparr>
      in case qcpu_mock_norm_to_q32_32 rndl (dr_norm source) True of
           Inl _ \<Rightarrow> (- EIO, response\<lparr>ur_status := ucast QCPU_UAPI_STATUS_KERNEL\<rparr>)
         | Inr norm_q32_32 \<Rightarrow>
             (qcpu_adapter_status_result (ur_status response), response\<lparr>ur_norm_q32_32 := norm_q32_32\<rparr>))"

definition qcpu_adapter_io_result ::
  "QCPUDeviceIOStatus \<Rightarrow> qcpu_qcpud_adapter \<Rightarrow> os \<Rightarrow> (int \<times> qcpu_qcpud_adapter \<times> os) option" where
  "qcpu_adapter_io_result io_status ad s =
     do { (canceled, ad, s) \<leftarrow> qcpu_adapter_is_canceled ad s;
          Some (if canceled then - ECANCELED
                else if io_status = QCPU_DEVICE_IO_TIMEOUT then - ETIMEDOUT else - EIO, ad, s) }"

section \<open>An exchange\<close>

text \<open>The errno of a failed connect that the adapter looks at; \<open>None\<close> is one that is neither of these.\<close>

definition connect_failure :: "int \<Rightarrow> int option \<Rightarrow> int" where
  "connect_failure fd errno =
     (if fd = io_status_code QCPU_DEVICE_IO_TIMEOUT then - ETIMEDOUT
      else if errno = Some ENOENT \<or> errno = Some ECONNREFUSED then - ENODEV
      else - EIO)"

definition finish_with ::
  "int \<Rightarrow> int \<Rightarrow> qcpu_uapi_response_v1 \<Rightarrow> qcpu_qcpud_adapter \<Rightarrow> os \<Rightarrow>
     ((int \<times> qcpu_uapi_response_v1) \<times> qcpu_qcpud_adapter \<times> os) option" where
  "finish_with fd result response ad s =
     do { (r, ad, s) \<leftarrow> qcpu_adapter_finish fd result ad s; Some ((r, response), ad, s) }"

text \<open>From a connected descriptor to the answer.\<close>

definition exchange_receive ::
  "(real \<Rightarrow> real) \<Rightarrow> int \<Rightarrow> u64 \<Rightarrow> qcpu_qcpud_adapter \<Rightarrow> os \<Rightarrow>
     ((int \<times> qcpu_uapi_response_v1) \<times> qcpu_qcpud_adapter \<times> os) option" where
  "exchange_receive rndl fd absolute_deadline_ns ad s =
     do { (timeout_ms, s) \<leftarrow> qcpu_adapter_remaining_ms absolute_deadline_ns s;
          if timeout_ms \<le> 0 then finish_with fd (- ETIMEDOUT) zero_uapi_response ad s
          else do { ((io_status, response_wire), s) \<leftarrow>
              qcpu_device_read_all fd (Some (replicate QCPU_DEVICE_RESPONSE_WIRE_SIZE 0))
                QCPU_DEVICE_RESPONSE_WIRE_SIZE timeout_ms False s;
            if io_status \<noteq> QCPU_DEVICE_IO_OK
            then do { (r, ad, s) \<leftarrow> qcpu_adapter_io_result io_status ad s;
                      finish_with fd r zero_uapi_response ad s }
            else case qcpu_device_decode_response (Some zero_response) response_wire QCPU_DEVICE_RESPONSE_WIRE_SIZE of
                (QCPU_DEVICE_STATUS_OK, translated_response) \<Rightarrow>
                  (case qcpu_adapter_translate_response rndl (the translated_response) of
                     (r, response) \<Rightarrow> finish_with fd r response ad s)
              | (_, _) \<Rightarrow> finish_with fd (- EIO) zero_uapi_response ad s } }"

definition exchange_send ::
  "(real \<Rightarrow> real) \<Rightarrow> int \<Rightarrow> u8 list option \<Rightarrow> u64 \<Rightarrow> qcpu_qcpud_adapter \<Rightarrow> os \<Rightarrow>
     ((int \<times> qcpu_uapi_response_v1) \<times> qcpu_qcpud_adapter \<times> os) option" where
  "exchange_send rndl fd request_wire absolute_deadline_ns ad s =
     do { (canceled, ad, s) \<leftarrow> qcpu_adapter_register_fd fd ad s;
          if canceled then finish_with fd (- ECANCELED) zero_uapi_response ad s
          else do { (timeout_ms, s) \<leftarrow> qcpu_adapter_remaining_ms absolute_deadline_ns s;
            if timeout_ms \<le> 0 then finish_with fd (- ETIMEDOUT) zero_uapi_response ad s
            else do { (io_status, s) \<leftarrow>
                qcpu_device_write_all fd request_wire QCPU_DEVICE_REQUEST_WIRE_SIZE timeout_ms False s;
              if io_status \<noteq> QCPU_DEVICE_IO_OK
              then do { (r, ad, s) \<leftarrow> qcpu_adapter_io_result io_status ad s;
                        finish_with fd r zero_uapi_response ad s }
              else do { (shut, s) \<leftarrow> sys_call (act (Act_shut fd 1) s);
                case shut of
                  Inl _ \<Rightarrow>
                    do { (canceled, ad, s) \<leftarrow> qcpu_adapter_is_canceled ad s;
                         finish_with fd (if canceled then - ECANCELED else - EIO) zero_uapi_response ad s }
                | Inr _ \<Rightarrow> exchange_receive rndl fd absolute_deadline_ns ad s } } } }"

definition exchange_run ::
  "(real \<Rightarrow> real) \<Rightarrow> qcpu_qcpud_adapter \<Rightarrow> qcpu_uapi_request_v1 \<Rightarrow> u64 \<Rightarrow> os \<Rightarrow>
     ((int \<times> qcpu_uapi_response_v1) \<times> qcpu_qcpud_adapter \<times> os) option" where
  "exchange_run rndl ad request absolute_deadline_ns s =
     do { (r, ad, s) \<leftarrow> qcpu_adapter_begin ad s;
          if r \<noteq> 0 then Some ((r, zero_uapi_response), ad, s)
          else case qcpu_adapter_translate_request request of
              (r, translated_request) \<Rightarrow>
                if r \<noteq> 0 then finish_with (- 1) r zero_uapi_response ad s
                else case qcpu_device_encode_request (Some (replicate QCPU_DEVICE_REQUEST_WIRE_SIZE 0))
                            (Some translated_request) of
                    (QCPU_DEVICE_STATUS_OK, request_wire) \<Rightarrow>
                      do { (timeout_ms, s) \<leftarrow> qcpu_adapter_remaining_ms absolute_deadline_ns s;
                           if timeout_ms \<le> 0 then finish_with (- 1) (- ETIMEDOUT) zero_uapi_response ad s
                           else do { ((fd, errno), s) \<leftarrow>
                               qcpu_device_connect_unix (Some (ad_socket_path ad)) timeout_ms s;
                             if fd < 0 then finish_with (- 1) (connect_failure fd errno) zero_uapi_response ad s
                             else exchange_send rndl fd request_wire absolute_deadline_ns ad s } }
                  | (_, _) \<Rightarrow> finish_with (- 1) (- EIO) zero_uapi_response ad s }"

definition qcpu_qcpud_exchange ::
  "(real \<Rightarrow> real) \<Rightarrow> qcpu_qcpud_adapter option \<Rightarrow> qcpu_uapi_request_v1 option \<Rightarrow> u64 \<Rightarrow>
     qcpu_uapi_response_v1 option \<Rightarrow> os \<Rightarrow>
     ((int \<times> qcpu_uapi_response_v1 option) \<times> qcpu_qcpud_adapter option \<times> os) option" where
  "qcpu_qcpud_exchange rndl context request absolute_deadline_ns response s =
     (case (context, request, response) of
        (Some ad, Some req, Some _) \<Rightarrow>
          do { ((r, resp), ad, s) \<leftarrow> exchange_run rndl ad req absolute_deadline_ns s;
               Some ((r, Some resp), Some ad, s) }
      | _ \<Rightarrow> Some ((- EINVAL, response), context, s))"

section \<open>Lifecycle\<close>

definition qcpu_qcpud_adapter_create ::
  "bool \<Rightarrow> int \<Rightarrow> bool \<Rightarrow> string option \<Rightarrow> int + qcpu_qcpud_adapter" where
  "qcpu_qcpud_adapter_create alloc_ok mutex_result out socket_path =
     (case socket_path of
        None \<Rightarrow> Inl EINVAL
      | Some path \<Rightarrow>
          if \<not> out \<or> path = [] then Inl EINVAL
          else if length path \<ge> 108 then Inl ENAMETOOLONG
          else if \<not> alloc_ok then Inl ENOMEM
          else if mutex_result \<noteq> 0 then Inl mutex_result
          else Inr \<lparr> ad_socket_path = path, ad_active_fd = - 1, ad_active = False,
                     ad_cancel_requested = False \<rparr>)"

definition qcpu_qcpud_adapter_destroy :: "int \<Rightarrow> qcpu_qcpud_adapter option \<Rightarrow> int + unit" where
  "qcpu_qcpud_adapter_destroy mutex_result adapter =
     (case adapter of
        None \<Rightarrow> Inl EINVAL
      | Some ad \<Rightarrow>
          if ad_active ad then Inl EBUSY
          else if mutex_result \<noteq> 0 then Inl mutex_result
          else Inr ())"

section \<open>What an exchange does\<close>

text \<open>Steps that neither move bytes nor open or close a descriptor.\<close>

definition silent :: "os \<Rightarrow> os \<Rightarrow> bool" where
  "silent s s' \<longleftrightarrow> transfers s s' \<and>
     (\<forall>f. received f (trace s') = received f (trace s) \<and> sent f (trace s') = sent f (trace s))"

lemma silent_refl [simp]: "silent s s"
  by (simp add: silent_def)

lemma silent_trans: "silent s s' \<Longrightarrow> silent s' s'' \<Longrightarrow> silent s s''"
  by (auto simp: silent_def intro: transfers_trans)

lemma quiet_silent: "quiet s s' \<Longrightarrow> silent s s'"
  by (simp add: silent_def quiet_transfers quiet_bytes)

lemma silent_shut: "silent s (act (Act_shut fd how) s)"
  by (simp add: silent_def transfers_act) (simp add: act_def)

lemma shut_silent: "sys_call (act (Act_shut fd how) s) = Some (v, s') \<Longrightarrow> silent s s'"
  using silent_shut [of s fd how] sys_call_used [of "act (Act_shut fd how) s" v s']
  by (auto simp: silent_def transfers_def act_def)

lemma silent_script: "silent s (s\<lparr>script := es\<rparr>)" if "script s = e # es" for e es
  using that by (simp add: silent_def transfers_def)

lemma transfers_silent: "transfers s s' \<Longrightarrow> silent s' s'' \<Longrightarrow> transfers s s''"
  by (auto simp: silent_def intro: transfers_trans)

text \<open>The critical sections.\<close>

lemma lock_effect:
  assumes "adapter_lock ad s = Some (ad', s')"
  shows "silent s s' \<and> ad' = ad\<lparr>ad_cancel_requested := ad_cancel_requested ad'\<rparr> \<and>
     (\<not> ad_active ad \<longrightarrow> ad' = ad)"
  using assms
  by (auto simp: adapter_lock_def sys_cancel_def qcpu_qcpud_cancel_def split: list.split_asm os_event.split_asm
      if_split_asm elim!: bindE intro: silent_script silent_trans [OF silent_script silent_shut])

lemma begin_effect:
  assumes "qcpu_adapter_begin ad s = Some (r, ad', s')" and "\<not> ad_active ad"
  shows "r = 0 \<and> silent s s'"
proof -
  obtain ad0 s1 where l: "adapter_lock ad s = Some (ad0, s1)"
    using assms(1) by (auto simp: qcpu_adapter_begin_def elim!: bindE)
  then have "ad0 = ad" "silent s s1" using lock_effect [OF l] assms(2) by auto
  then show ?thesis using assms l by (simp add: qcpu_adapter_begin_def)
qed

lemma is_canceled_effect: "qcpu_adapter_is_canceled ad s = Some (c, ad', s') \<Longrightarrow> silent s s'"
  by (auto simp: qcpu_adapter_is_canceled_def elim!: bindE dest!: lock_effect)

lemma io_result_effect:
  "qcpu_adapter_io_result st ad s = Some (r, ad', s') \<Longrightarrow> silent s s' \<and> r \<noteq> 0"
  by (auto simp: qcpu_adapter_io_result_def errno_defs split: if_split_asm elim!: bindE dest!: is_canceled_effect)

lemma now_effect: "qcpu_adapter_remaining_ms d s = Some (r, s') \<Longrightarrow> silent s s'"
  by (auto simp: qcpu_adapter_remaining_ms_def qcpu_adapter_now_ns_def Let_def split: option.split_asm if_split_asm
      elim!: bindE dest!: sys_quiet(1) quiet_silent)

lemma finish_with_effect:
  assumes "finish_with fd result response ad s = Some ((r, resp), ad', s')"
  shows "resp = response \<and> (r = result \<or> r = - ECANCELED) \<and>
     \<not> ad_active ad' \<and> ad_active_fd ad' = - 1 \<and> \<not> ad_cancel_requested ad' \<and>
     (\<forall>f. received f (trace s') = received f (trace s) \<and> sent f (trace s') = sent f (trace s)) \<and>
     opens (trace s') = opens (trace s) \<and> closes (trace s') = closes (trace s) @ (if 0 \<le> fd then [fd] else [])"
proof -
  obtain ad1 s1 where l: "adapter_lock ad s = Some (ad1, s1)"
    using assms by (auto simp: finish_with_def qcpu_adapter_finish_def elim!: bindE)
  have "silent s s1" using lock_effect [OF l] by blast
  then show ?thesis
    using assms transfers_fds [of s s1]
    by (auto simp: finish_with_def qcpu_adapter_finish_def l silent_def split: if_split_asm)
qed

text \<open>
  What an exchange moved on its descriptor \<open>fd\<close>: a prefix of the request went out, \<open>packet\<close> came in.  It returns 0 only
  for a whole packet that translates to a response; a whole packet is always translated, and only a
  cancel call (never when \<open>undisturbed\<close>) replaces the result.
\<close>

definition answered ::
  "(real \<Rightarrow> real) \<Rightarrow> int \<Rightarrow> u8 list \<Rightarrow> bool \<Rightarrow> os \<Rightarrow> int \<Rightarrow> qcpu_uapi_response_v1 \<Rightarrow> os \<Rightarrow> bool" where
  "answered rndl fd out undisturbed s r resp s' \<longleftrightarrow>
     (\<exists>n packet. sent fd (trace s') = sent fd (trace s) @ take n out \<and>
        received fd (trace s') = received fd (trace s) @ packet \<and>
        (r = 0 \<longrightarrow> take n out = out \<and> length packet = QCPU_DEVICE_RESPONSE_WIRE_SIZE \<and>
          (\<exists>d. qcpu_device_decode_response (Some zero_response) (Some packet) QCPU_DEVICE_RESPONSE_WIRE_SIZE =
              (QCPU_DEVICE_STATUS_OK, Some d) \<and> qcpu_adapter_translate_response rndl d = (0, resp))) \<and>
        (\<forall>d. length packet = QCPU_DEVICE_RESPONSE_WIRE_SIZE \<longrightarrow>
          qcpu_device_decode_response (Some zero_response) (Some packet) QCPU_DEVICE_RESPONSE_WIRE_SIZE =
            (QCPU_DEVICE_STATUS_OK, Some d) \<longrightarrow>
          r = fst (qcpu_adapter_translate_response rndl d) \<or> r = - ECANCELED \<and> \<not> undisturbed))"

text \<open>The outcome of the part of an exchange that owns the descriptor \<open>fd\<close>.\<close>

definition owns_fd ::
  "(real \<Rightarrow> real) \<Rightarrow> int \<Rightarrow> u8 list \<Rightarrow> bool \<Rightarrow> os \<Rightarrow> int \<Rightarrow> qcpu_uapi_response_v1 \<Rightarrow> qcpu_qcpud_adapter \<Rightarrow> os \<Rightarrow> bool" where
  "owns_fd rndl fd out undisturbed s r resp ad' s' \<longleftrightarrow>
     \<not> ad_active ad' \<and> ad_active_fd ad' = - 1 \<and> \<not> ad_cancel_requested ad' \<and>
     opens (trace s') = opens (trace s) \<and> closes (trace s') = closes (trace s) @ [fd] \<and>
     answered rndl fd out undisturbed s r resp s'"

lemma owns_fd_failed:
  assumes "transfers s s1" and "finish_with fd e zero_uapi_response ad s1 = Some ((r, resp), ad', s')"
    and "0 \<le> fd" and "e \<noteq> 0"
    and "sent fd (trace s1) = sent fd (trace s) @ take n out" and "received fd (trace s1) = received fd (trace s) @ packet"
    and "length packet = QCPU_DEVICE_RESPONSE_WIRE_SIZE \<Longrightarrow>
      fst (qcpu_device_decode_response (Some zero_response) (Some packet) QCPU_DEVICE_RESPONSE_WIRE_SIZE) \<noteq> QCPU_DEVICE_STATUS_OK"
  shows "owns_fd rndl fd out u s r resp ad' s'"
proof -
  note f = finish_with_effect [OF assms(2)]
  have "answered rndl fd out u s r resp s'"
    unfolding answered_def using f assms(4-7)
    by (intro exI [of _ n] exI [of _ packet]) (auto simp: ECANCELED_def)
  then show ?thesis using f assms transfers_fds [of s s1] by (auto simp: owns_fd_def)
qed

lemma owns_fd_silent:
  assumes "silent s s1" and "finish_with fd e zero_uapi_response ad s1 = Some ((r, resp), ad', s')" and "0 \<le> fd" and "e \<noteq> 0"
  shows "owns_fd rndl fd out u s r resp ad' s'"
  using assms owns_fd_failed [of s s1 fd e ad r resp ad' s' 0 out "[]"]
  by (simp add: silent_def QCPU_DEVICE_RESPONSE_WIRE_SIZE_def)

lemma no_cancel_lock: "adapter_lock ad s = Some (ad', s') \<Longrightarrow> Ev_cancel True \<notin> set (script s) \<Longrightarrow> ad' = ad"
  by (auto simp: adapter_lock_def sys_cancel_def split: list.split_asm os_event.split_asm if_split_asm elim!: bindE)

lemma no_cancel_finish:
  "finish_with fd result response ad s = Some ((r, resp), ad', s') \<Longrightarrow> Ev_cancel True \<notin> set (script s) \<Longrightarrow>
     \<not> ad_cancel_requested ad \<Longrightarrow> r = result"
  by (auto simp: finish_with_def qcpu_adapter_finish_def elim!: bindE dest!: no_cancel_lock)

lemma transfers_script: "transfers s s' \<Longrightarrow> set (script s') \<subseteq> set (script s)"
  by (auto simp: transfers_def)

lemma decode_response_Some: "\<exists>st d. qcpu_device_decode_response (Some r) (Some input) n = (st, Some d)"
  by (simp add: qcpu_device_decode_response_def Let_def)

lemma connect_bytes:
  assumes "qcpu_device_connect_unix path timeout_ms s = Some (r, s')"
  shows "received f (trace s') = received f (trace s) \<and> sent f (trace s') = sent f (trace s)"
  using assms
  by (auto simp: qcpu_device_connect_unix_def act_def quiet_bytes
      split: option.split_asm if_split_asm sum.split_asm prod.split_asm elim!: bindE
      dest!: prepare_deadline_quiet set_nonblocking_quiet wait_quiet sys_call_result)

lemma connect_script:
  assumes "qcpu_device_connect_unix path timeout_ms s = Some (r, s')"
  shows "set (script s') \<subseteq> set (script s)"
proof -
  have q: "quiet a b \<Longrightarrow> set (script b) \<subseteq> set (script a)" for a b :: os by (auto simp: quiet_def)
  show ?thesis
    using assms
    by (auto simp: qcpu_device_connect_unix_def act_def close_fd_def
        split: option.split_asm if_split_asm sum.split_asm prod.split_asm elim!: bindE
        dest!: prepare_deadline_quiet set_nonblocking_quiet wait_quiet sys_call_used q) blast+
qed

lemma receive_owns:
  assumes "exchange_receive rndl fd dl ad s = Some ((r, resp), ad', s')" and fd: "0 \<le> fd"
  shows "owns_fd rndl fd [] (Ev_cancel True \<notin> set (script s) \<and> \<not> ad_cancel_requested ad) s r resp ad' s'"
proof -
  let ?u = "Ev_cancel True \<notin> set (script s) \<and> \<not> ad_cancel_requested ad"
  obtain ms s1 where ms: "qcpu_adapter_remaining_ms dl s = Some (ms, s1)"
    using assms(1) by (auto simp: exchange_receive_def elim!: bindE)
  have q1: "silent s s1" by (rule now_effect [OF ms])
  show ?thesis
  proof (cases "ms \<le> 0")
    case True
    then show ?thesis
      using assms(1) ms q1 fd
      by (auto simp: exchange_receive_def ETIMEDOUT_def intro: owns_fd_silent)
  next
    case ms0: False
    let ?buf = "replicate QCPU_DEVICE_RESPONSE_WIRE_SIZE (0 :: u8)"
    obtain st wire s2 where rd: "qcpu_device_read_all fd (Some ?buf) QCPU_DEVICE_RESPONSE_WIRE_SIZE ms False s1 =
        Some ((st, wire), s2)"
      using assms(1) ms ms0 by (auto simp: exchange_receive_def elim!: bindE)
    have t2: "transfers s s2" using q1 read_all_transfers [OF rd] by (auto simp: silent_def intro: transfers_trans)
    obtain new where new: "received fd (trace s2) = received fd (trace s1) @ new"
        "\<forall>f. sent f (trace s2) = sent f (trace s1)" "wire = Some (new @ drop (length new) ?buf)"
        "st = QCPU_DEVICE_IO_OK \<longleftrightarrow> length new = QCPU_DEVICE_RESPONSE_WIRE_SIZE"
      using read_all_exact [OF rd] by (auto simp: QCPU_DEVICE_RESPONSE_WIRE_SIZE_def)
    show ?thesis
    proof (cases "st = QCPU_DEVICE_IO_OK")
      case False
      then obtain e ad3 s3 where "qcpu_adapter_io_result st ad s2 = Some (e, ad3, s3)"
          "finish_with fd e zero_uapi_response ad3 s3 = Some ((r, resp), ad', s')"
        using assms(1) ms ms0 rd by (auto simp: exchange_receive_def elim!: bindE)
      moreover from this(1) have "silent s2 s3" "e \<noteq> 0" by (auto dest: io_result_effect)
      ultimately show ?thesis
        using transfers_silent [OF t2] fd new False q1
        by (intro owns_fd_failed [where s = s and e = e and ?s1.0 = s3 and packet = new and n = 0]) (auto simp: silent_def)
    next
      case True
      then have wire: "wire = Some new" "length new = QCPU_DEVICE_RESPONSE_WIRE_SIZE" using new by auto
      obtain ds d where dec: "qcpu_device_decode_response (Some zero_response) (Some new) QCPU_DEVICE_RESPONSE_WIRE_SIZE =
          (ds, Some d)"
        using decode_response_Some by blast
      obtain tr tresp where tr: "qcpu_adapter_translate_response rndl d = (tr, tresp)" by force
      show ?thesis
      proof (cases "ds = QCPU_DEVICE_STATUS_OK")
        case ok: True
        then have fin: "finish_with fd tr tresp ad s2 = Some ((r, resp), ad', s')"
          using assms(1) ms ms0 rd True wire dec tr by (auto simp: exchange_receive_def)
        note f = finish_with_effect [OF fin]
        have "?u \<Longrightarrow> r = tr" using no_cancel_finish [OF fin] transfers_script [OF t2] by blast
        then have "answered rndl fd [] ?u s r resp s'"
          unfolding answered_def using f new(1,2) wire dec tr ok q1
          by (intro exI [of _ 0] exI [of _ new]) (auto simp: silent_def ECANCELED_def)
        then show ?thesis using f fd transfers_fds [OF t2] by (auto simp: owns_fd_def)
      next
        case bad: False
        then have "finish_with fd (- EIO) zero_uapi_response ad s2 = Some ((r, resp), ad', s')"
          using assms(1) ms ms0 rd True wire dec by (cases ds) (auto simp: exchange_receive_def)
        then show ?thesis
          using t2 fd new(1,2) q1 dec bad
          by (intro owns_fd_failed [where s = s and ?s1.0 = s2 and packet = new and n = 0 and e = "- EIO"])
            (auto simp: EIO_def silent_def)
      qed
    qed
  qed
qed

lemma send_owns:
  assumes "exchange_send rndl fd (Some out) dl ad s = Some ((r, resp), ad', s')" and fd: "0 \<le> fd"
    and len: "length out = QCPU_DEVICE_REQUEST_WIRE_SIZE"
  shows "owns_fd rndl fd out (Ev_cancel True \<notin> set (script s)) s r resp ad' s'"
proof -
  obtain c ad1 s1 where c: "qcpu_adapter_register_fd fd ad s = Some (c, ad1, s1)"
    using assms(1) by (auto simp: exchange_send_def elim!: bindE)
  have q1: "silent s s1"
    using c by (auto simp: qcpu_adapter_register_fd_def Let_def split: if_split_asm elim!: bindE dest!: lock_effect
        intro: silent_trans [OF _ silent_shut])
  show ?thesis
  proof (cases c)
    case True
    then show ?thesis
      using assms(1) c q1 fd by (auto simp: exchange_send_def ECANCELED_def intro: owns_fd_silent)
  next
    case c0: False
    then have nc: "\<not> ad_cancel_requested ad1"
      using c by (auto simp: qcpu_adapter_register_fd_def Let_def split: if_split_asm elim!: bindE)
    obtain ms s2 where ms: "qcpu_adapter_remaining_ms dl s1 = Some (ms, s2)"
      using assms(1) c c0 by (auto simp: exchange_send_def elim!: bindE)
    have q2: "silent s s2" using q1 now_effect [OF ms] by (rule silent_trans)
    show ?thesis
    proof (cases "ms \<le> 0")
      case True
      then show ?thesis
        using assms(1) c c0 ms q2 fd by (auto simp: exchange_send_def ETIMEDOUT_def intro: owns_fd_silent)
    next
      case ms0: False
      obtain st s3 where wr: "qcpu_device_write_all fd (Some out) QCPU_DEVICE_REQUEST_WIRE_SIZE ms False s2 = Some (st, s3)"
        using assms(1) c c0 ms ms0 by (auto simp: exchange_send_def elim!: bindE)
      have t3: "transfers s s3" using q2 write_all_transfers [OF wr] by (auto simp: silent_def intro: transfers_trans)
      obtain n where n: "sent fd (trace s3) = sent fd (trace s2) @ take n out"
          "\<forall>f. received f (trace s3) = received f (trace s2)"
          "st = QCPU_DEVICE_IO_OK \<longleftrightarrow> n = QCPU_DEVICE_REQUEST_WIRE_SIZE"
        using write_all_exact [OF wr len] by (auto simp: QCPU_DEVICE_REQUEST_WIRE_SIZE_def)
      show ?thesis
      proof (cases "st = QCPU_DEVICE_IO_OK")
        case False
        then obtain e ad4 s4 where "qcpu_adapter_io_result st ad1 s3 = Some (e, ad4, s4)"
            "finish_with fd e zero_uapi_response ad4 s4 = Some ((r, resp), ad', s')"
          using assms(1) c c0 ms ms0 wr by (auto simp: exchange_send_def elim!: bindE)
        moreover from this(1) have "silent s3 s4" "e \<noteq> 0" by (auto dest: io_result_effect)
        ultimately show ?thesis
          using transfers_silent [OF t3] fd n q2
          by (intro owns_fd_failed [where s = s and e = e and ?s1.0 = s4 and packet = "[]" and n = n])
            (auto simp: silent_def QCPU_DEVICE_RESPONSE_WIRE_SIZE_def)
      next
        case True
        then have full: "sent fd (trace s3) = sent fd (trace s2) @ out" using n len by simp
        obtain v s4 where v: "sys_call (act (Act_shut fd 1) s3) = Some (v, s4)"
          using assms(1) c c0 ms ms0 wr True by (auto simp: exchange_send_def elim!: bindE)
        have q4: "silent s3 s4" by (rule shut_silent [OF v])
        have t4: "transfers s s4" using t3 q4 by (auto simp: silent_def intro: transfers_trans)
        show ?thesis
        proof (cases v)
          case (Inl e)
          then obtain cc ad5 s5 where "qcpu_adapter_is_canceled ad1 s4 = Some (cc, ad5, s5)"
              "finish_with fd (if cc then - ECANCELED else - EIO) zero_uapi_response ad5 s5 = Some ((r, resp), ad', s')"
            using assms(1) c c0 ms ms0 wr True v by (auto simp: exchange_send_def elim!: bindE)
          moreover from this(1) have q5: "silent s4 s5" by (rule is_canceled_effect)
          ultimately show ?thesis
            using fd full n(2) q2 q4 transfers_silent [OF t4 q5] len
            by (intro owns_fd_failed [where s = s and ?s1.0 = s5 and packet = "[]" and n = "length out"
                  and e = "if cc then - ECANCELED else - EIO"])
              (auto simp: errno_defs silent_def QCPU_DEVICE_RESPONSE_WIRE_SIZE_def)
        next
          case (Inr u)
          then have "exchange_receive rndl fd dl ad1 s4 = Some ((r, resp), ad', s')"
            using assms(1) c c0 ms ms0 wr True v by (auto simp: exchange_send_def)
          note own = receive_owns [OF this fd]
          have sc: "set (script s4) \<subseteq> set (script s)" by (rule transfers_script [OF t4])
          have b: "sent fd (trace s4) = sent fd (trace s) @ out" "received fd (trace s4) = received fd (trace s)"
            using full n(2) q2 q4 by (auto simp: silent_def)
          have "answered rndl fd [] (Ev_cancel True \<notin> set (script s4) \<and> \<not> ad_cancel_requested ad1) s4 r resp s'"
            using own by (simp add: owns_fd_def)
          then have "answered rndl fd out (Ev_cancel True \<notin> set (script s)) s r resp s'"
            unfolding answered_def using b sc nc
            by (elim exE conjE) (intro exI [of _ "length out"], auto)
          then show ?thesis using own transfers_fds [OF t4] by (simp add: owns_fd_def)
        qed
      qed
    qed
  qed
qed

text \<open>The bytes of a request.\<close>

definition request_bytes :: "QCPUDeviceRequest \<Rightarrow> u8 list" where
  "request_bytes request =
     the (snd (qcpu_device_encode_request (Some (replicate QCPU_DEVICE_REQUEST_WIRE_SIZE 0)) (Some request)))"

lemma encode_request_bytes:
  "qcpu_device_encode_request (Some (replicate QCPU_DEVICE_REQUEST_WIRE_SIZE 0)) (Some request) =
     (QCPU_DEVICE_STATUS_OK, Some (request_bytes request))"
  by (simp add: request_bytes_def qcpu_device_encode_request_def Let_def)

lemma length_request_bytes [simp]: "length (request_bytes request) = QCPU_DEVICE_REQUEST_WIRE_SIZE"
  by (simp add: request_bytes_def qcpu_device_encode_request_def Let_def)

section \<open>An exchange with nothing in its way\<close>

lemma clean_write:
  assumes "length b = n" and "0 < n" and "0 \<le> fd" and "0 < ms"
  shows "qcpu_device_write_all fd (Some b) n ms False
     \<lparr>script = Ev_clock (Some (1, 0)) # Ev_getfl 2048 # Ev_send (Inr n) # es, trace = tr\<rparr> =
     Some (QCPU_DEVICE_IO_OK, \<lparr>script = es, trace = tr @ [Act_send fd b]\<rparr>)"
  using assms
  by (simp add: qcpu_device_write_all_def prepare_deadline_def monotonic_milliseconds_def
      set_nonblocking_def sys_defs O_NONBLOCK_def write_loop.simps write_without_sigpipe_def)

lemma clean_read:
  assumes "length b = n" and "length buf = n" and "0 < n" and "0 \<le> fd" and "0 < ms"
  shows "qcpu_device_read_all fd (Some buf) n ms False
     \<lparr>script = Ev_clock (Some (1, 0)) # Ev_getfl 2048 # Ev_read (Inr b) # es, trace = tr\<rparr> =
     Some ((QCPU_DEVICE_IO_OK, Some b), \<lparr>script = es, trace = tr @ [Act_recv fd b]\<rparr>)"
  using assms
  by (auto simp: qcpu_device_read_all_def prepare_deadline_def monotonic_milliseconds_def
      set_nonblocking_def sys_defs O_NONBLOCK_def read_loop.simps)

lemma clean_connect:
  assumes "length path < 108" and "0 \<le> fd" and "0 < ms"
  shows "qcpu_device_connect_unix (Some path) ms
     \<lparr>script = Ev_call (Inr fd) # Ev_getfl 2048 # Ev_call (Inr 0) # es, trace = tr\<rparr> =
     Some ((fd, None), \<lparr>script = es, trace = tr @ [Act_open fd]\<rparr>)"
  using assms
  by (simp add: qcpu_device_connect_unix_def set_nonblocking_def sys_defs O_NONBLOCK_def)

definition idle_adapter :: "string \<Rightarrow> qcpu_qcpud_adapter" where
  "idle_adapter path =
     \<lparr> ad_socket_path = path, ad_active_fd = - 1, ad_active = False, ad_cancel_requested = False \<rparr>"

text \<open>
  The script of an exchange at time 1 s in which every call succeeds at once, no cancel comes in and
  the answer of the peer is \<open>packet\<close>; and what the exchange then does.
\<close>

definition clean_exchange :: "int \<Rightarrow> u8 list \<Rightarrow> os_event list" where
  "clean_exchange fd packet =
     [Ev_cancel False, Ev_clock (Some (1, 0)), Ev_call (Inr fd), Ev_getfl 2048, Ev_call (Inr 0),
      Ev_cancel False, Ev_clock (Some (1, 0)),
      Ev_clock (Some (1, 0)), Ev_getfl 2048, Ev_send (Inr QCPU_DEVICE_REQUEST_WIRE_SIZE),
      Ev_call (Inr 0), Ev_clock (Some (1, 0)),
      Ev_clock (Some (1, 0)), Ev_getfl 2048, Ev_read (Inr packet), Ev_cancel False]"

definition clean_trace :: "int \<Rightarrow> u8 list \<Rightarrow> u8 list \<Rightarrow> os_action list" where
  "clean_trace fd out packet =
     [Act_open fd, Act_send fd out, Act_shut fd 1, Act_recv fd packet, Act_close fd]"

lemma clean_lock:
  "adapter_lock ad \<lparr>script = Ev_cancel False # es, trace = tr\<rparr> = Some (ad, \<lparr>script = es, trace = tr\<rparr>)"
  by (simp add: adapter_lock_def sys_defs)

lemma clean_remaining:
  "qcpu_adapter_remaining_ms 3000000000 \<lparr>script = Ev_clock (Some (1, 0)) # es, trace = tr\<rparr> =
     Some (2000, \<lparr>script = es, trace = tr\<rparr>)"
  by (simp add: qcpu_adapter_remaining_ms_def qcpu_adapter_now_ns_def sys_defs INT_MAX_def Let_def)

lemma clean_exchange_run:
  assumes tr: "qcpu_adapter_translate_request request = (0, t)"
    and dec: "qcpu_device_decode_response (Some zero_response) (Some packet) QCPU_DEVICE_RESPONSE_WIRE_SIZE =
      (QCPU_DEVICE_STATUS_OK, Some d)"
    and len: "length packet = QCPU_DEVICE_RESPONSE_WIRE_SIZE" and path: "length path < 108" and fd: "0 \<le> fd"
  shows "exchange_run rndl (idle_adapter path) request 3000000000 \<lparr>script = clean_exchange fd packet, trace = []\<rparr> =
     Some (qcpu_adapter_translate_response rndl d, idle_adapter path,
       \<lparr>script = [], trace = clean_trace fd (request_bytes t) packet\<rparr>)"
proof -
  obtain r resp where t: "qcpu_adapter_translate_response rndl d = (r, resp)" by force
  have s: "0 < QCPU_DEVICE_REQUEST_WIRE_SIZE" "0 < QCPU_DEVICE_RESPONSE_WIRE_SIZE" by (simp_all add: wire_size_defs)
  note steps = clean_lock clean_remaining clean_connect clean_write clean_read
  show ?thesis
    by (simp add: exchange_run_def qcpu_adapter_begin_def clean_exchange_def idle_adapter_def tr encode_request_bytes
        path fd not_less [THEN iffD2, OF fd] steps exchange_send_def qcpu_adapter_register_fd_def s sys_call_def act_def
        exchange_receive_def len dec t finish_with_def qcpu_adapter_finish_def close_fd_def clean_trace_def
        del: replicate.simps)
qed

section \<open>The daemon's answers, translated\<close>

lemma decode_response_bytes:
  "qcpu_device_decode_response (Some junk) (Some (response_bytes r)) QCPU_DEVICE_RESPONSE_WIRE_SIZE =
     (header_status QCPU_DEVICE_RESPONSE_MAGIC (dr_magic r) (dr_version r), Some r)"
  by (simp add: response_bytes_def wire_codec_defs header_status_def Let_def)

lemma decode_request_bytes:
  "qcpu_device_decode_request (Some junk) (Some (request_bytes r)) QCPU_DEVICE_REQUEST_WIRE_SIZE =
     (header_status QCPU_DEVICE_REQUEST_MAGIC (dq_magic r) (dq_version r), Some r)"
  by (simp add: request_bytes_def wire_codec_defs header_status_def Let_def)

lemma answer_header:
  "dr_magic (process_request rnd alloc r) = QCPU_DEVICE_RESPONSE_MAGIC"
  "dr_version (process_request rnd alloc r) = QCPU_DEVICE_PROTOCOL_VERSION"
  by (simp_all add: process_request_def process_run_ghz_def response_init_def Let_def split: prod.split)

lemma translated_header:
  "dq_magic (snd (qcpu_adapter_translate_request request)) = QCPU_DEVICE_REQUEST_MAGIC"
  "dq_version (snd (qcpu_adapter_translate_request request)) = QCPU_DEVICE_PROTOCOL_VERSION"
  by (simp_all add: qcpu_adapter_translate_request_def Let_def)

lemma translated_answer:
  "answer_packet rnd alloc (request_bytes (snd (qcpu_adapter_translate_request request))) =
     response_bytes (process_request rnd alloc (snd (qcpu_adapter_translate_request request)))"
  by (simp add: answer_packet_def decode_request_bytes translated_header header_status_def)

lemma check_request_translates:
  assumes "check_request request = None"
  shows "qcpu_adapter_translate_request request =
     (0, \<lparr> dq_magic = QCPU_DEVICE_REQUEST_MAGIC, dq_version = QCPU_DEVICE_PROTOCOL_VERSION,
           dq_command = uq_command request, dq_qubits = uq_qubits request,
           dq_shots = uq_shots request, dq_seed = uq_seed request \<rparr>)"
  using assms
  by (auto simp: check_request_def qcpu_adapter_translate_request_def zero_request_def uapi_consts protocol_consts
      Let_def split: if_split_asm)

lemma norm_of_zero_and_one:
  assumes "fp_rounding p rndl" and "64 \<le> p"
  shows "qcpu_mock_norm_to_q32_32 rndl 0 True = Inr 0"
    and "qcpu_mock_norm_to_q32_32 rndl 0x3ff0000000000000 True = Inr (2 ^ 32)"
proof -
  have "\<lfloor>(4294967296 :: real) + 1 / 2\<rfloor> = 4294967296" by linarith
  moreover have "(1 :: real) \<le> 1 + 2 powi (- 40)" "(0 :: real) \<le> 1 + 2 powi (- 40)" by simp_all
  moreover have "dbl_isfinite 0" "dbl_value 0 = 0"
    by (simp_all add: dbl_isfinite_def dbl_value_def dbl_exponent_def dbl_fraction_def)
  ultimately show "qcpu_mock_norm_to_q32_32 rndl 0 True = Inr 0"
      "qcpu_mock_norm_to_q32_32 rndl 0x3ff0000000000000 True = Inr (2 ^ 32)"
    using norm_to_q32_32_eq [OF assms, where b = 0] norm_to_q32_32_eq [OF assms, where b = "0x3ff0000000000000"] dbl_value_one
    by simp_all
qed

lemma device_flags_translated: "qcpu_adapter_flags device_flags = 15"
  by (simp add: qcpu_adapter_flags_def device_flags_def uapi_flag_defs QCPU_DEVICE_FLAG_SOFTWARE_VIRTUAL_QCPU_def
      QCPU_DEVICE_FLAG_CLASSICAL_HOST_def QCPU_DEVICE_FLAG_PHYSICAL_QPU_ABSENT_def
      QCPU_DEVICE_FLAG_Q0_MOST_SIGNIFICANT_def push_bit_eq_mult Let_def)

lemma answer_translated:
  assumes req: "check_request request = None" and fp: "fp_rounding p rndl" "64 \<le> p"
  shows "\<exists>resp. qcpu_adapter_translate_response rndl
       (process_request rnd_double (True, True) (snd (qcpu_adapter_translate_request request))) = (0, resp) \<and>
     good_response request resp \<and> (uq_command request = 2 \<longrightarrow> ur_norm_q32_32 resp = 2 ^ 32)"
proof (cases "uq_command request = QCPU_UAPI_COMMAND_STATUS")
  case True
  then show ?thesis
    using req norm_of_zero_and_one [OF fp]
    by (simp add: check_request_translates process_request_def qcpu_adapter_translate_response_def response_init_def
        zero_response_def device_flags_translated qcpu_adapter_status_def qcpu_adapter_status_result_def
        good_response_def zero_uapi_response_def uapi_consts uapi_status_defs protocol_consts check_request_def
        split: if_split_asm)
next
  case False
  let ?t = "snd (qcpu_adapter_translate_request request)"
  have t: "dq_command ?t = QCPU_DEVICE_COMMAND_RUN_GHZ" "dq_qubits ?t = uq_qubits request"
      "dq_shots ?t = uq_shots request" "request_in_range ?t" "uq_command request = 2"
    using req False
    by (auto simp: check_request_translates request_in_range_code check_request_def uapi_consts protocol_consts
        not_less split: if_split_asm)
  obtain m where m: "process_run_ghz rnd_double (True, True) ?t response_init =
     response_init\<lparr>dr_status := device_status_code QCPU_DEVICE_STATUS_OK,
       dr_qubits := uq_qubits request, dr_basis_states := 2 ^ unat (uq_qubits request),
       dr_shots := ucast (uq_shots request), dr_measured_state := of_nat m,
       dr_invalid_results := 0, dr_norm := dbl_bits 1\<rparr>"
     "m = 0 \<or> m = 2 ^ unat (uq_qubits request) - 1"
    using run_ghz_answer [OF t(4), of response_init] t(2,3) by auto
  have "of_nat m = (0 :: u64) \<or> of_nat m = (2 ^ unat (uq_qubits request) - 1 :: u64)"
    using m(2) by (auto simp: of_nat_diff)
  then show ?thesis
    using t m(1) norm_of_zero_and_one [OF fp]
    by (simp add: process_request_def qcpu_adapter_translate_response_def response_init_def
        zero_response_def device_flags_translated qcpu_adapter_status_def qcpu_adapter_status_result_def dbl_bits_one
        good_response_def zero_uapi_response_def uapi_consts uapi_status_defs protocol_consts)
qed

section \<open>Every exchange\<close>

text \<open>A whole exchange: its descriptors, and what it moved on the one it opened.\<close>

definition exchanged ::
  "(real \<Rightarrow> real) \<Rightarrow> u8 list \<Rightarrow> os \<Rightarrow> int \<Rightarrow> qcpu_uapi_response_v1 \<Rightarrow> qcpu_qcpud_adapter \<Rightarrow> os \<Rightarrow> bool" where
  "exchanged rndl out s r resp ad' s' \<longleftrightarrow>
     \<not> ad_active ad' \<and> ad_active_fd ad' = - 1 \<and> \<not> ad_cancel_requested ad' \<and>
     (\<exists>fds. opens (trace s') = opens (trace s) @ fds \<and> closes (trace s') = closes (trace s) @ fds \<and>
        (r = 0 \<longrightarrow> fds \<noteq> []) \<and> length fds \<le> 1 \<and>
        (\<forall>fd. fds = [fd] \<longrightarrow> answered rndl fd out (Ev_cancel True \<notin> set (script s)) s r resp s'))"

lemma exchanged_early:
  assumes "finish_with (- 1) e zero_uapi_response ad1 s1 = Some ((r, resp), ad', s')" and "e \<noteq> 0"
    and "opens (trace s1) = opens (trace s) @ fds" and "closes (trace s1) = closes (trace s) @ fds" and "length fds \<le> 1"
    and "\<And>f. received f (trace s1) = received f (trace s) \<and> sent f (trace s1) = sent f (trace s)"
  shows "exchanged rndl out s r resp ad' s'"
proof -
  note f = finish_with_effect [OF assms(1)]
  have r: "r \<noteq> 0" using f assms(2) by (auto simp: ECANCELED_def)
  have "answered rndl fd out u s r resp s'" for fd u
    unfolding answered_def using f r assms(6) [of fd]
    by (intro exI [of _ 0] exI [of _ "[]"]) (simp add: QCPU_DEVICE_RESPONSE_WIRE_SIZE_def)
  then show ?thesis
    unfolding exchanged_def using f r assms(3-5) by (intro conjI exI [of _ fds]) auto
qed

lemma answered_from:
  assumes "answered rndl fd out u s1 r resp s'" and "u' \<Longrightarrow> u"
    and "received fd (trace s1) = received fd (trace s)" and "sent fd (trace s1) = sent fd (trace s)"
  shows "answered rndl fd out u' s r resp s'"
  using assms(1,2) unfolding answered_def assms(3,4) by (elim exE conjE) (intro exI conjI, assumption+, blast)

lemma exchange_owns:
  assumes "exchange_run rndl ad request dl s = Some ((r, resp), ad', s')" and "\<not> ad_active ad"
  shows "exchanged rndl (request_bytes (snd (qcpu_adapter_translate_request request))) s r resp ad' s'"
proof -
  obtain ad1 s1 where b: "qcpu_adapter_begin ad s = Some (0, ad1, s1)" and q1: "silent s s1"
    using assms by (auto simp: exchange_run_def elim!: bindE dest: begin_effect)
  obtain tr t where t: "qcpu_adapter_translate_request request = (tr, t)" by force
  have early: ?thesis if "silent s s2" "finish_with (- 1) e zero_uapi_response ad1 s2 = Some ((r, resp), ad', s')" "e \<noteq> 0"
    for s2 e
    using that transfers_fds [of s s2] by (intro exchanged_early [OF that(2,3), where fds = "[]"]) (auto simp: silent_def)
  show ?thesis
  proof (cases "tr = 0")
    case False
    then show ?thesis using assms(1) b t early [OF q1] by (simp add: exchange_run_def)
  next
    case tr0: True
    obtain ms s2 where ms: "qcpu_adapter_remaining_ms dl s1 = Some (ms, s2)"
      using assms(1) b t tr0 by (auto simp: exchange_run_def encode_request_bytes elim!: bindE)
    have q2: "silent s s2" using q1 now_effect [OF ms] by (rule silent_trans)
    show ?thesis
    proof (cases "ms \<le> 0")
      case True
      then show ?thesis
        using assms(1) b t tr0 ms early [OF q2] by (simp add: exchange_run_def encode_request_bytes ETIMEDOUT_def)
    next
      case ms0: False
      obtain fd e s3 where cn: "qcpu_device_connect_unix (Some (ad_socket_path ad1)) ms s2 = Some ((fd, e), s3)"
        using assms(1) b t tr0 ms ms0 by (auto simp: exchange_run_def encode_request_bytes elim!: bindE)
      note cc = connect_cases [OF cn]
      have o2: "opens (trace s2) = opens (trace s)" "closes (trace s2) = closes (trace s)"
        using q2 transfers_fds [of s s2] by (auto simp: silent_def)
      have by3: "received f (trace s3) = received f (trace s) \<and> sent f (trace s3) = sent f (trace s)" for f
        using connect_bytes [OF cn] q2 by (auto simp: silent_def)
      show ?thesis
      proof (cases "fd < 0")
        case True
        have fin: "finish_with (- 1) (connect_failure fd e) zero_uapi_response ad1 s3 = Some ((r, resp), ad', s')"
          using assms(1) b t tr0 ms ms0 cn True by (simp add: exchange_run_def encode_request_bytes)
        obtain fds where "opens (trace s3) = opens (trace s) @ fds" "closes (trace s3) = closes (trace s) @ fds" "length fds \<le> 1"
          using cc o2 True by fastforce
        then show ?thesis
          by (intro exchanged_early [OF fin _ _ _ _ by3]) (simp add: connect_failure_def errno_defs)
      next
        case False
        then have run: "exchange_send rndl fd (Some (request_bytes t)) dl ad1 s3 = Some ((r, resp), ad', s')"
          using assms(1) b t tr0 ms ms0 cn by (simp add: exchange_run_def encode_request_bytes)
        have own: "owns_fd rndl fd (request_bytes t) (Ev_cancel True \<notin> set (script s3)) s3 r resp ad' s'"
          using send_owns [OF run] False by simp
        have sc: "set (script s3) \<subseteq> set (script s)"
          using connect_script [OF cn] transfers_script q2 by (auto simp: silent_def)
        have "opens (trace s3) = opens (trace s) @ [fd]" "closes (trace s3) = closes (trace s)"
          using cc False o2 by auto
        moreover have "answered rndl fd (request_bytes t) (Ev_cancel True \<notin> set (script s)) s r resp s'"
        proof (rule answered_from)
          show "answered rndl fd (request_bytes t) (Ev_cancel True \<notin> set (script s3)) s3 r resp s'"
            using own by (simp add: owns_fd_def)
        qed (use by3 [of fd] sc in blast)+
        ultimately show ?thesis using own t by (auto simp: exchanged_def owns_fd_def)
      qed
    qed
  qed
qed

text \<open>
  C7: an exchange of an idle adapter always leaves it idle again, with no descriptor registered and
  no cancel pending, and with every descriptor it opened closed, whatever fails on the way and
  whenever a cancel comes in.  When it returns 0, it has sent exactly the encoding of the translated
  request on its connection, received exactly one response packet there, and its response is
  the translation of that packet.
\<close>

theorem adapter_exchange:
  assumes "exchange_run rndl ad request dl s = Some ((r, resp), ad', s')" and "\<not> ad_active ad"
  shows "\<not> ad_active ad' \<and> ad_active_fd ad' = - 1 \<and> \<not> ad_cancel_requested ad' \<and>
     (\<exists>fds. opens (trace s') = opens (trace s) @ fds \<and> closes (trace s') = closes (trace s) @ fds) \<and>
     (r = 0 \<longrightarrow> (\<exists>fd packet d. received fd (trace s') = received fd (trace s) @ packet \<and>
        sent fd (trace s') = sent fd (trace s) @ request_bytes (snd (qcpu_adapter_translate_request request)) \<and>
        length packet = QCPU_DEVICE_RESPONSE_WIRE_SIZE \<and>
        qcpu_device_decode_response (Some zero_response) (Some packet) QCPU_DEVICE_RESPONSE_WIRE_SIZE =
          (QCPU_DEVICE_STATUS_OK, Some d) \<and>
        qcpu_adapter_translate_response rndl d = (0, resp)))"
proof -
  obtain fds where e: "\<not> ad_active ad'" "ad_active_fd ad' = - 1" "\<not> ad_cancel_requested ad'"
      "opens (trace s') = opens (trace s) @ fds" "closes (trace s') = closes (trace s) @ fds"
      "r = 0 \<longrightarrow> fds \<noteq> []" "length fds \<le> 1"
      "\<forall>fd. fds = [fd] \<longrightarrow> answered rndl fd (request_bytes (snd (qcpu_adapter_translate_request request)))
         (Ev_cancel True \<notin> set (script s)) s r resp s'"
    using exchange_owns [OF assms] by (auto simp: exchanged_def)
  show ?thesis
  proof (cases "r = 0")
    case True
    then obtain fd where "fds = [fd]" using e(6,7) by (cases fds) auto
    then have "answered rndl fd (request_bytes (snd (qcpu_adapter_translate_request request)))
        (Ev_cancel True \<notin> set (script s)) s r resp s'"
      using e(8) by simp
    then show ?thesis
      using e(1-5) True unfolding answered_def by (elim exE conjE) (intro conjI exI [of _ fds] impI exI [of _ fd], auto)
  qed (use e(1-5) in blast)
qed

definition status_request :: qcpu_uapi_request_v1 where
  "status_request = \<lparr> uq_magic = 0x51445631, uq_version = 1, uq_command = 1, uq_qubits = 0,
     uq_shots = 0, uq_seed = 0 \<rparr>"

definition status_trace :: "os_action list" where
  "status_trace =
     (let t = snd (qcpu_adapter_translate_request status_request)
      in clean_trace 7 (request_bytes t) (response_bytes (process_request rnd_double (True, True) t)))"

theorem adapter_exchange_witness:
  "\<exists>fd packet d resp. received fd status_trace = packet \<and> length packet = 56 \<and>
     qcpu_device_decode_response (Some zero_response) (Some packet) QCPU_DEVICE_RESPONSE_WIRE_SIZE =
       (QCPU_DEVICE_STATUS_OK, Some d) \<and>
     qcpu_adapter_translate_response (rnd_prec 64) d = (0, resp)"
proof -
  let ?t = "snd (qcpu_adapter_translate_request status_request)"
  let ?d = "process_request rnd_double (True, True) ?t"
  have req: "check_request status_request = None"
    by (simp add: check_request_def status_request_def uapi_consts)
  obtain resp where resp: "qcpu_adapter_translate_response (rnd_prec 64) ?d = (0, resp)"
    using answer_translated [OF req fp_rounding_rnd_prec, of 64] by auto
  have dec: "qcpu_device_decode_response (Some zero_response) (Some (response_bytes ?d)) QCPU_DEVICE_RESPONSE_WIRE_SIZE =
      (QCPU_DEVICE_STATUS_OK, Some ?d)"
    by (simp add: decode_response_bytes answer_header header_status_def)
  have "qcpu_adapter_translate_request status_request = (0, ?t)" by (simp add: check_request_translates [OF req])
  from clean_exchange_run [OF this dec, of "''/run/qcpu.sock''" 7 "rnd_prec 64"]
  have "exchange_run (rnd_prec 64) (idle_adapter ''/run/qcpu.sock'') status_request 3000000000
      \<lparr>script = clean_exchange 7 (response_bytes ?d), trace = []\<rparr> = Some ((0, resp), idle_adapter ''/run/qcpu.sock'',
      \<lparr>script = [], trace = status_trace\<rparr>)"
    by (simp add: resp status_trace_def Let_def)
  from adapter_exchange [OF this] have "\<exists>fd packet d. received fd status_trace = packet \<and>
     length packet = QCPU_DEVICE_RESPONSE_WIRE_SIZE \<and>
     qcpu_device_decode_response (Some zero_response) (Some packet) QCPU_DEVICE_RESPONSE_WIRE_SIZE =
       (QCPU_DEVICE_STATUS_OK, Some d) \<and>
     qcpu_adapter_translate_response (rnd_prec 64) d = (0, resp)"
    by (auto simp: idle_adapter_def)
  then show ?thesis by (simp add: QCPU_DEVICE_RESPONSE_WIRE_SIZE_def) blast
qed

end
