(* ===== verification/Tool_Error.thy ===== *)
theory Tool_Error
  imports Prelude
begin

text \<open>
  Errors of the language toolchain as values.  The C code checks almost no bound: where it would
  write or read outside an array, follow a \<^verbatim>\<open>NULL\<close> pointer or overflow a signed conversion, the model
  stops with the error that names the spot.
\<close>

datatype tool_error =
    Lexeme_too_long \<comment> \<open>a lexeme does not fit the local buffer of \<^verbatim>\<open>tokenize\<close>\<close>
  | Too_many_tokens \<comment> \<open>a write to \<^verbatim>\<open>tokens[MAX_TOKENS]\<close>\<close>
  | Token_past_end \<comment> \<open>the parser reads a token that \<^verbatim>\<open>tokenize\<close> did not write\<close>
  | Null_pointer \<comment> \<open>a \<^verbatim>\<open>NULL\<close> pointer is followed\<close>
  | Too_many_instructions \<comment> \<open>a write to \<^verbatim>\<open>bytecode[MAX_INSTR]\<close>\<close>
  | Argument_too_long \<comment> \<open>a \<^verbatim>\<open>strcpy\<close> into a 64-byte array\<close>
  | Number_out_of_range \<comment> \<open>\<^verbatim>\<open>atoi\<close> of a number that is no \<^verbatim>\<open>int\<close>\<close>
  | Table_full \<comment> \<open>a write past a table of variables or qubits of the syntax tree interpreter\<close>
  | Short_file \<comment> \<open>a bytecode file holds less than its count says\<close>
  | Out_of_fuel \<comment> \<open>the bound of a recursion in the model is used up\<close>

text \<open>Sequencing of computations that may fail.\<close>

definition ebind :: "'e + 'a \<Rightarrow> ('a \<Rightarrow> 'e + 'b) \<Rightarrow> 'e + 'b" where
  "ebind m f = (case m of Inl e \<Rightarrow> Inl e | Inr x \<Rightarrow> f x)"

lemma ebind_simps [simp]: "ebind (Inl e) f = Inl e" "ebind (Inr x) f = f x"
  by (simp_all add: ebind_def)

lemma ebind_cong [fundef_cong]:
  assumes "m = m'" and "\<And>x. m' = Inr x \<Longrightarrow> f x = f' x"
  shows "ebind m f = ebind m' f'"
  using assms by (cases m') auto

lemma ebind_Inr_iff: "ebind m f = Inr y \<longleftrightarrow> (\<exists>x. m = Inr x \<and> f x = Inr y)"
  by (cases m) auto

lemma ebindE [elim!]:
  assumes "ebind m f = Inr y"
  obtains x where "m = Inr x" "f x = Inr y"
  using assms by (auto simp: ebind_Inr_iff)

lemma ebind_Inl_iff: "ebind m f = Inl e \<longleftrightarrow> m = Inl e \<or> (\<exists>x. m = Inr x \<and> f x = Inl e)"
  by (cases m) auto

lemma ebind_not_Inl:
  assumes "m \<noteq> Inl e" and "\<And>x. m = Inr x \<Longrightarrow> f x \<noteq> Inl e"
  shows "ebind m f \<noteq> Inl e"
  using assms by (cases m) auto

end
