(* ===== verification/Lexer.thy ===== *)
theory Lexer
  imports Tool_Error
begin

text \<open>
  The tokenizer, \<^verbatim>\<open>src/src/lexer/lexer.c\<close> and \<^verbatim>\<open>lexer.h\<close>.  A source is the list of the characters before
  its terminating zero, shorter than \<open>2 ^ 31\<close>; the character classes are those of the C locale.
\<close>

section \<open>Tokens\<close>

datatype TokenType =
    TOKEN_SAY | TOKEN_LET | TOKEN_CHECK | TOKEN_OTHERWISE | TOKEN_REPEAT | TOKEN_ACTION | TOKEN_QBIT
  | TOKEN_HADAMARD | TOKEN_MEASURE | TOKEN_ENTANGLE | TOKEN_CNOT | TOKEN_QMSG | TOKEN_ENCODE
  | TOKEN_DECODE | TOKEN_STATE_0 | TOKEN_STATE_1 | TOKEN_STATE_PLUS | TOKEN_STATE_MINUS | TOKEN_EQ
  | TOKEN_GT | TOKEN_LT | TOKEN_GTE | TOKEN_LTE | TOKEN_EQEQ | TOKEN_IDENT | TOKEN_NUMBER
  | TOKEN_STRING | TOKEN_LBRACE | TOKEN_RBRACE | TOKEN_DIRECTIVE | TOKEN_EOF | TOKEN_UNKNOWN

record Token =
  tok_type :: TokenType
  tok_value :: string
  tok_line :: nat

definition MAX_TOKENS :: nat where "MAX_TOKENS = 1024"

definition add_token :: "TokenType \<Rightarrow> string \<Rightarrow> nat \<Rightarrow> Token list \<Rightarrow> tool_error + Token list" where
  "add_token type val line tokens =
     (if length tokens < MAX_TOKENS
      then Inr (tokens @ [\<lparr>tok_type = type, tok_value = take 255 val, tok_line = line\<rparr>])
      else Inl Too_many_tokens)"

fun token_name :: "TokenType \<Rightarrow> string" where
  "token_name TOKEN_SAY = ''SAY''"
| "token_name TOKEN_LET = ''LET''"
| "token_name TOKEN_CHECK = ''CHECK''"
| "token_name TOKEN_OTHERWISE = ''OTHERWISE''"
| "token_name TOKEN_REPEAT = ''REPEAT''"
| "token_name TOKEN_ACTION = ''ACTION''"
| "token_name TOKEN_QBIT = ''QBIT''"
| "token_name TOKEN_HADAMARD = ''HADAMARD''"
| "token_name TOKEN_MEASURE = ''MEASURE''"
| "token_name TOKEN_ENTANGLE = ''ENTANGLE''"
| "token_name TOKEN_CNOT = ''CNOT''"
| "token_name TOKEN_QMSG = ''QMSG''"
| "token_name TOKEN_ENCODE = ''ENCODE''"
| "token_name TOKEN_DECODE = ''DECODE''"
| "token_name TOKEN_STATE_0 = ''STATE|0>''"
| "token_name TOKEN_STATE_1 = ''STATE|1>''"
| "token_name TOKEN_STATE_PLUS = ''STATE|+>''"
| "token_name TOKEN_STATE_MINUS = ''STATE|->''"
| "token_name TOKEN_EQ = ''=''"
| "token_name TOKEN_EQEQ = ''==''"
| "token_name TOKEN_GT = ''>''"
| "token_name TOKEN_LT = ''<''"
| "token_name TOKEN_GTE = ''>=''"
| "token_name TOKEN_LTE = ''<=''"
| "token_name TOKEN_IDENT = ''IDENT''"
| "token_name TOKEN_NUMBER = ''NUMBER''"
| "token_name TOKEN_STRING = ''STRING''"
| "token_name TOKEN_LBRACE = ''{''"
| "token_name TOKEN_RBRACE = ''}''"
| "token_name TOKEN_DIRECTIVE = ''DIRECTIVE''"
| "token_name TOKEN_EOF = ''EOF''"
| "token_name TOKEN_UNKNOWN = ''UNKNOWN''"

section \<open>Characters\<close>

definition code_of :: "char \<Rightarrow> nat" where "code_of c = of_char c"

definition isspace :: "char \<Rightarrow> bool" where
  "isspace c \<longleftrightarrow> code_of c = 32 \<or> 9 \<le> code_of c \<and> code_of c \<le> 13"

definition isdigit :: "char \<Rightarrow> bool" where
  "isdigit c \<longleftrightarrow> 48 \<le> code_of c \<and> code_of c \<le> 57"

definition isalpha :: "char \<Rightarrow> bool" where
  "isalpha c \<longleftrightarrow> 65 \<le> code_of c \<and> code_of c \<le> 90 \<or> 97 \<le> code_of c \<and> code_of c \<le> 122"

definition isalnum :: "char \<Rightarrow> bool" where
  "isalnum c \<longleftrightarrow> isalpha c \<or> isdigit c"

text \<open>\<^verbatim>\<open>src[i]\<close>, the terminating zero included.\<close>

definition src_at :: "string \<Rightarrow> nat \<Rightarrow> char" where
  "src_at src i = (if i < length src then src ! i else CHR 0x00)"

text \<open>
  The copying loops \<^verbatim>\<open>while (i < len && P(src[i])) buf[j++] = src[i++]; buf[j] = 0\<close> over a buffer of \<open>cap\<close>
  bytes: the lexeme and the new index.
\<close>

definition scan :: "nat \<Rightarrow> (char \<Rightarrow> bool) \<Rightarrow> string \<Rightarrow> nat \<Rightarrow> tool_error + string \<times> nat" where
  "scan cap P src i =
     (let buf = takeWhile P (drop i src)
      in if length buf < cap then Inr (buf, i + length buf) else Inl Lexeme_too_long)"

section \<open>The tokenizer\<close>

definition keyword_type :: "string \<Rightarrow> TokenType" where
  "keyword_type buf =
     (if buf = ''say'' then TOKEN_SAY
      else if buf = ''let'' then TOKEN_LET
      else if buf = ''check'' then TOKEN_CHECK
      else if buf = ''otherwise'' then TOKEN_OTHERWISE
      else if buf = ''repeat'' then TOKEN_REPEAT
      else if buf = ''action'' then TOKEN_ACTION
      else if buf = ''qbit'' then TOKEN_QBIT
      else if buf = ''hadamard'' then TOKEN_HADAMARD
      else if buf = ''measure'' then TOKEN_MEASURE
      else if buf = ''entangle'' then TOKEN_ENTANGLE
      else if buf = ''cnot'' then TOKEN_CNOT
      else if buf = ''qmsg'' then TOKEN_QMSG
      else if buf = ''encode'' then TOKEN_ENCODE
      else if buf = ''decode'' then TOKEN_DECODE
      else TOKEN_IDENT)"

text \<open>The tokens of fixed text, tried in the order of the code: type, text and characters skipped.\<close>

definition fixed_token :: "char \<Rightarrow> char \<Rightarrow> (TokenType \<times> string \<times> nat) option" where
  "fixed_token c n =
     (if c = CHR ''|'' \<and> n = CHR ''0'' then Some (TOKEN_STATE_0, ''|0>'', 3)
      else if c = CHR ''|'' \<and> n = CHR ''1'' then Some (TOKEN_STATE_1, ''|1>'', 3)
      else if c = CHR ''|'' \<and> n = CHR ''+'' then Some (TOKEN_STATE_PLUS, ''|+>'', 3)
      else if c = CHR ''|'' \<and> n = CHR ''-'' then Some (TOKEN_STATE_MINUS, ''|->'', 3)
      else if c = CHR ''='' \<and> n = CHR ''='' then Some (TOKEN_EQEQ, ''=='', 2)
      else if c = CHR ''>'' \<and> n = CHR ''='' then Some (TOKEN_GTE, ''>='', 2)
      else if c = CHR ''<'' \<and> n = CHR ''='' then Some (TOKEN_LTE, ''<='', 2)
      else if c = CHR ''='' then Some (TOKEN_EQ, ''='', 1)
      else if c = CHR ''>'' then Some (TOKEN_GT, ''>'', 1)
      else if c = CHR ''<'' then Some (TOKEN_LT, ''<'', 1)
      else if c = CHR ''{'' then Some (TOKEN_LBRACE, ''{'', 1)
      else if c = CHR ''}'' then Some (TOKEN_RBRACE, ''}'', 1)
      else None)"

text \<open>One round of the loop: the new index, line and tokens.\<close>

definition lex_step :: "string \<Rightarrow> nat \<Rightarrow> nat \<Rightarrow> Token list \<Rightarrow> tool_error + nat \<times> nat \<times> Token list" where
  "lex_step src i line tokens =
     (let c = src_at src i;
          emit_token = (\<lambda>type val i'. ebind (add_token type val line tokens) (\<lambda>ts. Inr (i', line, ts)))
      in if c = CHR 0x0A then Inr (i + 1, line + 1, tokens)
         else if isspace c then Inr (i + 1, line, tokens)
         else if c = CHR ''@''
         then ebind (scan 256 (\<lambda>c. \<not> isspace c \<and> c \<noteq> CHR 0x0A) src (i + 1))
                (\<lambda>(buf, i'). emit_token TOKEN_DIRECTIVE buf i')
         else if c = CHR 0x22
         then ebind (scan 256 (\<lambda>c. c \<noteq> CHR 0x22) src (i + 1))
                (\<lambda>(buf, i'). emit_token TOKEN_STRING buf (i' + 1))
         else case fixed_token c (src_at src (i + 1)) of
             Some (type, val, n) \<Rightarrow> emit_token type val (i + n)
           | None \<Rightarrow>
               if isdigit c
               then ebind (scan 64 isdigit src i) (\<lambda>(buf, i'). emit_token TOKEN_NUMBER buf i')
               else if isalpha c \<or> c = CHR ''_''
               then ebind (scan 256 (\<lambda>c. isalnum c \<or> c = CHR ''_'') src i)
                      (\<lambda>(buf, i'). emit_token (keyword_type buf) buf i')
               else Inr (i + 1, line, tokens))"

lemma fixed_token_length: "fixed_token c n = Some (type, val, k) \<Longrightarrow> 0 < k \<and> k = length val"
  by (auto simp: fixed_token_def split: if_split_asm)

lemma scan_Inr: "scan cap P src i = Inr (buf, i') \<longleftrightarrow>
    buf = takeWhile P (drop i src) \<and> length buf < cap \<and> i' = i + length buf"
  by (auto simp: scan_def Let_def split: if_split_asm)

lemma scan_progress:
  assumes "scan cap P src i = Inr (buf, i')" and "i < length src" and "P (src ! i)"
  shows "i < i'"
  using assms by (auto simp: scan_Inr Cons_nth_drop_Suc [symmetric])

lemma lex_step_advances:
  assumes "lex_step src i line tokens = Inr (i', line', tokens')" and "i < length src"
  shows "i < i'"
  using assms
  by (auto simp: lex_step_def Let_def src_at_def isalnum_def split: if_split_asm option.split_asm
      dest: fixed_token_length scan_progress simp: scan_Inr Cons_nth_drop_Suc [symmetric])

function lex_loop :: "string \<Rightarrow> nat \<Rightarrow> nat \<Rightarrow> Token list \<Rightarrow> tool_error + nat \<times> Token list" where
  "lex_loop src i line tokens =
     (if i < length src
      then ebind (lex_step src i line tokens) (\<lambda>(i', line', tokens'). lex_loop src i' line' tokens')
      else Inr (line, tokens))"
  by pat_completeness auto
termination
  by (relation "measure (\<lambda>(src, i, line, tokens). length src - i)")
    (auto dest: lex_step_advances)

declare lex_loop.simps [simp del]

definition tokenize :: "string \<Rightarrow> tool_error + Token list" where
  "tokenize src =
     ebind (lex_loop src 0 1 []) (\<lambda>(line, tokens). add_token TOKEN_EOF ''EOF'' line tokens)"

section \<open>What a token looks like\<close>

definition is_word :: "string \<Rightarrow> bool" where
  "is_word v \<longleftrightarrow> v \<noteq> [] \<and> (isalpha (hd v) \<or> hd v = CHR ''_'') \<and> list_all (\<lambda>c. isalnum c \<or> c = CHR ''_'') v"

definition is_fixed :: "Token \<Rightarrow> bool" where
  "is_fixed t \<longleftrightarrow> tok_value t \<noteq> [] \<and>
     fixed_token (tok_value t ! 0) (if 1 < length (tok_value t) then tok_value t ! 1 else CHR '' '') =
       Some (tok_type t, tok_value t, length (tok_value t))"

definition lexeme_ok :: "Token \<Rightarrow> bool" where
  "lexeme_ok t \<longleftrightarrow>
     tok_type t = TOKEN_STRING \<and> CHR 0x22 \<notin> set (tok_value t) \<and> length (tok_value t) < 256 \<or>
     tok_type t = TOKEN_DIRECTIVE \<and> list_all (\<lambda>c. \<not> isspace c) (tok_value t) \<and> length (tok_value t) < 256 \<or>
     tok_type t = TOKEN_NUMBER \<and> tok_value t \<noteq> [] \<and> list_all isdigit (tok_value t) \<and> length (tok_value t) < 64 \<or>
     is_word (tok_value t) \<and> tok_type t = keyword_type (tok_value t) \<and> length (tok_value t) < 256 \<or>
     is_fixed t"

text \<open>The source text of a token, and of a list of tokens on the lines they claim to be on.\<close>

definition show_token :: "Token \<Rightarrow> string" where
  "show_token t =
     (if tok_type t = TOKEN_STRING then CHR 0x22 # tok_value t @ [CHR 0x22]
      else if tok_type t = TOKEN_DIRECTIVE then CHR ''@'' # tok_value t
      else tok_value t)"

fun render :: "nat \<Rightarrow> Token list \<Rightarrow> string" where
  "render line [] = []"
| "render line (t # ts) =
     replicate (tok_line t - line) (CHR 0x0A) @ show_token t @ CHR '' '' # render (tok_line t) ts"

definition eof_token :: "nat \<Rightarrow> Token" where
  "eof_token line = \<lparr>tok_type = TOKEN_EOF, tok_value = ''EOF'', tok_line = line\<rparr>"

lemmas char_class_defs = isspace_def isdigit_def isalpha_def isalnum_def code_of_def

lemma keyword_type_types:
  "keyword_type v \<noteq> TOKEN_STRING" "keyword_type v \<noteq> TOKEN_DIRECTIVE" "keyword_type v \<noteq> TOKEN_NUMBER"
  "keyword_type v \<noteq> TOKEN_EOF"
  by (simp_all add: keyword_type_def)

lemma fixed_token_types:
  "fixed_token c n = Some (type, v, k) \<Longrightarrow> type \<notin> {TOKEN_STRING, TOKEN_DIRECTIVE, TOKEN_NUMBER, TOKEN_EOF}"
  by (auto simp: fixed_token_def split: if_split_asm)

lemma fixed_token_chars:
  "fixed_token c n = Some r \<Longrightarrow> c \<in> set ''|=><{}''"
  by (auto simp: fixed_token_def split: if_split_asm)

lemma operator_chars: "c \<in> set ''|=><{}'' \<Longrightarrow> \<not> isspace c \<and> \<not> isdigit c \<and> \<not> isalpha c"
  by (auto simp: char_class_defs)

lemma fixed_token_None:
  "isspace c \<or> isdigit c \<or> isalpha c \<or> c = CHR ''_'' \<Longrightarrow> fixed_token c n = None"
  using fixed_token_chars [of c n] operator_chars [of c] by (cases "fixed_token c n") auto

lemma fixed_token_first:
  "fixed_token c n = Some r \<Longrightarrow> c \<noteq> CHR 0x0A \<and> \<not> isspace c \<and> c \<noteq> CHR ''@'' \<and> c \<noteq> CHR 0x22"
  using fixed_token_chars [of c n r] operator_chars [of c] by auto

lemma takeWhile_sep: "list_all P v \<Longrightarrow> \<not> P c \<Longrightarrow> takeWhile P (v @ c # rest) = v"
  by (induction v) auto

lemma src_at_drop: "drop i src = w \<Longrightarrow> src_at src (i + k) = (if k < length w then w ! k else CHR 0x00)"
  by (auto simp: src_at_def)

lemma src_at_drop0: "drop i src = c # w \<Longrightarrow> src_at src i = c"
  using src_at_drop [of i src "c # w" 0] by simp

lemma space_class [simp]: "isspace CHR '' ''" "\<not> isdigit CHR '' ''" "\<not> isalnum CHR '' ''" "isspace CHR 0x0A"
  by (simp_all add: char_class_defs)

lemma word_first:
  "isdigit c \<or> isalpha c \<or> c = CHR ''_'' \<Longrightarrow> c \<noteq> CHR 0x0A \<and> \<not> isspace c \<and> c \<noteq> CHR ''@'' \<and> c \<noteq> CHR 0x22"
  by (auto simp: char_class_defs)

lemma digit_not_alpha: "isdigit c \<Longrightarrow> \<not> isalpha c \<and> c \<noteq> CHR ''_''"
  by (auto simp: char_class_defs)

text \<open>The tokenizer reads back one token.\<close>

lemma lex_step_token:
  assumes ok: "lexeme_ok t" and src: "drop i src = show_token t @ CHR '' '' # rest"
    and room: "length tokens < MAX_TOKENS"
  shows "lex_step src i line tokens = Inr (i + length (show_token t), line, tokens @ [t\<lparr>tok_line := line\<rparr>])"
proof -
  obtain type v l where t: "t = \<lparr>tok_type = type, tok_value = v, tok_line = l\<rparr>" by (cases t)
  have add: "add_token ty w line tokens = Inr (tokens @ [\<lparr>tok_type = ty, tok_value = w, tok_line = line\<rparr>])"
    if "length w < 256" for ty w
    using that room by (simp add: add_token_def)
  from ok t consider (string) "type = TOKEN_STRING" "CHR 0x22 \<notin> set v" "length v < 256"
    | (directive) "type = TOKEN_DIRECTIVE" "list_all (\<lambda>c. \<not> isspace c) v" "length v < 256"
    | (number) "type = TOKEN_NUMBER" "v \<noteq> []" "list_all isdigit v" "length v < 64"
    | (word) "is_word v" "type = keyword_type v" "length v < 256"
    | (fixed) "is_fixed t"
    by (auto simp: lexeme_ok_def)
  then show ?thesis
  proof cases
    case string
    have s: "drop i src = CHR 0x22 # v @ CHR 0x22 # CHR '' '' # rest" using src t string by (simp add: show_token_def)
    have "takeWhile (\<lambda>c. c \<noteq> CHR 0x22) (v @ CHR 0x22 # CHR '' '' # rest) = v"
      using string(2) by (intro takeWhile_sep) (auto simp: list_all_iff)
    moreover have "drop (i + 1) src = v @ CHR 0x22 # CHR '' '' # rest"
      using arg_cong [OF s, of tl] by (simp add: drop_Suc tl_drop)
    ultimately show ?thesis
      using src_at_drop0 [OF s] string t
      by (simp add: lex_step_def scan_def Let_def add show_token_def char_class_defs)
  next
    case directive
    have s: "drop i src = CHR ''@'' # v @ CHR '' '' # rest" using src t directive by (simp add: show_token_def)
    have "takeWhile (\<lambda>c. \<not> isspace c \<and> c \<noteq> CHR 0x0A) (v @ CHR '' '' # rest) = v"
      using directive(2) by (intro takeWhile_sep) (auto simp: list_all_iff char_class_defs)
    moreover have "drop (i + 1) src = v @ CHR '' '' # rest"
      using arg_cong [OF s, of tl] by (simp add: drop_Suc tl_drop)
    moreover have "\<not> isspace CHR ''@''" by (simp add: char_class_defs)
    ultimately show ?thesis
      using src_at_drop0 [OF s] directive t
      by (simp add: lex_step_def scan_def Let_def add show_token_def)
  next
    case number
    then obtain c w where v: "v = c # w" "isdigit c" by (cases v) auto
    have s: "drop i src = v @ CHR '' '' # rest" using src t number by (simp add: show_token_def)
    have "takeWhile isdigit (drop i src) = v" unfolding s using number(3) by (intro takeWhile_sep) simp_all
    moreover have "src_at src i = c" using s v(1) by (simp add: src_at_drop0)
    ultimately show ?thesis
      using v number t word_first [of c] fixed_token_None [of c]
      by (simp add: lex_step_def scan_def Let_def add show_token_def)
  next
    case word
    then obtain c w where v: "v = c # w" "isalpha c \<or> c = CHR ''_''" by (cases v) (auto simp: is_word_def)
    have s: "drop i src = v @ CHR '' '' # rest"
      using src t word keyword_type_types by (simp add: show_token_def)
    have "takeWhile (\<lambda>c. isalnum c \<or> c = CHR ''_'') (drop i src) = v"
      unfolding s using word(1) by (intro takeWhile_sep) (simp_all add: is_word_def)
    moreover have "src_at src i = c" using s v(1) by (simp add: src_at_drop0)
    ultimately show ?thesis
      using v word t word_first [of c] fixed_token_None [of c] digit_not_alpha [of c] keyword_type_types
      by (auto simp: lex_step_def scan_def Let_def add show_token_def)
  next
    case fixed
    have f: "fixed_token (v ! 0) (if 1 < length v then v ! 1 else CHR '' '') = Some (type, v, length v)" "v \<noteq> []"
      using fixed t by (auto simp: is_fixed_def)
    have s: "drop i src = v @ CHR '' '' # rest"
      using src t fixed_token_types [OF f(1)] by (simp add: show_token_def)
    have c: "src_at src i = v ! 0" "src_at src (Suc i) = (if 1 < length v then v ! 1 else CHR '' '')"
      using src_at_drop [OF s, of 0] src_at_drop [OF s, of 1] f(2)
      by (cases v; auto simp: nth_append)+
    have l: "length v < 256" using f(1) by (auto simp: fixed_token_def split: if_split_asm)
    show ?thesis
      using f(1) fixed_token_first [OF f(1)] fixed_token_types [OF f(1)] t
      by (simp add: lex_step_def Let_def c add [OF l] show_token_def)
  qed
qed

lemma lex_loop_next:
  assumes "lex_step src i line tokens = Inr (i', line', tokens')" and "i < length src"
  shows "lex_loop src i line tokens = lex_loop src i' line' tokens'"
  using assms by (subst lex_loop.simps) simp

lemma lex_loop_end: "length src \<le> i \<Longrightarrow> lex_loop src i line tokens = Inr (line, tokens)"
  by (subst lex_loop.simps) simp

lemma drop_more: "drop i src = u @ w \<Longrightarrow> drop (i + length u) src = w"
  by (metis add.commute append_eq_conv_conj drop_drop)

lemma drop_nonempty: "drop i src = c # w \<Longrightarrow> i < length src"
  by (metis drop_all linorder_not_le list.distinct(1))

lemma lex_loop_newlines:
  "drop i src = replicate k (CHR 0x0A) @ rest \<Longrightarrow>
     lex_loop src i line tokens = lex_loop src (i + k) (line + k) tokens"
proof (induction k arbitrary: i line)
  case (Suc k)
  have s: "drop i src = CHR 0x0A # replicate k (CHR 0x0A) @ rest" using Suc.prems by simp
  have "lex_step src i line tokens = Inr (i + 1, line + 1, tokens)"
    by (simp add: lex_step_def src_at_drop0 [OF s])
  from lex_loop_next [OF this drop_nonempty [OF s]] show ?case
    using Suc.IH [of "i + 1" "line + 1"] drop_more [of i src "[CHR 0x0A]"] s by simp
qed simp

lemma lex_loop_space:
  assumes "drop i src = CHR '' '' # rest"
  shows "lex_loop src i line tokens = lex_loop src (i + 1) line tokens"
  using assms by (intro lex_loop_next) (auto simp: lex_step_def src_at_drop0 intro: drop_nonempty)

lemma show_token_nonempty: "lexeme_ok t \<Longrightarrow> show_token t \<noteq> []"
  by (auto simp: lexeme_ok_def show_token_def is_word_def is_fixed_def)

fun last_line :: "nat \<Rightarrow> Token list \<Rightarrow> nat" where
  "last_line line [] = line"
| "last_line line (t # ts) = last_line (tok_line t) ts"

fun lines_ok :: "nat \<Rightarrow> Token list \<Rightarrow> bool" where
  "lines_ok line [] = True"
| "lines_ok line (t # ts) = (line \<le> tok_line t \<and> lines_ok (tok_line t) ts)"

lemma lex_loop_render:
  assumes "drop i src = render line ts" and "list_all lexeme_ok ts" and "lines_ok line ts"
    and "length tokens + length ts \<le> MAX_TOKENS"
  shows "lex_loop src i line tokens = Inr (last_line line ts, tokens @ ts)"
  using assms
proof (induction ts arbitrary: i line tokens)
  case Nil
  then show ?case by (simp add: lex_loop_end)
next
  case (Cons t ts)
  define k where "k = tok_line t - line"
  have s0: "drop i src = replicate k (CHR 0x0A) @ show_token t @ CHR '' '' # render (tok_line t) ts"
    using Cons.prems(1) by (simp add: k_def)
  have s1: "drop (i + k) src = show_token t @ CHR '' '' # render (tok_line t) ts"
    using drop_more [OF s0] by simp
  have s2: "drop (i + k + length (show_token t)) src = CHR '' '' # render (tok_line t) ts"
    by (rule drop_more [OF s1])
  have k: "line + k = tok_line t" using Cons.prems(3) by (simp add: k_def)
  have ok: "lexeme_ok t" using Cons.prems(2) by simp
  have "lex_step src (i + k) (tok_line t) tokens =
      Inr (i + k + length (show_token t), tok_line t, tokens @ [t])"
    using lex_step_token [OF ok s1, of tokens "tok_line t"] Cons.prems(4) by simp
  moreover have "i + k < length src"
    using s1 show_token_nonempty [OF ok] by (cases "show_token t") (auto intro: drop_nonempty)
  ultimately have "lex_loop src i line tokens =
      lex_loop src (i + k + length (show_token t) + 1) (tok_line t) (tokens @ [t])"
    using lex_loop_newlines [OF s0, of line tokens] lex_loop_next lex_loop_space [OF s2] k by simp
  also have "\<dots> = Inr (last_line (tok_line t) ts, (tokens @ [t]) @ ts)"
    using Cons.prems drop_more [of "i + k + length (show_token t)" src "[CHR '' '']"] s2
    by (intro Cons.IH) simp_all
  finally show ?case by simp
qed

lemma tokenize_render:
  assumes "list_all lexeme_ok ts" and "lines_ok 1 ts" and "length ts < MAX_TOKENS"
  shows "tokenize (render 1 ts) = Inr (ts @ [eof_token (last_line 1 ts)])"
  using lex_loop_render [of 0 "render 1 ts" 1 ts "[]"] assms
  by (simp add: tokenize_def add_token_def eof_token_def)

text \<open>What one round can produce.\<close>

lemma list_all_takeWhile: "list_all P (takeWhile P xs)"
  by (induction xs) auto

lemma take_255 [simp]: "length (w :: 'a list) < 256 \<Longrightarrow> take 255 w = w"
  by simp

lemma scan_word:
  assumes "scan 256 (\<lambda>c. isalnum c \<or> c = CHR ''_'') src i = Inr (buf, i')" and "i < length src"
    and "isalpha (src ! i) \<or> src ! i = CHR ''_''"
  shows "is_word buf \<and> length buf < 256"
proof -
  have "drop i src = src ! i # drop (Suc i) src" using assms(2) by (simp add: Cons_nth_drop_Suc)
  moreover have "list_all (\<lambda>c. isalnum c \<or> c = CHR ''_'') buf" "length buf < 256"
    using assms(1) by (auto simp: scan_Inr list_all_takeWhile)
  moreover have "isalnum (src ! i) \<or> src ! i = CHR ''_''" using assms(3) by (auto simp: isalnum_def)
  ultimately have "buf \<noteq> [] \<and> hd buf = src ! i" using assms(1) by (simp add: scan_Inr)
  then show ?thesis using assms(3) \<open>list_all _ buf\<close> \<open>length buf < 256\<close> by (simp add: is_word_def)
qed

lemma fixed_token_emits:
  "fixed_token c n = Some r \<Longrightarrow>
     r \<in> {(TOKEN_STATE_0, ''|0>'', 3), (TOKEN_STATE_1, ''|1>'', 3), (TOKEN_STATE_PLUS, ''|+>'', 3),
       (TOKEN_STATE_MINUS, ''|->'', 3), (TOKEN_EQEQ, ''=='', 2), (TOKEN_GTE, ''>='', 2), (TOKEN_LTE, ''<='', 2),
       (TOKEN_EQ, ''='', 1), (TOKEN_GT, ''>'', 1), (TOKEN_LT, ''<'', 1), (TOKEN_LBRACE, ''{'', 1),
       (TOKEN_RBRACE, ''}'', 1)}"
  unfolding fixed_token_def by (simp split: if_split_asm)

lemma is_fixed_emitted:
  "fixed_token c n = Some (type, v, k) \<Longrightarrow> is_fixed \<lparr>tok_type = type, tok_value = v, tok_line = l\<rparr> \<and> length v < 256"
  by (drule fixed_token_emits, elim insertE emptyE) (simp_all add: is_fixed_def fixed_token_def)

lemma lex_step_effect:
  assumes "lex_step src i line tokens = Inr (i', line', tokens')" and i: "i < length src"
  shows "line \<le> line' \<and> tokens' = tokens \<or>
     line' = line \<and> length tokens < MAX_TOKENS \<and> (\<exists>t. tokens' = tokens @ [t] \<and> tok_line t = line \<and> lexeme_ok t)"
proof -
  have lx: "lexeme_ok \<lparr>tok_type = TOKEN_STRING, tok_value = v, tok_line = line\<rparr>"
    if "CHR 0x22 \<notin> set v" "length v < 256" for v using that by (simp add: lexeme_ok_def)
  have ld: "lexeme_ok \<lparr>tok_type = TOKEN_DIRECTIVE, tok_value = v, tok_line = line\<rparr>"
    if "list_all (\<lambda>c. \<not> isspace c) v" "length v < 256" for v using that by (simp add: lexeme_ok_def)
  have ln: "lexeme_ok \<lparr>tok_type = TOKEN_NUMBER, tok_value = v, tok_line = line\<rparr>"
    if "v \<noteq> []" "list_all isdigit v" "length v < 64" for v using that by (simp add: lexeme_ok_def)
  have lw: "lexeme_ok \<lparr>tok_type = keyword_type v, tok_value = v, tok_line = line\<rparr>"
    if "is_word v" "length v < 256" for v using that by (simp add: lexeme_ok_def)
  have lf: "lexeme_ok \<lparr>tok_type = type, tok_value = v, tok_line = line\<rparr>"
    if "fixed_token c n = Some (type, v, k)" for type v c n k
    using is_fixed_emitted [OF that] by (simp add: lexeme_ok_def)
  have emit: ?thesis
    if e: "ebind (add_token type v line tokens) (\<lambda>ts. Inr (j, line, ts)) = Inr (i', line', tokens')"
      and "lexeme_ok \<lparr>tok_type = type, tok_value = v, tok_line = line\<rparr>" "length v < 256" for type v j
    using that by (auto simp: add_token_def split: if_split_asm)
  let ?c = "src ! i"
  have c: "src_at src i = ?c" using i by (simp add: src_at_def)
  consider (newline) "?c = CHR 0x0A" | (space) "isspace ?c" "?c \<noteq> CHR 0x0A"
    | (dir) "?c = CHR ''@''" | (str) "?c = CHR 0x22"
    | (other) "?c \<noteq> CHR 0x0A" "\<not> isspace ?c" "?c \<noteq> CHR ''@''" "?c \<noteq> CHR 0x22"
    by blast
  then show ?thesis
  proof cases
    case dir
    then obtain v j where s: "scan 256 (\<lambda>c. \<not> isspace c \<and> c \<noteq> CHR 0x0A) src (i + 1) = Inr (v, j)"
        "ebind (add_token TOKEN_DIRECTIVE v line tokens) (\<lambda>ts. Inr (j, line, ts)) = Inr (i', line', tokens')"
      using assms(1) by (auto simp: lex_step_def c Let_def char_class_defs)
    have "list_all (\<lambda>c. \<not> isspace c) v" "length v < 256"
      using s(1) by (auto simp: scan_Inr list_all_iff dest: set_takeWhileD)
    then show ?thesis using emit [OF s(2) ld] by simp
  next
    case str
    then obtain v j where s: "scan 256 (\<lambda>c. c \<noteq> CHR 0x22) src (i + 1) = Inr (v, j)"
        "ebind (add_token TOKEN_STRING v line tokens) (\<lambda>ts. Inr (j + 1, line, ts)) = Inr (i', line', tokens')"
      using assms(1) by (auto simp: lex_step_def c Let_def char_class_defs)
    have "CHR 0x22 \<notin> set v" "length v < 256" using s(1) by (auto simp: scan_Inr dest: set_takeWhileD)
    then show ?thesis using emit [OF s(2) lx] by simp
  next
    case other
    show ?thesis
    proof (cases "fixed_token ?c (src_at src (i + 1))")
      case (Some r)
      obtain type v k where r: "r = (type, v, k)" by (cases r)
      have e: "ebind (add_token type v line tokens) (\<lambda>ts. Inr (i + k, line, ts)) = Inr (i', line', tokens')"
        using assms(1) other Some r by (simp add: lex_step_def c Let_def)
      have l: "length v < 256" using is_fixed_emitted [OF Some [unfolded r]] by blast
      show ?thesis by (rule emit [OF e lf [OF Some [unfolded r]] l])
    next
      case None
      consider (digit) "isdigit ?c" | (letter) "\<not> isdigit ?c" "isalpha ?c \<or> ?c = CHR ''_''"
        | (skip) "\<not> isdigit ?c" "\<not> isalpha ?c" "?c \<noteq> CHR ''_''" by blast
      then show ?thesis
      proof cases
        case digit
        then obtain v j where s: "scan 64 isdigit src i = Inr (v, j)"
            "ebind (add_token TOKEN_NUMBER v line tokens) (\<lambda>ts. Inr (j, line, ts)) = Inr (i', line', tokens')"
          using assms(1) other None by (auto simp: lex_step_def c Let_def)
        have "v \<noteq> []" "list_all isdigit v" "length v < 64"
          using s(1) i digit by (auto simp: scan_Inr list_all_takeWhile Cons_nth_drop_Suc [symmetric])
        then show ?thesis using emit [OF s(2) ln] by simp
      next
        case letter
        then obtain v j where s: "scan 256 (\<lambda>c. isalnum c \<or> c = CHR ''_'') src i = Inr (v, j)"
            "ebind (add_token (keyword_type v) v line tokens) (\<lambda>ts. Inr (j, line, ts)) = Inr (i', line', tokens')"
          using assms(1) other None by (auto simp: lex_step_def c Let_def)
        then show ?thesis using emit [OF s(2) lw] scan_word [OF s(1) i letter(2)] by simp
      next
        case skip
        then show ?thesis using assms(1) other None by (simp add: lex_step_def c Let_def)
      qed
    qed
  qed (use assms(1) c in \<open>auto simp: lex_step_def Let_def\<close>)
qed

lemma last_line_append [simp]: "last_line line (ts @ us) = last_line (last_line line ts) us"
  by (induction ts arbitrary: line) auto

lemma lines_ok_append [simp]: "lines_ok line (ts @ us) \<longleftrightarrow> lines_ok line ts \<and> lines_ok (last_line line ts) us"
  by (induction ts arbitrary: line) auto

lemma lex_loop_tokens:
  assumes "lex_loop src i line tokens = Inr (line', tokens')"
    and "list_all lexeme_ok tokens" and "lines_ok 1 tokens" and "last_line 1 tokens \<le> line"
    and "length tokens \<le> MAX_TOKENS"
  shows "list_all lexeme_ok tokens' \<and> lines_ok 1 tokens' \<and> last_line 1 tokens' \<le> line' \<and> length tokens' \<le> MAX_TOKENS"
  using assms
proof (induction src i line tokens rule: lex_loop.induct)
  case (1 src i line tokens)
  show ?case
  proof (cases "i < length src")
    case True
    obtain i1 line1 toks1 where st: "lex_step src i line tokens = Inr (i1, line1, toks1)"
      using "1.prems"(1) True by (subst (asm) lex_loop.simps) auto
    have rest: "lex_loop src i1 line1 toks1 = Inr (line', tokens')"
      using "1.prems"(1) lex_loop_next [OF st True] by simp
    show ?thesis
      by (rule "1.IH" [OF True st refl refl rest])
        (use lex_step_effect [OF st True] "1.prems" in auto)
  qed (use 1 in \<open>simp add: lex_loop_end\<close>)
qed

text \<open>
  A token list survives printing and lexing: for fewer than 1024 tokens of the shapes the language
  has, on lines that never decrease, the tokenizer reads the printed source back as exactly
  those tokens, with their lines, and the end marker.
\<close>

theorem tokenize_print:
  assumes "list_all lexeme_ok ts" and "lines_ok 1 ts" and "length ts < 1024"
  shows "tokenize (render 1 ts) = Inr (ts @ [eof_token (last_line 1 ts)])"
  using assms by (intro tokenize_render) (simp_all add: MAX_TOKENS_def)

definition sample_tokens :: "Token list" where
  "sample_tokens =
     [\<lparr>tok_type = TOKEN_DIRECTIVE, tok_value = ''quantum.state2'', tok_line = 1\<rparr>,
      \<lparr>tok_type = TOKEN_QBIT, tok_value = ''qbit'', tok_line = 3\<rparr>,
      \<lparr>tok_type = TOKEN_IDENT, tok_value = ''q_1'', tok_line = 3\<rparr>,
      \<lparr>tok_type = TOKEN_EQ, tok_value = ''='', tok_line = 3\<rparr>,
      \<lparr>tok_type = TOKEN_STATE_PLUS, tok_value = ''|+>'', tok_line = 3\<rparr>,
      \<lparr>tok_type = TOKEN_SAY, tok_value = ''say'', tok_line = 4\<rparr>,
      \<lparr>tok_type = TOKEN_STRING, tok_value = ''two words'', tok_line = 4\<rparr>]"

lemma sample_tokens_ok: "list_all lexeme_ok sample_tokens" "lines_ok 1 sample_tokens" "length sample_tokens < 1024"
  by (simp_all add: sample_tokens_def lexeme_ok_def is_word_def keyword_type_def is_fixed_def fixed_token_def
      char_class_defs)

theorem tokenize_print_witness:
  "tokenize (render 1 sample_tokens) = Inr (sample_tokens @ [eof_token 4])"
  using tokenize_print [OF sample_tokens_ok] by (simp add: sample_tokens_def)

text \<open>
  C21: what the tokenizer returns, for every source: at most 1024 tokens, the last one and no other the
  end marker, every token of one of the shapes of the language (so that its value fits
  the 256 bytes of a token), on lines that never decrease; and printing these tokens and lexing them
  again gives the same tokens.
\<close>

theorem tokenize_result:
  assumes "tokenize src = Inr tokens"
  shows "\<exists>ts line. tokens = ts @ [eof_token line] \<and> length tokens \<le> 1024 \<and>
     list_all lexeme_ok ts \<and> lines_ok 1 ts \<and> last_line 1 ts \<le> line \<and>
     tokenize (render 1 ts) = Inr (ts @ [eof_token (last_line 1 ts)])"
proof -
  obtain line ts where l: "lex_loop src 0 1 [] = Inr (line, ts)" "add_token TOKEN_EOF ''EOF'' line ts = Inr tokens"
    using assms by (auto simp: tokenize_def)
  have inv: "list_all lexeme_ok ts" "lines_ok 1 ts" "last_line 1 ts \<le> line"
    using lex_loop_tokens [OF l(1)] by simp_all
  have "tokens = ts @ [eof_token line]" "length ts < MAX_TOKENS"
    using l(2) by (auto simp: add_token_def eof_token_def split: if_split_asm)
  then show ?thesis
    using inv tokenize_render [OF inv(1,2)] by (intro exI [of _ ts] exI [of _ line]) (simp add: MAX_TOKENS_def)
qed

lemma lex_example: "tokenize ''cnot a,b'' =
    Inr [\<lparr>tok_type = TOKEN_CNOT, tok_value = ''cnot'', tok_line = 1\<rparr>,
         \<lparr>tok_type = TOKEN_IDENT, tok_value = ''a'', tok_line = 1\<rparr>,
         \<lparr>tok_type = TOKEN_IDENT, tok_value = ''b'', tok_line = 1\<rparr>, eof_token 1]"
  by code_simp

theorem tokenize_result_witness:
  "tokenize (render 1 [\<lparr>tok_type = TOKEN_CNOT, tok_value = ''cnot'', tok_line = 1\<rparr>,
     \<lparr>tok_type = TOKEN_IDENT, tok_value = ''a'', tok_line = 1\<rparr>,
     \<lparr>tok_type = TOKEN_IDENT, tok_value = ''b'', tok_line = 1\<rparr>]) = tokenize ''cnot a,b''"
  using tokenize_result [OF lex_example] lex_example by auto

lemma scan_short: "length src < cap \<Longrightarrow> \<exists>buf i'. scan cap P src i = Inr (buf, i')"
proof -
  assume "length src < cap"
  moreover have "length (takeWhile P (drop i src)) \<le> length src" using length_takeWhile_le [of P "drop i src"] by simp
  ultimately show ?thesis by (simp add: scan_def Let_def)
qed

lemma lex_step_short:
  assumes "length src < 64" and "length tokens < MAX_TOKENS"
  shows "\<exists>i' line' tokens'. lex_step src i line tokens = Inr (i', line', tokens') \<and> length tokens' \<le> Suc (length tokens)"
proof -
  define fine where "fine r \<longleftrightarrow> (\<exists>i' line' tokens'. r = Inr (i' :: nat, line' :: nat, tokens' :: Token list) \<and>
      length tokens' \<le> Suc (length tokens))" for r :: "tool_error + nat \<times> nat \<times> Token list"
  have a: "\<exists>ts. add_token type v line tokens = Inr ts \<and> length ts = Suc (length tokens)" for type v
    using assms(2) by (simp add: add_token_def)
  have e: "fine (ebind (add_token type v line tokens) (\<lambda>ts. Inr (j, line, ts)))" for type v j
    using a [of type v] by (auto simp: fine_def)
  have s: "fine (ebind (scan cap P src k) (\<lambda>(buf, j). ebind (add_token (ty buf) buf line tokens)
      (\<lambda>ts. Inr (g j, line, ts))))" if "64 \<le> cap" for cap P k ty g
    using scan_short [of src cap P k] e that assms(1) by auto
  have n: "fine (Inr (j, l, tokens))" for j l by (simp add: fine_def)
  have "fine (lex_step src i line tokens)"
    unfolding lex_step_def Let_def by (simp add: e s n split: option.split)
  then show ?thesis by (simp add: fine_def)
qed

lemma lex_loop_short:
  assumes "length src < 64" and "length tokens \<le> i"
  shows "\<exists>line' tokens'. lex_loop src i line tokens = Inr (line', tokens') \<and>
     length tokens' \<le> length tokens + (length src - i)"
  using assms
proof (induction src i line tokens rule: lex_loop.induct)
  case (1 src i line tokens)
  show ?case
  proof (cases "i < length src")
    case True
    then obtain i1 l1 t1 where st: "lex_step src i line tokens = Inr (i1, l1, t1)" "length t1 \<le> Suc (length tokens)"
      using lex_step_short [of src tokens i line] "1.prems" by (auto simp: MAX_TOKENS_def)
    have "i < i1" by (rule lex_step_advances [OF st(1) True])
    then have "length t1 + (length src - i1) \<le> length tokens + (length src - i)" using st(2) True by linarith
    then show ?thesis
      using "1.IH" [OF True st(1) refl refl] "1.prems" st \<open>i < i1\<close> lex_loop_next [OF st(1) True] by fastforce
  qed (use "1.prems" in \<open>simp add: lex_loop_end\<close>)
qed

text \<open>
  C22: the tokenizer checks no bound.  On a source of less than 64 characters it stays inside all of its
  buffers; a number of 64 digits or more is written past the end of its 64-byte buffer.
\<close>

theorem tokenize_bounds:
  "(length src < 64 \<longrightarrow> (\<exists>ts. tokenize src = Inr ts)) \<and>
   (64 \<le> n \<longrightarrow> tokenize (replicate n (CHR ''7'')) = Inl Lexeme_too_long)"
proof (intro conjI impI)
  assume "length src < 64"
  then show "\<exists>ts. tokenize src = Inr ts"
    using lex_loop_short [of src "[]" 0 1] by (auto simp: tokenize_def add_token_def MAX_TOKENS_def)
next
  assume n: "64 \<le> n"
  let ?src = "replicate n (CHR ''7'')"
  have d: "isdigit CHR ''7''" "\<not> isspace CHR ''7''" by (simp_all add: char_class_defs)
  have "scan 64 isdigit ?src 0 = Inl Lexeme_too_long" using n d by (simp add: scan_def)
  moreover have "src_at ?src 0 = CHR ''7''" using n by (simp add: src_at_def)
  ultimately have "lex_step ?src 0 1 [] = Inl Lexeme_too_long"
    using d fixed_token_None [of "CHR ''7''"] by (simp add: lex_step_def Let_def)
  then show "tokenize ?src = Inl Lexeme_too_long"
    using n by (simp add: tokenize_def lex_loop.simps [of ?src 0])
qed

theorem tokenize_bounds_witness:
  "(\<exists>ts. tokenize ''say x'' = Inr ts) \<and> tokenize (replicate 64 (CHR ''7'')) = Inl Lexeme_too_long"
  using tokenize_bounds [of "''say x''" 64] by simp

end
