(* ===== verification/Parser.thy ===== *)
theory Parser
  imports Lexer
begin

text \<open>
  The parser, \<^verbatim>\<open>src/src/parser/parser.c\<close> and \<^verbatim>\<open>parser.h\<close>: recursive descent over the token array with an
  index that nothing bounds.  Reading at an index the tokenizer did not fill is the error
  \<open>Token_past_end\<close>.  \<^verbatim>\<open>calloc\<close> is taken to succeed (the code does not test it).  The recursion is
  bounded by fuel; \<open>parse\<close> supplies enough for every token list.
\<close>

section \<open>Syntax trees\<close>

datatype NodeType =
    NODE_PROGRAM | NODE_SAY | NODE_LET | NODE_CHECK | NODE_BLOCK | NODE_QBIT | NODE_HADAMARD
  | NODE_MEASURE | NODE_ENTANGLE | NODE_CNOT | NODE_QMSG | NODE_ENCODE_QMSG | NODE_DECODE_QMSG
  | NODE_REPEAT | NODE_ACTION | NODE_BINOP | NODE_STRING | NODE_NUMBER | NODE_IDENT | NODE_STATE

datatype ASTNode = ASTNode
  (node_type: NodeType) (node_value: string) (node_left: "ASTNode option") (node_right: "ASTNode option")
  (node_body: "ASTNode option") (node_next: "ASTNode option")

definition new_node :: "NodeType \<Rightarrow> string \<Rightarrow> ASTNode" where
  "new_node type val = ASTNode type (take 255 val) None None None None"

text \<open>Assignments to a field of a node.\<close>

fun with_left :: "ASTNode \<Rightarrow> ASTNode \<Rightarrow> ASTNode" where
  "with_left l (ASTNode ty v _ r b n) = ASTNode ty v (Some l) r b n"

fun with_right :: "ASTNode \<Rightarrow> ASTNode \<Rightarrow> ASTNode" where
  "with_right r (ASTNode ty v l _ b n) = ASTNode ty v l (Some r) b n"

fun with_body :: "ASTNode option \<Rightarrow> ASTNode \<Rightarrow> ASTNode" where
  "with_body b (ASTNode ty v l r _ n) = ASTNode ty v l r b n"

fun with_next :: "ASTNode option \<Rightarrow> ASTNode \<Rightarrow> ASTNode" where
  "with_next n (ASTNode ty v l r b _) = ASTNode ty v l r b n"

text \<open>The list that \<^verbatim>\<open>body = s\<close> and \<^verbatim>\<open>last->next = s\<close> build from statements whose \<^verbatim>\<open>next\<close> is \<^verbatim>\<open>NULL\<close>.\<close>

fun chain :: "ASTNode list \<Rightarrow> ASTNode option" where
  "chain [] = None"
| "chain (s # ss) = Some (with_next (chain ss) s)"

section \<open>Recursive descent\<close>

definition peek :: "Token list \<Rightarrow> nat \<Rightarrow> tool_error + Token" where
  "peek toks pos = (if pos < length toks then Inr (toks ! pos) else Inl Token_past_end)"

definition parse_expr :: "Token list \<Rightarrow> nat \<Rightarrow> tool_error + ASTNode \<times> nat" where
  "parse_expr toks pos =
     ebind (peek toks pos) (\<lambda>l. ebind (peek toks (pos + 1)) (\<lambda>op. ebind (peek toks (pos + 2)) (\<lambda>r.
       Inr (with_right (new_node NODE_NUMBER (tok_value r))
              (with_left (new_node NODE_IDENT (tok_value l)) (new_node NODE_BINOP (tok_value op))), pos + 3))))"

text \<open>A statement that is a keyword and the value of the next token.\<close>

definition parse_unary :: "NodeType \<Rightarrow> Token list \<Rightarrow> nat \<Rightarrow> tool_error + ASTNode \<times> nat" where
  "parse_unary type toks pos =
     ebind (peek toks (pos + 1)) (\<lambda>v. Inr (new_node type (tok_value v), pos + 2))"

text \<open>A keyword, a string or a name (\<^verbatim>\<open>say\<close>, \<^verbatim>\<open>qmsg\<close>).\<close>

definition parse_text :: "NodeType \<Rightarrow> string \<Rightarrow> Token list \<Rightarrow> nat \<Rightarrow> tool_error + ASTNode \<times> nat" where
  "parse_text type val toks pos =
     ebind (peek toks (pos + 1)) (\<lambda>v.
       Inr (with_left (new_node (if tok_type v = TOKEN_STRING then NODE_STRING else NODE_IDENT) (tok_value v))
              (new_node type val), pos + 2))"

text \<open>A keyword, a name, a skipped token and a value (\<^verbatim>\<open>let\<close>, \<^verbatim>\<open>qbit\<close>).\<close>

definition parse_binding :: "NodeType \<Rightarrow> NodeType \<Rightarrow> Token list \<Rightarrow> nat \<Rightarrow> tool_error + ASTNode \<times> nat" where
  "parse_binding type value_type toks pos =
     ebind (peek toks (pos + 1)) (\<lambda>name. ebind (peek toks (pos + 3)) (\<lambda>v.
       Inr (with_left (new_node value_type (tok_value v)) (new_node type (tok_value name)), pos + 4)))"

text \<open>A keyword and two names (\<^verbatim>\<open>entangle\<close>, \<^verbatim>\<open>cnot\<close>).\<close>

definition parse_pair :: "NodeType \<Rightarrow> Token list \<Rightarrow> nat \<Rightarrow> tool_error + ASTNode \<times> nat" where
  "parse_pair type toks pos =
     ebind (peek toks (pos + 1)) (\<lambda>a. ebind (peek toks (pos + 2)) (\<lambda>b.
       Inr (with_left (new_node NODE_IDENT (tok_value b)) (new_node type (tok_value a)), pos + 3)))"

fun parse_stmt :: "nat \<Rightarrow> Token list \<Rightarrow> nat \<Rightarrow> tool_error + ASTNode \<times> nat"
and parse_block :: "nat \<Rightarrow> Token list \<Rightarrow> nat \<Rightarrow> tool_error + ASTNode \<times> nat"
and block_loop :: "nat \<Rightarrow> Token list \<Rightarrow> nat \<Rightarrow> tool_error + ASTNode list \<times> nat" where
  "parse_stmt 0 toks pos = Inl Out_of_fuel"
| "parse_stmt (Suc fuel) toks pos =
     ebind (peek toks pos) (\<lambda>t.
       case tok_type t of
         TOKEN_SAY \<Rightarrow> parse_text NODE_SAY ''say'' toks pos
       | TOKEN_LET \<Rightarrow> parse_binding NODE_LET NODE_NUMBER toks pos
       | TOKEN_CHECK \<Rightarrow>
           ebind (parse_expr toks (pos + 1)) (\<lambda>(e, pos').
             ebind (parse_block fuel toks pos') (\<lambda>(b, pos'').
               Inr (with_body (Some b) (with_left e (new_node NODE_CHECK ''check'')), pos'')))
       | TOKEN_REPEAT \<Rightarrow>
           ebind (peek toks (pos + 1)) (\<lambda>n.
             ebind (parse_block fuel toks (pos + 2)) (\<lambda>(b, pos').
               Inr (with_body (Some b) (new_node NODE_REPEAT (tok_value n)), pos')))
       | TOKEN_QMSG \<Rightarrow> parse_text NODE_QMSG ''qmsg'' toks pos
       | TOKEN_ENCODE \<Rightarrow> parse_unary NODE_ENCODE_QMSG toks pos
       | TOKEN_DECODE \<Rightarrow> parse_unary NODE_DECODE_QMSG toks pos
       | TOKEN_QBIT \<Rightarrow> parse_binding NODE_QBIT NODE_STATE toks pos
       | TOKEN_HADAMARD \<Rightarrow> parse_unary NODE_HADAMARD toks pos
       | TOKEN_MEASURE \<Rightarrow> parse_unary NODE_MEASURE toks pos
       | TOKEN_ENTANGLE \<Rightarrow> parse_pair NODE_ENTANGLE toks pos
       | TOKEN_CNOT \<Rightarrow> parse_pair NODE_CNOT toks pos
       | TOKEN_ACTION \<Rightarrow> parse_unary NODE_ACTION toks pos
       | _ \<Rightarrow> Inr (new_node NODE_IDENT (tok_value t), pos + 1))"
| "parse_block 0 toks pos = Inl Out_of_fuel"
| "parse_block (Suc fuel) toks pos =
     ebind (block_loop fuel toks (pos + 1)) (\<lambda>(ss, pos').
       Inr (with_body (chain ss) (new_node NODE_BLOCK ''block''), pos' + 1))"
| "block_loop 0 toks pos = Inl Out_of_fuel"
| "block_loop (Suc fuel) toks pos =
     ebind (peek toks pos) (\<lambda>t.
       if tok_type t = TOKEN_RBRACE \<or> tok_type t = TOKEN_EOF then Inr ([], pos)
       else ebind (parse_stmt fuel toks pos) (\<lambda>(s, pos').
              ebind (block_loop fuel toks pos') (\<lambda>(ss, pos''). Inr (s # ss, pos''))))"

fun program_loop :: "nat \<Rightarrow> Token list \<Rightarrow> nat \<Rightarrow> tool_error + ASTNode list" where
  "program_loop 0 toks pos = Inl Out_of_fuel"
| "program_loop (Suc fuel) toks pos =
     ebind (peek toks pos) (\<lambda>t.
       if tok_type t = TOKEN_EOF then Inr []
       else if tok_type t = TOKEN_DIRECTIVE then program_loop fuel toks (pos + 1)
       else ebind (parse_stmt fuel toks pos) (\<lambda>(s, pos').
              ebind (program_loop fuel toks pos') (\<lambda>ss. Inr (s # ss))))"

definition parse_fuel :: "nat \<Rightarrow> nat" where
  "parse_fuel n = 3 * n + 3"

definition parse :: "Token list \<Rightarrow> tool_error + ASTNode" where
  "parse toks =
     ebind (program_loop (parse_fuel (length toks)) toks 0) (\<lambda>ss.
       Inr (with_body (chain ss) (new_node NODE_PROGRAM ''program'')))"

text \<open>The traversals: the lines \<^verbatim>\<open>print_ast\<close> prints (depth, type, value), and the nodes in the order of \<^verbatim>\<open>free\<close>.\<close>

fun print_ast :: "ASTNode option \<Rightarrow> nat \<Rightarrow> (nat \<times> NodeType \<times> string) list" where
  "print_ast None depth = []"
| "print_ast (Some (ASTNode ty v l r b n)) depth =
     (depth, ty, v) # print_ast l (depth + 1) @ print_ast r (depth + 1) @ print_ast b (depth + 1) @
     print_ast n depth"

fun free_ast :: "ASTNode option \<Rightarrow> (NodeType \<times> string) list" where
  "free_ast None = []"
| "free_ast (Some (ASTNode ty v l r b n)) =
     free_ast l @ free_ast r @ free_ast b @ free_ast n @ [(ty, v)]"

section \<open>Progress and fuel\<close>

lemma peek_Inr: "peek toks pos = Inr t \<longleftrightarrow> pos < length toks \<and> t = toks ! pos"
  by (auto simp: peek_def)

lemma peek_fuel: "peek toks pos \<noteq> Inl Out_of_fuel"
  by (simp add: peek_def)

lemmas simple_parser_defs =
  parse_unary_def parse_text_def parse_binding_def parse_pair_def parse_expr_def

lemma simple_parsers:
  "parse_unary ty toks pos = Inr (s, pos') \<Longrightarrow> pos < pos'"
  "parse_text ty v toks pos = Inr (s, pos') \<Longrightarrow> pos < pos'"
  "parse_binding ty ty' toks pos = Inr (s, pos') \<Longrightarrow> pos < pos'"
  "parse_pair ty toks pos = Inr (s, pos') \<Longrightarrow> pos < pos'"
  "parse_expr toks pos = Inr (s, pos') \<Longrightarrow> pos < pos'"
  by (auto simp: simple_parser_defs)

lemma simple_parsers_fuel:
  "parse_unary ty toks pos \<noteq> Inl Out_of_fuel" "parse_text ty v toks pos \<noteq> Inl Out_of_fuel"
  "parse_binding ty ty' toks pos \<noteq> Inl Out_of_fuel" "parse_pair ty toks pos \<noteq> Inl Out_of_fuel"
  "parse_expr toks pos \<noteq> Inl Out_of_fuel"
  unfolding simple_parser_defs by (intro ebind_not_Inl peek_fuel; simp)+

lemma parser_progress:
  "parse_stmt fuel toks pos = Inr (s, pos') \<Longrightarrow> pos < pos'"
  "parse_block fuel toks pos = Inr (b, pos') \<Longrightarrow> pos < pos'"
  "block_loop fuel toks pos = Inr (ss, pos') \<Longrightarrow> pos \<le> pos'"
proof (induction fuel arbitrary: pos s b ss pos')
  case (Suc fuel)
  {
    case 1
    then obtain t where t: "peek toks pos = Inr t" by auto
    show ?case
    proof (cases "tok_type t")
      case TOKEN_CHECK
      then show ?thesis using 1 t by (auto dest!: simple_parsers(5) Suc.IH(2))
    next
      case TOKEN_REPEAT
      then show ?thesis using 1 t by (auto dest!: Suc.IH(2))
    qed (use 1 t in \<open>auto dest: simple_parsers\<close>)
  next
    case 2
    then show ?case by (auto dest!: Suc.IH(3))
  next
    case 3
    then show ?case by (auto split: if_split_asm dest!: Suc.IH(1,3))
  }
qed simp_all

text \<open>Enough fuel: three units for each token that is left.\<close>

lemma parser_fuel:
  "3 * (length toks - pos) + 1 \<le> fuel \<Longrightarrow> parse_stmt fuel toks pos \<noteq> Inl Out_of_fuel"
  "3 * (length toks - pos) + 3 \<le> fuel \<Longrightarrow> parse_block fuel toks pos \<noteq> Inl Out_of_fuel"
  "3 * (length toks - pos) + 2 \<le> fuel \<Longrightarrow> block_loop fuel toks pos \<noteq> Inl Out_of_fuel"
proof (induction fuel arbitrary: pos)
  case (Suc fuel)
  {
    case 1
    show ?case
    proof (cases "peek toks pos")
      case (Inr t)
      then have len: "pos < length toks" by (simp add: peek_Inr)
      have blk: "parse_block fuel toks pos' \<noteq> Inl Out_of_fuel" if "pos < pos'" for pos'
        using that len 1 by (intro Suc.IH(2)) linarith
      show ?thesis
      proof (cases "tok_type t")
        case TOKEN_CHECK
        then show ?thesis
          using Inr blk simple_parsers_fuel(5) [of toks "pos + 1"]
          by (auto simp: ebind_Inl_iff dest!: simple_parsers(5))
      next
        case TOKEN_REPEAT
        then show ?thesis using Inr blk peek_fuel by (auto simp: ebind_Inl_iff)
      qed (use Inr in \<open>simp_all add: simple_parsers_fuel\<close>)
    qed (use peek_fuel in auto)
  next
    case 2
    then show ?case
      using Suc.IH(3) [of "Suc pos"] by (auto simp: ebind_Inl_iff)
  next
    case 3
    show ?case
    proof (cases "peek toks pos")
      case (Inr t)
      then have len: "pos < length toks" by (simp add: peek_Inr)
      have "block_loop fuel toks pos' \<noteq> Inl Out_of_fuel" if "pos < pos'" for pos'
        using that len 3 by (intro Suc.IH(3)) linarith
      moreover have "parse_stmt fuel toks pos \<noteq> Inl Out_of_fuel" using 3 by (intro Suc.IH(1)) linarith
      ultimately show ?thesis using Inr by (auto simp: ebind_Inl_iff dest: parser_progress(1))
    qed (use peek_fuel in auto)
  }
qed simp_all


lemma program_loop_fuel:
  "3 * (length toks - pos) + 2 \<le> fuel \<Longrightarrow> program_loop fuel toks pos \<noteq> Inl Out_of_fuel"
proof (induction fuel arbitrary: pos)
  case (Suc fuel)
  show ?case
  proof (cases "peek toks pos")
    case (Inr t)
    then have len: "pos < length toks" by (simp add: peek_Inr)
    have "program_loop fuel toks pos' \<noteq> Inl Out_of_fuel" if "pos < pos'" for pos'
      using that len Suc.prems by (intro Suc.IH) linarith
    moreover have "parse_stmt fuel toks pos \<noteq> Inl Out_of_fuel" using Suc.prems by (intro parser_fuel(1)) linarith
    ultimately show ?thesis using Inr by (auto simp: ebind_Inl_iff dest: parser_progress(1))
  qed (use peek_fuel in auto)
qed simp

section \<open>Programs and their syntax trees\<close>

text \<open>
  The language as its programs are written: names, strings, numbers and states are the values of
  their tokens.
\<close>

datatype stmt =
    Say_text string
  | Say_name string
  | Let string string
  | Check string TokenType string string "stmt list" \<comment> \<open>name, operator token, its text, number, block\<close>
  | Repeat string "stmt list"
  | Qmsg string
  | Encode string
  | Decode string
  | Qbit string TokenType string \<comment> \<open>name, state token, its text\<close>
  | Hadamard string
  | Measure string
  | Entangle string string
  | Cnot string string
  | Action string

definition tok :: "TokenType \<Rightarrow> string \<Rightarrow> Token" where
  "tok type v = \<lparr>tok_type = type, tok_value = v, tok_line = 1\<rparr>"

text \<open>The type of the token of a name: \<^verbatim>\<open>qmsg\<close> is a keyword that also stands where a name does.\<close>

definition name_tok :: "string \<Rightarrow> Token" where
  "name_tok v = tok (keyword_type v) v"

fun tokens_of :: "stmt \<Rightarrow> Token list" where
  "tokens_of (Say_text v) = [tok TOKEN_SAY ''say'', tok TOKEN_STRING v]"
| "tokens_of (Say_name v) = [tok TOKEN_SAY ''say'', name_tok v]"
| "tokens_of (Let x v) = [tok TOKEN_LET ''let'', name_tok x, tok TOKEN_EQ ''='', tok TOKEN_NUMBER v]"
| "tokens_of (Check x ty op v ss) =
     [tok TOKEN_CHECK ''check'', name_tok x, tok ty op, tok TOKEN_NUMBER v, tok TOKEN_LBRACE ''{''] @
     concat (map tokens_of ss) @ [tok TOKEN_RBRACE ''}'']"
| "tokens_of (Repeat v ss) =
     [tok TOKEN_REPEAT ''repeat'', tok TOKEN_NUMBER v, tok TOKEN_LBRACE ''{''] @
     concat (map tokens_of ss) @ [tok TOKEN_RBRACE ''}'']"
| "tokens_of (Qmsg v) = [tok TOKEN_QMSG ''qmsg'', tok TOKEN_STRING v]"
| "tokens_of (Encode x) = [tok TOKEN_ENCODE ''encode'', name_tok x]"
| "tokens_of (Decode x) = [tok TOKEN_DECODE ''decode'', name_tok x]"
| "tokens_of (Qbit x ty st) = [tok TOKEN_QBIT ''qbit'', name_tok x, tok TOKEN_EQ ''='', tok ty st]"
| "tokens_of (Hadamard x) = [tok TOKEN_HADAMARD ''hadamard'', name_tok x]"
| "tokens_of (Measure x) = [tok TOKEN_MEASURE ''measure'', name_tok x]"
| "tokens_of (Entangle x y) = [tok TOKEN_ENTANGLE ''entangle'', name_tok x, name_tok y]"
| "tokens_of (Cnot x y) = [tok TOKEN_CNOT ''cnot'', name_tok x, name_tok y]"
| "tokens_of (Action x) = [tok TOKEN_ACTION ''action'', name_tok x]"

definition block_node :: "ASTNode list \<Rightarrow> ASTNode" where
  "block_node ss = with_body (chain ss) (new_node NODE_BLOCK ''block'')"

fun ast_of :: "stmt \<Rightarrow> ASTNode" where
  "ast_of (Say_text v) = with_left (new_node NODE_STRING v) (new_node NODE_SAY ''say'')"
| "ast_of (Say_name v) = with_left (new_node NODE_IDENT v) (new_node NODE_SAY ''say'')"
| "ast_of (Let x v) = with_left (new_node NODE_NUMBER v) (new_node NODE_LET x)"
| "ast_of (Check x ty op v ss) =
     with_body (Some (block_node (map ast_of ss)))
       (with_left (with_right (new_node NODE_NUMBER v) (with_left (new_node NODE_IDENT x) (new_node NODE_BINOP op)))
         (new_node NODE_CHECK ''check''))"
| "ast_of (Repeat v ss) = with_body (Some (block_node (map ast_of ss))) (new_node NODE_REPEAT v)"
| "ast_of (Qmsg v) = with_left (new_node NODE_STRING v) (new_node NODE_QMSG ''qmsg'')"
| "ast_of (Encode x) = new_node NODE_ENCODE_QMSG x"
| "ast_of (Decode x) = new_node NODE_DECODE_QMSG x"
| "ast_of (Qbit x ty st) = with_left (new_node NODE_STATE st) (new_node NODE_QBIT x)"
| "ast_of (Hadamard x) = new_node NODE_HADAMARD x"
| "ast_of (Measure x) = new_node NODE_MEASURE x"
| "ast_of (Entangle x y) = with_left (new_node NODE_IDENT y) (new_node NODE_ENTANGLE x)"
| "ast_of (Cnot x y) = with_left (new_node NODE_IDENT y) (new_node NODE_CNOT x)"
| "ast_of (Action x) = new_node NODE_ACTION x"

definition ast_program :: "stmt list \<Rightarrow> ASTNode" where
  "ast_program p = with_body (chain (map ast_of p)) (new_node NODE_PROGRAM ''program'')"

section \<open>The parser reads back what programs print\<close>

lemma tok_type_tok [simp]: "tok_type (tok ty v) = ty" "tok_value (tok ty v) = v" "tok_line (tok ty v) = 1"
  by (simp_all add: tok_def)

lemma name_tok_value [simp]: "tok_value (name_tok v) = v" "tok_line (name_tok v) = 1"
  by (simp_all add: name_tok_def)

lemma name_tok_not_string [simp]: "tok_type (name_tok v) \<noteq> TOKEN_STRING"
  by (simp add: name_tok_def keyword_type_types)

lemma peek_drop:
  "drop pos toks = ts \<Longrightarrow> k < length ts \<Longrightarrow> peek toks (pos + k) = Inr (ts ! k)"
  by (auto simp: peek_def)

lemma peek_at:
  assumes "drop pos toks = us"
  shows "us = a # r \<Longrightarrow> peek toks pos = Inr a"
    and "us = a # b # r \<Longrightarrow> peek toks (Suc pos) = Inr b"
    and "us = a # b # c # r \<Longrightarrow> peek toks (Suc (Suc pos)) = Inr c"
    and "us = a # b # c # r \<Longrightarrow> peek toks (pos + 2) = Inr c"
    and "us = a # b # c # d # r \<Longrightarrow> peek toks (pos + 3) = Inr d"
  using peek_drop [OF assms, of 0] peek_drop [OF assms, of 1] peek_drop [OF assms, of 2] peek_drop [OF assms, of 3]
  by (auto simp: numeral_eq_Suc)

lemma tokens_of_first:
  "\<exists>t ts. tokens_of s = t # ts \<and> tok_type t \<notin> {TOKEN_RBRACE, TOKEN_EOF, TOKEN_DIRECTIVE}"
  by (cases s) auto

lemma length_tokens_of: "0 < length (tokens_of s)"
  using tokens_of_first [of s] by auto

text \<open>A statement costs at most three units of fuel per token.\<close>

definition reads_back :: "stmt \<Rightarrow> bool" where
  "reads_back s \<longleftrightarrow> (\<forall>fuel toks pos rest. drop pos toks = tokens_of s @ rest \<longrightarrow>
     3 * length (tokens_of s) + 1 \<le> fuel \<longrightarrow>
     parse_stmt fuel toks pos = Inr (ast_of s, pos + length (tokens_of s)))"

lemma reads_backD:
  "reads_back s \<Longrightarrow> drop pos toks = tokens_of s @ rest \<Longrightarrow> 3 * length (tokens_of s) + 1 \<le> fuel \<Longrightarrow>
     parse_stmt fuel toks pos = Inr (ast_of s, pos + length (tokens_of s))"
  by (auto simp: reads_back_def)

lemma reads_backI:
  assumes "\<And>f toks pos rest. drop pos toks = tokens_of s @ rest \<Longrightarrow>
     parse_stmt (Suc f) toks pos = Inr (ast_of s, pos + length (tokens_of s))"
  shows "reads_back s"
  unfolding reads_back_def
proof (intro allI impI)
  fix fuel toks pos rest
  assume "drop pos toks = tokens_of s @ rest" "3 * length (tokens_of s) + 1 \<le> fuel"
  then show "parse_stmt fuel toks pos = Inr (ast_of s, pos + length (tokens_of s))"
    using assms by (cases fuel) auto
qed

lemma block_loop_reads:
  assumes "list_all reads_back ss" and "drop pos toks = concat (map tokens_of ss) @ t # rest"
    and "tok_type t = TOKEN_RBRACE \<or> tok_type t = TOKEN_EOF" and "3 * length (concat (map tokens_of ss)) + 2 \<le> fuel"
  shows "block_loop fuel toks pos = Inr (map ast_of ss, pos + length (concat (map tokens_of ss)))"
  using assms
proof (induction ss arbitrary: pos fuel)
  case Nil
  then show ?case by (cases fuel) (auto simp: peek_at(1))
next
  case (Cons s ss)
  obtain f where f: "fuel = Suc f" using Cons.prems(4) by (cases fuel) auto
  obtain u us where u: "tokens_of s = u # us" "tok_type u \<notin> {TOKEN_RBRACE, TOKEN_EOF, TOKEN_DIRECTIVE}"
    using tokens_of_first by blast
  have d: "drop pos toks = tokens_of s @ (concat (map tokens_of ss) @ t # rest)" using Cons.prems(2) by simp
  have fb: "3 * length (concat (map tokens_of ss)) + 2 \<le> f"
  proof -
    have "1 \<le> length (tokens_of s)" using length_tokens_of [of s] by linarith
    then show ?thesis using Cons.prems(4) f by simp
  qed
  have "parse_stmt f toks pos = Inr (ast_of s, pos + length (tokens_of s))"
    using Cons.prems(1,4) f by (intro reads_backD [OF _ d]) simp_all
  moreover have "block_loop f toks (pos + length (tokens_of s)) =
      Inr (map ast_of ss, pos + length (tokens_of s) + length (concat (map tokens_of ss)))"
    using Cons.prems drop_more [OF d] fb by (intro Cons.IH) simp_all
  moreover have "peek toks pos = Inr u" using d u(1) by (auto intro: peek_at(1))
  ultimately show ?case using f u(2) by simp
qed

lemma parse_block_reads:
  assumes "list_all reads_back ss" and d: "drop pos toks = l # concat (map tokens_of ss) @ t # rest"
    and "tok_type t = TOKEN_RBRACE" and fuel: "3 * length (concat (map tokens_of ss)) + 3 \<le> fuel"
  shows "parse_block fuel toks pos =
     Inr (block_node (map ast_of ss), pos + length (concat (map tokens_of ss)) + 2)"
proof -
  obtain f where f: "fuel = Suc f" using fuel by (cases fuel) auto
  have "drop (Suc pos) toks = concat (map tokens_of ss) @ t # rest" using drop_more [of pos toks "[l]"] d by simp
  then have "block_loop f toks (Suc pos) = Inr (map ast_of ss, Suc pos + length (concat (map tokens_of ss)))"
    using assms f by (intro block_loop_reads) auto
  then show ?thesis using f by (simp add: block_node_def)
qed

lemma reads_back_stmt: "reads_back s"
proof (induction s)
  case (Check x ty op v ss)
  show ?case
    unfolding reads_back_def
  proof (intro allI impI)
    fix fuel toks pos rest
    let ?c = "concat (map tokens_of ss)"
    assume d: "drop pos toks = tokens_of (Check x ty op v ss) @ rest"
      and fl: "3 * length (tokens_of (Check x ty op v ss)) + 1 \<le> fuel"
    obtain f where f: "fuel = Suc f" using fl by (cases fuel) auto
    have d': "drop pos toks = [tok TOKEN_CHECK ''check'', name_tok x, tok ty op, tok TOKEN_NUMBER v] @
        tok TOKEN_LBRACE ''{'' # ?c @ tok TOKEN_RBRACE ''}'' # rest" using d by simp
    have d4: "drop (pos + 4) toks = tok TOKEN_LBRACE ''{'' # ?c @ tok TOKEN_RBRACE ''}'' # rest"
      using drop_more [OF d'] by (simp add: numeral_eq_Suc)
    have "parse_block f toks (pos + 4) = Inr (block_node (map ast_of ss), pos + 4 + length ?c + 2)"
      using Check fl f by (intro parse_block_reads [OF _ d4]) (auto simp: list_all_iff)
    moreover have "parse_expr toks (Suc pos) = Inr (with_right (new_node NODE_NUMBER v)
        (with_left (new_node NODE_IDENT x) (new_node NODE_BINOP op)), pos + 4)"
      using peek_at(2,3,5) [OF d'] by (simp add: parse_expr_def numeral_eq_Suc)
    moreover have "peek toks pos = Inr (tok TOKEN_CHECK ''check'')" using peek_at(1) [OF d'] by simp
    ultimately show "parse_stmt fuel toks pos =
        Inr (ast_of (Check x ty op v ss), pos + length (tokens_of (Check x ty op v ss)))"
      using f by simp
  qed
next
  case (Repeat v ss)
  show ?case
    unfolding reads_back_def
  proof (intro allI impI)
    fix fuel toks pos rest
    let ?c = "concat (map tokens_of ss)"
    assume d: "drop pos toks = tokens_of (Repeat v ss) @ rest"
      and fl: "3 * length (tokens_of (Repeat v ss)) + 1 \<le> fuel"
    obtain f where f: "fuel = Suc f" using fl by (cases fuel) auto
    have d': "drop pos toks = [tok TOKEN_REPEAT ''repeat'', tok TOKEN_NUMBER v] @
        tok TOKEN_LBRACE ''{'' # ?c @ tok TOKEN_RBRACE ''}'' # rest" using d by simp
    have d2: "drop (pos + 2) toks = tok TOKEN_LBRACE ''{'' # ?c @ tok TOKEN_RBRACE ''}'' # rest"
      using drop_more [OF d'] by (simp add: numeral_eq_Suc)
    have "parse_block f toks (pos + 2) = Inr (block_node (map ast_of ss), pos + 2 + length ?c + 2)"
      using Repeat fl f by (intro parse_block_reads [OF _ d2]) (auto simp: list_all_iff)
    then show "parse_stmt fuel toks pos = Inr (ast_of (Repeat v ss), pos + length (tokens_of (Repeat v ss)))"
      using f peek_at(1,2) [OF d'] by simp
  qed
qed (rule reads_backI, simp add: simple_parser_defs peek_at)+

lemma program_loop_reads:
  assumes "drop pos toks = concat (map tokens_of p) @ t # rest" and "tok_type t = TOKEN_EOF"
    and "3 * length (concat (map tokens_of p)) + 2 \<le> fuel"
  shows "program_loop fuel toks pos = Inr (map ast_of p)"
  using assms
proof (induction p arbitrary: pos fuel)
  case Nil
  then show ?case by (cases fuel) (auto simp: peek_at(1))
next
  case (Cons s p)
  obtain f where f: "fuel = Suc f" using Cons.prems(3) by (cases fuel) auto
  obtain u us where u: "tokens_of s = u # us" "tok_type u \<notin> {TOKEN_RBRACE, TOKEN_EOF, TOKEN_DIRECTIVE}"
    using tokens_of_first by blast
  have d: "drop pos toks = tokens_of s @ (concat (map tokens_of p) @ t # rest)" using Cons.prems(1) by simp
  have fb: "3 * length (concat (map tokens_of p)) + 2 \<le> f"
  proof -
    have "1 \<le> length (tokens_of s)" using length_tokens_of [of s] by linarith
    then show ?thesis using Cons.prems(3) f by simp
  qed
  have "parse_stmt f toks pos = Inr (ast_of s, pos + length (tokens_of s))"
    using Cons.prems(3) f by (intro reads_backD [OF reads_back_stmt d]) simp
  moreover have "program_loop f toks (pos + length (tokens_of s)) = Inr (map ast_of p)"
    using Cons.prems drop_more [OF d] fb by (intro Cons.IH) simp_all
  moreover have "peek toks pos = Inr u" using d u(1) by (auto intro: peek_at(1))
  ultimately show ?case using f u(2) by simp
qed

lemma program_loop_directives:
  assumes "drop pos toks = ds @ ts" and "list_all (\<lambda>t. tok_type t = TOKEN_DIRECTIVE) ds"
  shows "program_loop (length ds + fuel) toks pos = program_loop fuel toks (pos + length ds)"
  using assms
proof (induction ds arbitrary: pos)
  case (Cons d ds)
  have "program_loop (length ds + fuel) toks (Suc pos) = program_loop fuel toks (Suc pos + length ds)"
    using Cons.prems drop_more [of pos toks "[d]"] by (intro Cons.IH) simp_all
  then show ?case using Cons.prems peek_at(1) [OF Cons.prems(1)] by simp
qed simp

lemma parse_reads:
  assumes "list_all (\<lambda>t. tok_type t = TOKEN_DIRECTIVE) ds" and "tok_type e = TOKEN_EOF"
  shows "parse (ds @ concat (map tokens_of p) @ [e]) = Inr (ast_program p)"
proof -
  let ?c = "concat (map tokens_of p)" let ?toks = "ds @ ?c @ [e]"
  have fu: "parse_fuel (length ?toks) = length ds + (2 * length ds + 3 * length ?c + 6)"
    by (simp add: parse_fuel_def)
  have body: "program_loop (2 * length ds + 3 * length ?c + 6) ?toks (0 + length ds) = Inr (map ast_of p)"
    using assms(2) by (intro program_loop_reads [where rest = "[]"]) auto
  have "program_loop (parse_fuel (length ?toks)) ?toks 0 =
      program_loop (2 * length ds + 3 * length ?c + 6) ?toks (0 + length ds)"
    unfolding fu by (rule program_loop_directives [where ts = "?c @ [e]"]) (use assms(1) in simp_all)
  then have "program_loop (parse_fuel (length ?toks)) ?toks 0 = Inr (map ast_of p)" by (simp only: body)
  then show ?thesis unfolding parse_def by (simp only: ebind_simps ast_program_def)
qed

section \<open>The front end\<close>

text \<open>The source text of a program: its directives, then its statements.\<close>

definition source_of :: "string list \<Rightarrow> stmt list \<Rightarrow> string" where
  "source_of ds p = render 1 (map (tok TOKEN_DIRECTIVE) ds @ concat (map tokens_of p))"

definition printable :: "string list \<Rightarrow> stmt list \<Rightarrow> bool" where
  "printable ds p \<longleftrightarrow>
     (let ts = map (tok TOKEN_DIRECTIVE) ds @ concat (map tokens_of p)
      in list_all lexeme_ok ts \<and> length ts < 1024)"

lemma lines_ok_one: "list_all (\<lambda>t. tok_line t = 1) ts \<Longrightarrow> lines_ok 1 ts \<and> last_line 1 ts = 1"
  by (induction ts) auto

lemma tokens_of_lines: "list_all (\<lambda>t. tok_line t = 1) (tokens_of s)"
  by (induction s) (auto simp: list_all_iff)

lemma front_end_reads:
  assumes "printable ds p"
  shows "ebind (tokenize (source_of ds p)) parse = Inr (ast_program p)"
proof -
  let ?ts = "map (tok TOKEN_DIRECTIVE) ds @ concat (map tokens_of p)"
  have "list_all (\<lambda>t. tok_line t = 1) ?ts" using tokens_of_lines by (auto simp: list_all_iff)
  then have "tokenize (source_of ds p) = Inr (?ts @ [eof_token 1])"
    using tokenize_render [of ?ts] lines_ok_one [of ?ts] assms
    by (simp add: source_of_def printable_def MAX_TOKENS_def Let_def)
  moreover have "parse (?ts @ [eof_token 1]) = Inr (ast_program p)"
    using parse_reads [of "map (tok TOKEN_DIRECTIVE) ds" "eof_token 1" p]
    by (simp add: eof_token_def list_all_iff)
  ultimately show ?thesis by simp
qed

text \<open>
  C19: the front end reads back every program: lexing and parsing the printed source of a program, with
  any directives before it, gives exactly the syntax tree of the program, blocks nested to any
  depth, whenever its tokens have the shapes of the language and there are fewer than 1024.
\<close>

theorem front_end_roundtrip:
  assumes "printable ds p"
  shows "ebind (tokenize (source_of ds p)) parse = Inr (ast_program p)"
  by (rule front_end_reads [OF assms])

definition sample_program :: "stmt list" where
  "sample_program =
     [Qbit ''q'' TOKEN_STATE_0 ''|0>'', Let ''n'' ''3'',
      Repeat ''2'' [Hadamard ''q'', Check ''n'' TOKEN_GT ''>'' ''1'' [Measure ''q'', Say_name ''q'']],
      Qmsg ''HI'', Encode ''qmsg'', Action ''led_on'']"

lemma sample_printable: "printable [''quantum''] sample_program"
  unfolding printable_def Let_def
proof
  show "list_all lexeme_ok (map (tok TOKEN_DIRECTIVE) [''quantum''] @ concat (map tokens_of sample_program))"
    by (simp add: sample_program_def name_tok_def tok_def keyword_type_def lexeme_ok_def is_word_def is_fixed_def
        fixed_token_def char_class_defs)
  show "length (map (tok TOKEN_DIRECTIVE) [''quantum''] @ concat (map tokens_of sample_program)) < 1024"
    by (simp add: sample_program_def)
qed

theorem front_end_roundtrip_witness:
  "ebind (tokenize (source_of [''quantum''] sample_program)) parse = Inr (ast_program sample_program)"
  by (rule front_end_roundtrip [OF sample_printable])

section \<open>What can go wrong\<close>

lemma peek_Inl: "peek toks pos = Inl e \<Longrightarrow> e = Token_past_end"
  by (auto simp: peek_def split: if_split_asm)

lemma simple_parsers_Inl:
  "parse_unary ty toks pos = Inl e \<Longrightarrow> e = Token_past_end"
  "parse_text ty v toks pos = Inl e \<Longrightarrow> e = Token_past_end"
  "parse_binding ty ty' toks pos = Inl e \<Longrightarrow> e = Token_past_end"
  "parse_pair ty toks pos = Inl e \<Longrightarrow> e = Token_past_end"
  "parse_expr toks pos = Inl e \<Longrightarrow> e = Token_past_end"
  by (auto simp: simple_parser_defs ebind_Inl_iff dest: peek_Inl)

lemma parser_Inl:
  "parse_stmt fuel toks pos = Inl e \<Longrightarrow> e = Token_past_end \<or> e = Out_of_fuel"
  "parse_block fuel toks pos = Inl e \<Longrightarrow> e = Token_past_end \<or> e = Out_of_fuel"
  "block_loop fuel toks pos = Inl e \<Longrightarrow> e = Token_past_end \<or> e = Out_of_fuel"
proof (induction fuel arbitrary: pos)
  case (Suc fuel)
  {
    case 1
    show ?case
    proof (cases "peek toks pos")
      case (Inr t)
      show ?thesis
        using 1 Inr Suc.IH(2)
        by (cases "tok_type t") (auto simp: ebind_Inl_iff dest: simple_parsers_Inl peek_Inl)
    qed (use 1 peek_Inl in auto)
  next
    case 2
    then show ?case by (auto simp: ebind_Inl_iff dest!: Suc.IH(3))
  next
    case 3
    then show ?case by (auto simp: ebind_Inl_iff dest!: Suc.IH(1,3) peek_Inl split: if_split_asm)
  }
qed simp_all

lemma program_loop_Inl: "program_loop fuel toks pos = Inl e \<Longrightarrow> e = Token_past_end \<or> e = Out_of_fuel"
proof (induction fuel arbitrary: pos)
  case (Suc fuel)
  then show ?case by (auto simp: ebind_Inl_iff dest!: parser_Inl(1) peek_Inl split: if_split_asm)
qed simp

text \<open>The fields that a later pass follows without a test are there.\<close>

fun left_present :: "ASTNode option \<Rightarrow> bool" where
  "left_present None = True"
| "left_present (Some (ASTNode ty v l r b n)) =
     ((ty = NODE_SAY \<or> ty = NODE_LET \<or> ty = NODE_QBIT \<longrightarrow> l \<noteq> None) \<and> left_present b \<and> left_present n)"

lemma left_present_chain: "list_all (\<lambda>s. left_present (Some s)) ss \<Longrightarrow> left_present (chain ss)"
proof (induction ss)
  case (Cons s ss)
  then show ?case by (cases s) auto
qed simp

lemmas node_defs = new_node_def

lemma simple_parsers_left:
  "parse_unary ty toks pos = Inr (s, pos') \<Longrightarrow> ty \<notin> {NODE_SAY, NODE_LET, NODE_QBIT} \<Longrightarrow> left_present (Some s)"
  "parse_text ty v toks pos = Inr (s, pos') \<Longrightarrow> left_present (Some s)"
  "parse_binding ty ty' toks pos = Inr (s, pos') \<Longrightarrow> left_present (Some s)"
  "parse_pair ty toks pos = Inr (s, pos') \<Longrightarrow> left_present (Some s)"
  by (auto simp: simple_parser_defs new_node_def)

lemma parser_left:
  "parse_stmt fuel toks pos = Inr (s, pos') \<Longrightarrow> left_present (Some s)"
  "parse_block fuel toks pos = Inr (s, pos') \<Longrightarrow> left_present (Some s)"
  "block_loop fuel toks pos = Inr (ss, pos') \<Longrightarrow> list_all (\<lambda>s. left_present (Some s)) ss"
proof (induction fuel arbitrary: pos s pos' ss)
  case (Suc fuel)
  {
    case 1
    then obtain t where t: "peek toks pos = Inr t" by auto
    show ?case
      using 1 t by (cases "tok_type t") (auto simp: new_node_def dest: simple_parsers_left dest!: Suc.IH(2))
  next
    case 2
    then show ?case by (auto simp: new_node_def dest!: Suc.IH(3) intro: left_present_chain)
  next
    case 3
    then show ?case by (auto split: if_split_asm dest!: Suc.IH(1,3))
  }
qed simp_all

lemma program_loop_left: "program_loop fuel toks pos = Inr ss \<Longrightarrow> list_all (\<lambda>s. left_present (Some s)) ss"
proof (induction fuel arbitrary: pos ss)
  case (Suc fuel)
  then show ?case by (auto split: if_split_asm dest!: parser_left(1))
qed simp

lemma parse_left: "parse toks = Inr a \<Longrightarrow> left_present (node_body a)"
  by (auto simp: parse_def new_node_def dest!: program_loop_left intro: left_present_chain)

text \<open>
  C20: the parser ends on every token list.  Either it returns a program node whose statements have
  the fields that the compiler follows without testing them, or it reads a token past the end of
  the list; it fails in no other way.
\<close>

theorem parse_ends:
  "(\<exists>a. parse toks = Inr a \<and> node_type a = NODE_PROGRAM \<and> left_present (node_body a)) \<or>
   parse toks = Inl Token_past_end"
proof (cases "parse toks")
  case (Inl e)
  have "program_loop (parse_fuel (length toks)) toks 0 \<noteq> Inl Out_of_fuel"
    by (rule program_loop_fuel) (simp add: parse_fuel_def)
  then show ?thesis using Inl by (auto simp: parse_def ebind_Inl_iff dest!: program_loop_Inl)
next
  case (Inr a)
  then show ?thesis using parse_left [OF Inr] by (auto simp: parse_def new_node_def)
qed

text \<open>
  A block that is not closed makes the parser read past the end of the token array, whatever the
  block holds.
\<close>

theorem unclosed_block_overrun:
  "parse ([tok TOKEN_REPEAT ''repeat'', tok TOKEN_NUMBER n, tok TOKEN_LBRACE ''{''] @
     concat (map tokens_of p) @ [eof_token line]) = Inl Token_past_end"
proof -
  let ?c = "concat (map tokens_of p)"
  let ?toks = "[tok TOKEN_REPEAT ''repeat'', tok TOKEN_NUMBER n, tok TOKEN_LBRACE ''{''] @ ?c @ [eof_token line]"
  obtain f where f: "parse_fuel (length ?toks) = Suc (Suc (Suc (Suc f)))" "3 * length ?c + 2 \<le> f"
    by (auto simp: parse_fuel_def)
  have "block_loop (Suc f) ?toks 3 = Inr (map ast_of p, 3 + length ?c)"
    using f reads_back_stmt by (intro block_loop_reads) (auto simp: list_all_iff eof_token_def)
  then have "parse_stmt (Suc (Suc (Suc f))) ?toks 0 =
      Inr (with_body (Some (block_node (map ast_of p))) (new_node NODE_REPEAT n), length ?toks)"
    by (simp add: peek_def block_node_def numeral_eq_Suc)
  then show ?thesis unfolding parse_def f(1) by (simp add: peek_def)
qed

text \<open>
  The grammar of the language (\<^verbatim>\<open>docs/NOVA_GRAMMAR_v0.1.ebnf\<close>) lets a block follow \<^verbatim>\<open>otherwise\<close>; the parser has no rule for
  it.  The keyword and the braces become nodes of their own, which the later stages ignore, and the statements
  of the block follow the check in the program: they are executed whether it passes or not.
\<close>

theorem otherwise_unconditional:
  "parse [name_tok ''check'', name_tok ''n'', tok TOKEN_GT ''>'', tok TOKEN_NUMBER ''1'',
       tok TOKEN_LBRACE ''{'', name_tok ''say'', tok TOKEN_STRING ''a'', tok TOKEN_RBRACE ''}'',
       name_tok ''otherwise'', tok TOKEN_LBRACE ''{'', name_tok ''say'', tok TOKEN_STRING ''b'', tok TOKEN_RBRACE ''}'',
       tok TOKEN_EOF ''EOF''] =
   Inr (with_body (chain
     [ast_of (Check ''n'' TOKEN_GT ''>'' ''1'' [Say_text ''a'']), new_node NODE_IDENT ''otherwise'', new_node NODE_IDENT ''{'',
      ast_of (Say_text ''b''), new_node NODE_IDENT ''}'']) (new_node NODE_PROGRAM ''program''))"
  by (simp add: parse_def parse_fuel_def name_tok_def tok_def keyword_type_def peek_def simple_parser_defs new_node_def
      numeral_eq_Suc block_node_def)

end
