(* ===== verification/Compiler.thy ===== *)
theory Compiler
  imports Parser Wire
begin

text \<open>
  The compiler, \<^verbatim>\<open>src/src/compiler/compiler.c\<close>, with the instructions of \<^verbatim>\<open>src/src/vm/bytecode.h\<close> and the
  bytecode files.  The two arguments of an instruction are arrays of 64 characters that keep the
  bytes of earlier contents behind the terminating zero; the bytecode array has 1024 entries.
\<close>

section \<open>Instructions\<close>

definition MAX_INSTR :: nat where "MAX_INSTR = 1024"

text \<open>The enumerators, and the values of the enumeration type that are none of them.\<close>

datatype OpCode =
    OP_SAY | OP_LET | OP_QBIT | OP_HADAMARD | OP_MEASURE | OP_ENTANGLE | OP_CNOT | OP_CHECK | OP_REPEAT
  | OP_BLOCK | OP_END | OP_SAFE_ACTION | OP_QMSG | OP_ENCODE_QMSG | OP_DECODE_QMSG | OP_OTHER u32

definition op_list :: "OpCode list" where
  "op_list = [OP_SAY, OP_LET, OP_QBIT, OP_HADAMARD, OP_MEASURE, OP_ENTANGLE, OP_CNOT, OP_CHECK, OP_REPEAT,
     OP_BLOCK, OP_END, OP_SAFE_ACTION, OP_QMSG, OP_ENCODE_QMSG, OP_DECODE_QMSG]"

fun op_code :: "OpCode \<Rightarrow> u32" where
  "op_code OP_SAY = 0" | "op_code OP_LET = 1" | "op_code OP_QBIT = 2" | "op_code OP_HADAMARD = 3"
| "op_code OP_MEASURE = 4" | "op_code OP_ENTANGLE = 5" | "op_code OP_CNOT = 6" | "op_code OP_CHECK = 7"
| "op_code OP_REPEAT = 8" | "op_code OP_BLOCK = 9" | "op_code OP_END = 10" | "op_code OP_SAFE_ACTION = 11"
| "op_code OP_QMSG = 12" | "op_code OP_ENCODE_QMSG = 13" | "op_code OP_DECODE_QMSG = 14"
| "op_code (OP_OTHER w) = w"

definition op_of :: "u32 \<Rightarrow> OpCode" where
  "op_of w = (if w < 15 then op_list ! unat w else OP_OTHER w)"

record Instruction =
  ins_op :: OpCode
  ins_arg1 :: "char list"
  ins_arg2 :: "char list"
  ins_value :: int

text \<open>The string in an array, and \<^verbatim>\<open>strcpy\<close> into one.\<close>

definition cstr :: "char list \<Rightarrow> string" where
  "cstr buf = takeWhile (\<lambda>c. c \<noteq> CHR 0x00) buf"

definition strcpy :: "char list \<Rightarrow> string \<Rightarrow> tool_error + char list" where
  "strcpy buf s =
     (if length s < length buf then Inr (s @ CHR 0x00 # drop (Suc (length s)) buf) else Inl Argument_too_long)"

definition strcpy_opt :: "char list \<Rightarrow> string option \<Rightarrow> tool_error + char list" where
  "strcpy_opt buf s = (case s of None \<Rightarrow> Inr buf | Some v \<Rightarrow> strcpy buf v)"

text \<open>\<^verbatim>\<open>atoi\<close>: white space, a sign, digits; a value that is no \<^verbatim>\<open>int\<close> is undefined behaviour.\<close>

definition digits_value :: "string \<Rightarrow> int" where
  "digits_value ds = foldl (\<lambda>n c. 10 * n + int (code_of c - 48)) 0 ds"

definition atoi :: "string \<Rightarrow> tool_error + int" where
  "atoi s =
     (let s = dropWhile isspace s;
          neg = (s \<noteq> [] \<and> hd s = CHR ''-'');
          s = (if s \<noteq> [] \<and> (hd s = CHR ''-'' \<or> hd s = CHR ''+'') then tl s else s);
          n = digits_value (takeWhile isdigit s);
          v = (if neg then - n else n)
      in if - (2 ^ 31) \<le> v \<and> v < 2 ^ 31 then Inr v else Inl Number_out_of_range)"

section \<open>Emitting code\<close>

record code_state =
  bytecode :: "Instruction list"
  instr_count :: nat

definition zero_instruction :: Instruction where
  "zero_instruction = \<lparr> ins_op = OP_SAY, ins_arg1 = replicate 64 (CHR 0x00), ins_arg2 = replicate 64 (CHR 0x00),
     ins_value = 0 \<rparr>"

text \<open>The two globals as a program starts.\<close>

definition code_init :: code_state where
  "code_init = \<lparr> bytecode = replicate MAX_INSTR zero_instruction, instr_count = 0 \<rparr>"

definition emit :: "OpCode \<Rightarrow> string option \<Rightarrow> string option \<Rightarrow> int \<Rightarrow> code_state \<Rightarrow> tool_error + code_state" where
  "emit op arg1 arg2 val st =
     (if instr_count st \<ge> MAX_INSTR then Inl Too_many_instructions
      else let i = instr_count st; old = bytecode st ! i in
        ebind (strcpy_opt ((ins_arg1 old)[0 := CHR 0x00]) arg1) (\<lambda>a1.
        ebind (strcpy_opt ((ins_arg2 old)[0 := CHR 0x00]) arg2) (\<lambda>a2.
          Inr \<lparr> bytecode = (bytecode st)[i := \<lparr>ins_op = op, ins_arg1 = a1, ins_arg2 = a2, ins_value = val\<rparr>],
                instr_count = i + 1 \<rparr>)))"

text \<open>The value of a child that the code follows without a test, and of one that it tests.\<close>

definition value_of :: "ASTNode option \<Rightarrow> tool_error + string" where
  "value_of n = (case n of None \<Rightarrow> Inl Null_pointer | Some m \<Rightarrow> Inr (node_value m))"

definition emit_check :: "ASTNode option \<Rightarrow> code_state \<Rightarrow> tool_error + code_state" where
  "emit_check l st =
     (case l of
        Some (ASTNode ty v (Some a) (Some b) _ _) \<Rightarrow>
          ebind (atoi (node_value b)) (\<lambda>n. emit OP_CHECK (Some (node_value a)) (Some v) n st)
      | _ \<Rightarrow> emit OP_CHECK None None 0 st)"

fun compile :: "ASTNode option \<Rightarrow> code_state \<Rightarrow> tool_error + code_state" where
  "compile None st = Inr st"
| "compile (Some (ASTNode ty v l r b n)) st =
     ebind
       (case ty of
          NODE_SAY \<Rightarrow> ebind (value_of l) (\<lambda>a. emit OP_SAY (Some a) None 0 st)
        | NODE_LET \<Rightarrow> ebind (value_of l) (\<lambda>a. emit OP_LET (Some v) (Some a) 0 st)
        | NODE_QBIT \<Rightarrow> ebind (value_of l) (\<lambda>a. emit OP_QBIT (Some v) (Some a) 0 st)
        | NODE_HADAMARD \<Rightarrow> emit OP_HADAMARD (Some v) None 0 st
        | NODE_MEASURE \<Rightarrow> emit OP_MEASURE (Some v) None 0 st
        | NODE_ENTANGLE \<Rightarrow> emit OP_ENTANGLE (Some v) (map_option node_value l) 0 st
        | NODE_CNOT \<Rightarrow> emit OP_CNOT (Some v) (map_option node_value l) 0 st
        | NODE_QMSG \<Rightarrow> emit OP_QMSG (map_option node_value l) None 0 st
        | NODE_ENCODE_QMSG \<Rightarrow> emit OP_ENCODE_QMSG (Some v) None 0 st
        | NODE_DECODE_QMSG \<Rightarrow> emit OP_DECODE_QMSG (Some v) None 0 st
        | NODE_CHECK \<Rightarrow>
            ebind (emit_check l st) (\<lambda>st. ebind (compile b st) (\<lambda>st. emit OP_END None None 0 st))
        | NODE_REPEAT \<Rightarrow>
            ebind (atoi v) (\<lambda>k. ebind (emit OP_REPEAT None None k st)
              (\<lambda>st. ebind (compile b st) (\<lambda>st. emit OP_END None None 0 st)))
        | NODE_ACTION \<Rightarrow> emit OP_SAFE_ACTION (Some v) None 0 st
        | NODE_BLOCK \<Rightarrow> compile b st
        | _ \<Rightarrow> Inr st)
       (\<lambda>st. compile n st)"

section \<open>Listing and files\<close>

text \<open>A line of \<^verbatim>\<open>print_bytecode\<close>: index, name, and the parts that are printed.\<close>

definition op_name :: "OpCode \<Rightarrow> string" where
  "op_name op =
     (case op of
        OP_SAY \<Rightarrow> ''SAY'' | OP_LET \<Rightarrow> ''LET'' | OP_QBIT \<Rightarrow> ''QBIT'' | OP_HADAMARD \<Rightarrow> ''HADAMARD''
      | OP_MEASURE \<Rightarrow> ''MEASURE'' | OP_ENTANGLE \<Rightarrow> ''ENTANGLE'' | OP_CNOT \<Rightarrow> ''CNOT'' | OP_CHECK \<Rightarrow> ''CHECK''
      | OP_REPEAT \<Rightarrow> ''REPEAT'' | OP_BLOCK \<Rightarrow> ''BLOCK'' | OP_END \<Rightarrow> ''END'' | OP_SAFE_ACTION \<Rightarrow> ''SAFE_ACTION''
      | OP_QMSG \<Rightarrow> ''QMSG'' | OP_ENCODE_QMSG \<Rightarrow> ''ENCODE_QMSG'' | OP_DECODE_QMSG \<Rightarrow> ''DECODE_QMSG''
      | OP_OTHER _ \<Rightarrow> ''UNKNOWN'')"

definition print_bytecode :: "code_state \<Rightarrow> (nat \<times> string \<times> string option \<times> string option \<times> int option) list" where
  "print_bytecode st =
     map (\<lambda>i. let ins = bytecode st ! i; a = cstr (ins_arg1 ins); b = cstr (ins_arg2 ins)
              in (i, op_name (ins_op ins), if a \<noteq> [] then Some a else None, if b \<noteq> [] then Some b else None,
                  if ins_value ins \<noteq> 0 then Some (ins_value ins) else None))
       [0..<instr_count st]"

text \<open>
  A bytecode file: the count and the array entries as they lie in memory (four-byte little-endian
  integers, no padding, 136 bytes per instruction).
\<close>

definition INSTR_BYTES :: nat where "INSTR_BYTES = 136"

definition u32_bytes :: "u32 \<Rightarrow> u8 list" where
  "u32_bytes w = put_u32_le (replicate 4 0) 0 w"

definition byte_of_char :: "char \<Rightarrow> u8" where
  "byte_of_char c = word_of_nat (code_of c)"

definition char_of_byte :: "u8 \<Rightarrow> char" where
  "char_of_byte b = char_of (unat b)"

definition instr_bytes :: "Instruction \<Rightarrow> u8 list" where
  "instr_bytes ins =
     u32_bytes (op_code (ins_op ins)) @ map byte_of_char (ins_arg1 ins) @ map byte_of_char (ins_arg2 ins) @
     u32_bytes (word_of_int (ins_value ins))"

definition instr_of_bytes :: "u8 list \<Rightarrow> Instruction" where
  "instr_of_bytes b =
     \<lparr> ins_op = op_of (get_u32_le b 0), ins_arg1 = map char_of_byte (take 64 (drop 4 b)),
       ins_arg2 = map char_of_byte (take 64 (drop 68 b)), ins_value = sint (get_u32_le b 132) \<rparr>"

definition save_qbc :: "code_state \<Rightarrow> u8 list" where
  "save_qbc st = u32_bytes (of_nat (instr_count st)) @ concat (map instr_bytes (take (instr_count st) (bytecode st)))"

text \<open>
  \<^verbatim>\<open>load_qbc\<close> checks neither the count nor how much was read: a count the file has no bytes for
  leaves entries with whatever they held (\<open>Short_file\<close>), and a file with more than 1024
  instructions is read past the end of the array.  A negative count is converted to a huge one.
\<close>

definition load_qbc :: "u8 list option \<Rightarrow> code_state \<Rightarrow> tool_error + int \<times> code_state" where
  "load_qbc file st =
     (case file of
        None \<Rightarrow> Inr (0, st)
      | Some bytes \<Rightarrow>
          if length bytes < 4 then Inl Short_file
          else let count = sint (get_u32_le bytes 0);
                   available = (length bytes - 4) div INSTR_BYTES;
                   read = (if count < 0 then available else min (nat count) available)
               in if read > MAX_INSTR then Inl Too_many_instructions
                  else if int read \<noteq> count then Inl Short_file
                  else Inr (1, \<lparr> bytecode = map (\<lambda>i. instr_of_bytes (take INSTR_BYTES (drop (4 + i * INSTR_BYTES) bytes)))
                                    [0..<read] @ drop read (bytecode st),
                                 instr_count = read \<rparr>))"

section \<open>Files\<close>

definition wf_instr :: "Instruction \<Rightarrow> bool" where
  "wf_instr ins \<longleftrightarrow> length (ins_arg1 ins) = 64 \<and> length (ins_arg2 ins) = 64 \<and>
     - (2 ^ 31) \<le> ins_value ins \<and> ins_value ins < 2 ^ 31 \<and> op_of (op_code (ins_op ins)) = ins_op ins"

definition wf_code :: "code_state \<Rightarrow> bool" where
  "wf_code st \<longleftrightarrow> length (bytecode st) = MAX_INSTR \<and> instr_count st \<le> MAX_INSTR \<and> list_all wf_instr (bytecode st)"

lemma op_of_op_code: "(\<forall>w. op = OP_OTHER w \<longrightarrow> 15 \<le> w) \<Longrightarrow> op_of (op_code op) = op"
  by (cases op) (simp_all add: op_of_def op_list_def linorder_not_less)

lemma wf_code_init: "wf_code code_init"
  by (simp add: wf_code_def code_init_def zero_instruction_def wf_instr_def op_of_def op_list_def list_all_iff)

lemma char_of_byte_of_char [simp]: "char_of_byte (byte_of_char c) = c"
proof -
  have "code_of c < 256" by (simp add: code_of_def)
  then show ?thesis by (simp add: char_of_byte_def byte_of_char_def code_of_def unsigned_of_nat take_bit_nat_eq_self)
qed

lemma length_u32_bytes [simp]: "length (u32_bytes w) = 4"
  by (simp add: u32_bytes_def)

lemma length_instr_bytes: "wf_instr ins \<Longrightarrow> length (instr_bytes ins) = 136"
  by (simp add: instr_bytes_def wf_instr_def)

lemma get_u32_bytes_at: "get_u32_le (xs @ u32_bytes w @ ys) (length xs) = w"
  by (rule u32.get_eqI) (simp add: nth_append u32_bytes_def u32.put_nth)

lemma instr_of_bytes_bytes:
  assumes "wf_instr ins"
  shows "instr_of_bytes (instr_bytes ins) = ins"
proof -
  have l: "length (ins_arg1 ins) = 64" "length (ins_arg2 ins) = 64" using assms by (auto simp: wf_instr_def)
  have "get_u32_le (instr_bytes ins) 0 = op_code (ins_op ins)"
    using get_u32_bytes_at [of "[]"] by (simp add: instr_bytes_def)
  moreover have "get_u32_le (instr_bytes ins) 132 = word_of_int (ins_value ins)"
    using get_u32_bytes_at [of "u32_bytes (op_code (ins_op ins)) @ map byte_of_char (ins_arg1 ins) @
        map byte_of_char (ins_arg2 ins)" _ "[]"] l by (simp add: instr_bytes_def)
  moreover have "sint (word_of_int (ins_value ins) :: u32) = ins_value ins"
    using assms by (simp add: wf_instr_def signed_of_int signed_take_bit_int_eq_self)
  ultimately show ?thesis
    using assms l by (simp add: instr_of_bytes_def wf_instr_def) (simp add: instr_bytes_def comp_def)
qed

lemma take_drop_concat:
  assumes "list_all (\<lambda>b. length b = n) bs" and "i < length bs"
  shows "take n (drop (i * n) (concat bs)) = bs ! i"
  using assms
proof (induction bs arbitrary: i)
  case (Cons b bs)
  then show ?case by (cases i) auto
qed simp

lemma length_concat_same: "list_all (\<lambda>b. length b = n) bs \<Longrightarrow> length (concat bs) = length bs * n"
  by (induction bs) auto

text \<open>
  C23: a bytecode file is read back as it was written: after saving well-formed code and loading the
  file, into whatever the array held before, the count and all instructions are the
  saved ones, with the bytes behind the strings included.
\<close>

theorem qbc_roundtrip:
  assumes "wf_code st" and "wf_code old"
  shows "\<exists>st'. load_qbc (Some (save_qbc st)) old = Inr (1, st') \<and> instr_count st' = instr_count st \<and>
     take (instr_count st) (bytecode st') = take (instr_count st) (bytecode st) \<and> wf_code st'"
proof -
  let ?n = "instr_count st" let ?is = "take ?n (bytecode st)" let ?b = "map instr_bytes ?is"
  have n: "?n \<le> 1024" "length (bytecode st) = 1024" "list_all wf_instr (bytecode st)"
    using assms(1) by (auto simp: wf_code_def MAX_INSTR_def)
  have ii: "list_all wf_instr ?is" "length ?is = ?n" using n by (auto simp: list_all_iff dest: in_set_takeD)
  have len: "list_all (\<lambda>b. length b = 136) ?b"  using ii by (auto simp: list_all_iff length_instr_bytes)
  have fl: "save_qbc st = u32_bytes (of_nat ?n) @ concat ?b" by (simp add: save_qbc_def)
  have lf: "length (save_qbc st) = 4 + ?n * 136" using length_concat_same [OF len] ii by (simp add: fl)
  have cnt: "sint (get_u32_le (save_qbc st) 0) = int ?n"
    using get_u32_bytes_at [of "[]" "of_nat ?n"] n(1)
    by (simp add: fl signed_of_nat signed_take_bit_int_eq_self)
  have "take INSTR_BYTES (drop (4 + i * INSTR_BYTES) (save_qbc st)) = ?b ! i" if "i < ?n" for i
    using take_drop_concat [OF len, of i] that ii by (simp add: fl INSTR_BYTES_def)
  then have "map (\<lambda>i. instr_of_bytes (take INSTR_BYTES (drop (4 + i * INSTR_BYTES) (save_qbc st)))) [0..<?n] = ?is"
     using ii by (intro nth_equalityI) (auto simp: instr_of_bytes_bytes list_all_length)
  then have "load_qbc (Some (save_qbc st)) old =
      Inr (1, \<lparr>bytecode = ?is @ drop ?n (bytecode old), instr_count = ?n\<rparr>)"
    using lf n(1) cnt by (simp add: load_qbc_def INSTR_BYTES_def MAX_INSTR_def Let_def)
  then show ?thesis
    using assms ii n by (auto simp: wf_code_def list_all_iff MAX_INSTR_def dest: in_set_dropD)
qed

theorem qbc_roundtrip_witness:
  "\<exists>st'. load_qbc (Some (save_qbc code_init)) code_init = Inr (1, st') \<and> instr_count st' = 0"
  using qbc_roundtrip [OF wf_code_init wf_code_init] by (auto simp: code_init_def)

section \<open>The code of a program\<close>

type_synonym ins = "OpCode \<times> string \<times> string \<times> int"

definition view :: "Instruction \<Rightarrow> ins" where
  "view i = (ins_op i, cstr (ins_arg1 i), cstr (ins_arg2 i), ins_value i)"

definition code :: "code_state \<Rightarrow> ins list" where
  "code st = map view (take (instr_count st) (bytecode st))"

definition number_of :: "string \<Rightarrow> int" where
  "number_of v = (case atoi v of Inr n \<Rightarrow> n | Inl _ \<Rightarrow> 0)"

text \<open>What a program should be compiled to.\<close>

fun gen :: "stmt \<Rightarrow> ins list" where
  "gen (Say_text v) = [(OP_SAY, v, [], 0)]"
| "gen (Say_name v) = [(OP_SAY, v, [], 0)]"
| "gen (Let x v) = [(OP_LET, x, v, 0)]"
| "gen (Check x ty op v ss) = (OP_CHECK, x, op, number_of v) # concat (map gen ss) @ [(OP_END, [], [], 0)]"
| "gen (Repeat v ss) = (OP_REPEAT, [], [], number_of v) # concat (map gen ss) @ [(OP_END, [], [], 0)]"
| "gen (Qmsg v) = [(OP_QMSG, v, [], 0)]"
| "gen (Encode x) = [(OP_ENCODE_QMSG, x, [], 0)]"
| "gen (Decode x) = [(OP_DECODE_QMSG, x, [], 0)]"
| "gen (Qbit x ty st) = [(OP_QBIT, x, st, 0)]"
| "gen (Hadamard x) = [(OP_HADAMARD, x, [], 0)]"
| "gen (Measure x) = [(OP_MEASURE, x, [], 0)]"
| "gen (Entangle x y) = [(OP_ENTANGLE, x, y, 0)]"
| "gen (Cnot x y) = [(OP_CNOT, x, y, 0)]"
| "gen (Action x) = [(OP_SAFE_ACTION, x, [], 0)]"

text \<open>Arguments that fit their 64 bytes, numbers that are an \<^verbatim>\<open>int\<close>.\<close>

definition arg_fits :: "string \<Rightarrow> bool" where
  "arg_fits v \<longleftrightarrow> length v < 64 \<and> CHR 0x00 \<notin> set v"

definition num_fits :: "string \<Rightarrow> bool" where
  "num_fits v \<longleftrightarrow> length v < 256 \<and> (case atoi v of Inr _ \<Rightarrow> True | Inl _ \<Rightarrow> False)"

fun fits :: "stmt \<Rightarrow> bool" where
  "fits (Say_text v) = arg_fits v"
| "fits (Say_name v) = arg_fits v"
| "fits (Let x v) = (arg_fits x \<and> arg_fits v)"
| "fits (Check x ty op v ss) = (arg_fits x \<and> arg_fits op \<and> num_fits v \<and> list_all fits ss)"
| "fits (Repeat v ss) = (num_fits v \<and> list_all fits ss)"
| "fits (Qmsg v) = arg_fits v"
| "fits (Encode x) = arg_fits x"
| "fits (Decode x) = arg_fits x"
| "fits (Qbit x ty st) = (arg_fits x \<and> arg_fits st)"
| "fits (Hadamard x) = arg_fits x"
| "fits (Measure x) = arg_fits x"
| "fits (Entangle x y) = (arg_fits x \<and> arg_fits y)"
| "fits (Cnot x y) = (arg_fits x \<and> arg_fits y)"
| "fits (Action x) = arg_fits x"

lemma cstr_strcpy:
  "strcpy buf s = Inr buf' \<Longrightarrow> CHR 0x00 \<notin> set s \<Longrightarrow> cstr buf' = s \<and> length buf' = length buf"
  by (auto simp: strcpy_def cstr_def takeWhile_append split: if_split_asm)

lemma strcpy_opt_fits:
  assumes "pred_option arg_fits s" and "length buf = 64"
  shows "\<exists>buf'. strcpy_opt (buf[0 := CHR 0x00]) s = Inr buf' \<and> length buf' = 64 \<and>
     cstr buf' = (case s of None \<Rightarrow> [] | Some v \<Rightarrow> v)"
proof (cases s)
  case None
  then show ?thesis using assms(2) by (cases buf) (simp_all add: strcpy_opt_def cstr_def)
next
  case (Some v)
  then have v: "length v < 64" "CHR 0x00 \<notin> set v" using assms(1) by (auto simp: arg_fits_def)
  then obtain buf' where "strcpy (buf[0 := CHR 0x00]) v = Inr buf'"
    using assms(2) by (simp add: strcpy_def)
  then show ?thesis using cstr_strcpy [OF _ v(2)] Some assms(2) by (auto simp: strcpy_opt_def)
qed

definition appends :: "code_state \<Rightarrow> ins list \<Rightarrow> code_state \<Rightarrow> bool" where
  "appends st xs st' \<longleftrightarrow> wf_code st' \<and> instr_count st' = instr_count st + length xs \<and> code st' = code st @ xs"

lemma appends_Nil: "wf_code st \<Longrightarrow> appends st [] st"
  by (simp add: appends_def)

lemma appends_trans: "appends st xs st' \<Longrightarrow> appends st' ys st'' \<Longrightarrow> appends st (xs @ ys) st''"
  by (simp add: appends_def)

lemma emit_appends:
  assumes wf: "wf_code st" and room: "instr_count st < MAX_INSTR"
    and args: "pred_option arg_fits a" "pred_option arg_fits b"
    and val: "- (2 ^ 31) \<le> v" "v < 2 ^ 31" and op: "op_of (op_code op) = op"
  shows "\<exists>st'. emit op a b v st = Inr st' \<and>
     appends st [(op, case a of None \<Rightarrow> [] | Some x \<Rightarrow> x, case b of None \<Rightarrow> [] | Some x \<Rightarrow> x, v)] st'"
proof -
  let ?i = "instr_count st" let ?old = "bytecode st ! ?i"
  have len: "length (bytecode st) = MAX_INSTR" and old: "wf_instr ?old"
    using wf room by (auto simp: wf_code_def list_all_length)
  obtain a1 where a1: "strcpy_opt ((ins_arg1 ?old)[0 := CHR 0x00]) a = Inr a1" "length a1 = 64"
      "cstr a1 = (case a of None \<Rightarrow> [] | Some x \<Rightarrow> x)"
    using strcpy_opt_fits [OF args(1)] old by (auto simp: wf_instr_def)
  obtain a2 where a2: "strcpy_opt ((ins_arg2 ?old)[0 := CHR 0x00]) b = Inr a2" "length a2 = 64"
      "cstr a2 = (case b of None \<Rightarrow> [] | Some x \<Rightarrow> x)"
    using strcpy_opt_fits [OF args(2)] old by (auto simp: wf_instr_def)
  let ?ins = "\<lparr>ins_op = op, ins_arg1 = a1, ins_arg2 = a2, ins_value = v\<rparr>"
  let ?st = "\<lparr>bytecode = (bytecode st)[?i := ?ins], instr_count = ?i + 1\<rparr>"
  have "emit op a b v st = Inr ?st" using room a1(1) a2(1) by (simp add: emit_def Let_def)
  moreover have "wf_code ?st"
    using wf room a1(2) a2(2) val op
    by (auto simp: wf_code_def wf_instr_def list_all_length nth_list_update)
  moreover have "code ?st = code st @ [view ?ins]"
    using room len by (simp add: code_def take_Suc_conv_app_nth)
  ultimately show ?thesis using a1(3) a2(3) by (auto simp: appends_def view_def)
qed

definition compiles :: "stmt \<Rightarrow> bool" where
  "compiles s \<longleftrightarrow> (\<forall>st. fits s \<longrightarrow> wf_code st \<longrightarrow> instr_count st + length (gen s) \<le> MAX_INSTR \<longrightarrow>
     (\<exists>st'. appends st (gen s) st' \<and> (\<forall>nx. compile (Some (with_next nx (ast_of s))) st = compile nx st')))"

lemma compilesD:
  assumes "compiles s" and "fits s" and "wf_code st" and "instr_count st + length (gen s) \<le> MAX_INSTR"
  obtains st' where "appends st (gen s) st'" "\<And>nx. compile (Some (with_next nx (ast_of s))) st = compile nx st'"
  using assms unfolding compiles_def by blast

lemma compile_list:
  assumes "list_all compiles ss" and "list_all fits ss" and "wf_code st"
    and "instr_count st + length (concat (map gen ss)) \<le> MAX_INSTR"
  shows "\<exists>st'. appends st (concat (map gen ss)) st' \<and> compile (chain (map ast_of ss)) st = Inr st'"
  using assms
proof (induction ss arbitrary: st)
  case Nil
  then show ?case by (auto intro: appends_Nil)
next
  case (Cons s ss)
  obtain st1 where s: "appends st (gen s) st1" "\<And>nx. compile (Some (with_next nx (ast_of s))) st = compile nx st1"
    using compilesD [of s st] Cons.prems by auto
  have "wf_code st1" "instr_count st1 + length (concat (map gen ss)) \<le> MAX_INSTR"
    using s(1) Cons.prems(4) by (auto simp: appends_def)
  then obtain st2 where "appends st1 (concat (map gen ss)) st2" "compile (chain (map ast_of ss)) st1 = Inr st2"
    using Cons.IH [of st1] Cons.prems(1,2) by auto
  then show ?case using s appends_trans by auto
qed

lemma new_node_short: "length v < 256 \<Longrightarrow> new_node ty v = ASTNode ty v None None None None"
  by (simp add: new_node_def)

lemma arg_fits_short: "arg_fits v \<Longrightarrow> length v < 256"
  by (simp add: arg_fits_def)

lemma compiles_emit:
  assumes "\<And>st nx. fits s \<Longrightarrow> compile (Some (with_next nx (ast_of s))) st = ebind (emit op a b 0 st) (compile nx)"
    and "gen s = [(op, case a of None \<Rightarrow> [] | Some x \<Rightarrow> x, case b of None \<Rightarrow> [] | Some x \<Rightarrow> x, 0)]"
    and "fits s \<Longrightarrow> pred_option arg_fits a \<and> pred_option arg_fits b" and "op_of (op_code op) = op"
  shows "compiles s"
  unfolding compiles_def
proof (intro allI impI)
  fix st assume st: "fits s" "wf_code st" "instr_count st + length (gen s) \<le> MAX_INSTR"
  then obtain st' where "emit op a b 0 st = Inr st'" "appends st (gen s) st'"
    using emit_appends [of st a b 0 op] assms by auto
  then show "\<exists>st'. appends st (gen s) st' \<and> (\<forall>nx. compile (Some (with_next nx (ast_of s))) st = compile nx st')"
    using assms(1) st by auto
qed

lemma canonical_ops [simp]:
  "op_of 0 = OP_SAY" "op_of 1 = OP_LET" "op_of 2 = OP_QBIT" "op_of 3 = OP_HADAMARD" "op_of 4 = OP_MEASURE"
  "op_of 5 = OP_ENTANGLE" "op_of 6 = OP_CNOT" "op_of 7 = OP_CHECK" "op_of 8 = OP_REPEAT" "op_of 9 = OP_BLOCK"
  "op_of 10 = OP_END" "op_of 11 = OP_SAFE_ACTION" "op_of 12 = OP_QMSG" "op_of 13 = OP_ENCODE_QMSG"
  "op_of 14 = OP_DECODE_QMSG"
  by (simp_all add: op_of_def op_list_def)

lemma atoi_range: "atoi v = Inr n \<Longrightarrow> - (2 ^ 31) \<le> n \<and> n < 2 ^ 31"
  by (auto simp: atoi_def Let_def split: if_split_asm)

text \<open>A statement with a block: an instruction that opens it, the block, and the end.\<close>

lemma compile_block:
  assumes "list_all compiles ss" and "list_all fits ss" and "wf_code st"
    and "instr_count st + length (concat (map gen ss)) + 2 \<le> MAX_INSTR"
    and "pred_option arg_fits a" "pred_option arg_fits b" and "- (2 ^ 31) \<le> n" "n < 2 ^ 31"
    and "op_of (op_code op) = op"
  shows "\<exists>st'. appends st ((op, case a of None \<Rightarrow> [] | Some x \<Rightarrow> x, case b of None \<Rightarrow> [] | Some x \<Rightarrow> x, n) #
        concat (map gen ss) @ [(OP_END, [], [], 0)]) st' \<and>
     ebind (emit op a b n st) (\<lambda>st. ebind (compile (Some (block_node (map ast_of ss))) st) (emit OP_END None None 0)) =
       Inr st'"
proof -
  obtain st1 where e1: "emit op a b n st = Inr st1"
      "appends st [(op, case a of None \<Rightarrow> [] | Some x \<Rightarrow> x, case b of None \<Rightarrow> [] | Some x \<Rightarrow> x, n)] st1"
    using emit_appends [of st a b n op] assms by auto
  obtain st2 where e2: "appends st1 (concat (map gen ss)) st2" "compile (chain (map ast_of ss)) st1 = Inr st2"
    using compile_list [of ss st1] assms(1,2,4) e1(2) by (auto simp: appends_def)
  obtain st3 where e3: "emit OP_END None None 0 st2 = Inr st3" "appends st2 [(OP_END, [], [], 0)] st3"
    using emit_appends [of st2 None None 0 OP_END] assms(4) e1(2) e2(1) by (auto simp: appends_def)
  have "compile (Some (block_node (map ast_of ss))) st1 = Inr st2"
    using e2(2) by (simp add: block_node_def new_node_def)
  then show ?thesis using e1 e3 appends_trans [OF e1(2) appends_trans [OF e2(1) e3(2)]] by auto
qed

lemmas single = new_node_short arg_fits_short value_of_def

lemma compiles_stmt: "compiles s"
proof (induction s)
  case (Check x ty op v ss)
  show ?case
    unfolding compiles_def
  proof (intro allI impI)
    fix st
    let ?s = "Check x ty op v ss"
    assume st: "fits ?s" "wf_code st" "instr_count st + length (gen ?s) \<le> MAX_INSTR"
    obtain n where n: "atoi v = Inr n" "length v < 256"
      using st(1) by (auto simp: num_fits_def split: sum.split_asm)
    have l: "list_all compiles ss" using Check by (simp add: list_all_iff)
    obtain st' where st': "appends st (gen ?s) st'"
        "ebind (emit OP_CHECK (Some x) (Some op) n st)
           (\<lambda>st. ebind (compile (Some (block_node (map ast_of ss))) st) (emit OP_END None None 0)) = Inr st'"
      using compile_block [OF l _ st(2), of "Some x" "Some op" n OP_CHECK] st(1,3) n atoi_range [OF n(1)]
      by (auto simp: number_of_def)
    have "compile (Some (with_next nx (ast_of ?s))) st = ebind (ebind (emit OP_CHECK (Some x) (Some op) n st)
           (\<lambda>st. ebind (compile (Some (block_node (map ast_of ss))) st) (emit OP_END None None 0))) (compile nx)" for nx
      using st(1) n by (simp add: new_node_short arg_fits_short emit_check_def)
    then show "\<exists>st'. appends st (gen ?s) st' \<and> (\<forall>nx. compile (Some (with_next nx (ast_of ?s))) st = compile nx st')"
      using st' by auto
  qed
next
  case (Repeat v ss)
  show ?case
    unfolding compiles_def
  proof (intro allI impI)
    fix st
    let ?s = "Repeat v ss"
    assume st: "fits ?s" "wf_code st" "instr_count st + length (gen ?s) \<le> MAX_INSTR"
    obtain n where n: "atoi v = Inr n" "length v < 256"
      using st(1) by (auto simp: num_fits_def split: sum.split_asm)
    have l: "list_all compiles ss" using Repeat by (simp add: list_all_iff)
    obtain st' where st': "appends st (gen ?s) st'"
        "ebind (emit OP_REPEAT None None n st)
           (\<lambda>st. ebind (compile (Some (block_node (map ast_of ss))) st) (emit OP_END None None 0)) = Inr st'"
      using compile_block [OF l _ st(2), of None None n OP_REPEAT] st(1,3) n atoi_range [OF n(1)]
      by (auto simp: number_of_def)
    have "compile (Some (with_next nx (ast_of ?s))) st = ebind (ebind (emit OP_REPEAT None None n st)
           (\<lambda>st. ebind (compile (Some (block_node (map ast_of ss))) st) (emit OP_END None None 0))) (compile nx)" for nx
      using n by (simp add: new_node_short)
    then show "\<exists>st'. appends st (gen ?s) st' \<and> (\<forall>nx. compile (Some (with_next nx (ast_of ?s))) st = compile nx st')"
      using st' by auto
  qed
next
  case (Say_text v)
  show ?case by (rule compiles_emit [where op = OP_SAY and a = "Some v" and b = "None"])
      (simp_all add: single)
next
  case (Say_name v)
  show ?case by (rule compiles_emit [where op = OP_SAY and a = "Some v" and b = "None"])
      (simp_all add: single)
next
  case (Let x v)
  show ?case by (rule compiles_emit [where op = OP_LET and a = "Some x" and b = "Some v"])
      (simp_all add: single)
next
  case (Qmsg v)
  show ?case by (rule compiles_emit [where op = OP_QMSG and a = "Some v" and b = "None"])
      (simp_all add: single)
next
  case (Encode x)
  show ?case by (rule compiles_emit [where op = OP_ENCODE_QMSG and a = "Some x" and b = "None"])
      (simp_all add: single)
next
  case (Decode x)
  show ?case by (rule compiles_emit [where op = OP_DECODE_QMSG and a = "Some x" and b = "None"])
      (simp_all add: single)
next
  case (Qbit x ty s)
  show ?case by (rule compiles_emit [where op = OP_QBIT and a = "Some x" and b = "Some s"])
      (simp_all add: single)
next
  case (Hadamard x)
  show ?case by (rule compiles_emit [where op = OP_HADAMARD and a = "Some x" and b = "None"])
      (simp_all add: single)
next
  case (Measure x)
  show ?case by (rule compiles_emit [where op = OP_MEASURE and a = "Some x" and b = "None"])
      (simp_all add: single)
next
  case (Entangle x y)
  show ?case by (rule compiles_emit [where op = OP_ENTANGLE and a = "Some x" and b = "Some y"])
      (simp_all add: single)
next
  case (Cnot x y)
  show ?case by (rule compiles_emit [where op = OP_CNOT and a = "Some x" and b = "Some y"])
      (simp_all add: single)
next
  case (Action x)
  show ?case by (rule compiles_emit [where op = OP_SAFE_ACTION and a = "Some x" and b = "None"])
      (simp_all add: single)
qed


lemma compile_program_code:
  assumes "list_all fits p" and "length (concat (map gen p)) \<le> MAX_INSTR"
  shows "\<exists>st. compile (node_body (ast_program p)) code_init = Inr st \<and> wf_code st \<and> code st = concat (map gen p)"
proof -
  have "list_all compiles p" by (simp add: compiles_stmt list_all_iff)
  then obtain st where "appends code_init (concat (map gen p)) st" "compile (chain (map ast_of p)) code_init = Inr st"
    using compile_list [of p code_init] assms wf_code_init by (auto simp: code_init_def)
  then show ?thesis by (auto simp: appends_def ast_program_def new_node_def code_def code_init_def)
qed

text \<open>
  The compiler translates every program that fits its tables: names and texts of less than 64
  characters, counts that are an \<^verbatim>\<open>int\<close>, at most 1024 instructions.  The bytecode is then the code of the
  statements in order, each block between the instruction that opens it and its end.
\<close>

theorem compile_correct:
  assumes "list_all fits p" and "length (concat (map gen p)) \<le> 1024"
  shows "\<exists>st. compile (node_body (ast_program p)) code_init = Inr st \<and> wf_code st \<and> code st = concat (map gen p)"
  using compile_program_code [of p] assms by (simp add: MAX_INSTR_def)

lemma sample_fits: "list_all fits sample_program"
  by (simp add: sample_program_def arg_fits_def num_fits_def atoi_def digits_value_def char_class_defs)

theorem compile_correct_witness:
  "\<exists>st. compile (node_body (ast_program sample_program)) code_init = Inr st \<and>
     code st = [(OP_QBIT, ''q'', ''|0>'', 0), (OP_LET, ''n'', ''3'', 0), (OP_REPEAT, [], [], 2), (OP_HADAMARD, ''q'', [], 0),
       (OP_CHECK, ''n'', ''>'', 1), (OP_MEASURE, ''q'', [], 0), (OP_SAY, ''q'', [], 0), (OP_END, [], [], 0),
       (OP_END, [], [], 0), (OP_QMSG, ''HI'', [], 0), (OP_ENCODE_QMSG, ''qmsg'', [], 0), (OP_SAFE_ACTION, ''led_on'', [], 0)]"
  using compile_correct [OF sample_fits]
  by (simp add: sample_program_def number_of_def atoi_def digits_value_def char_class_defs) blast

section \<open>Failures\<close>

lemma emit_Inl: "emit op a b v st = Inl e \<Longrightarrow> e = Too_many_instructions \<or> e = Argument_too_long"
  by (auto simp: emit_def Let_def ebind_Inl_iff strcpy_opt_def strcpy_def split: if_split_asm option.split_asm)

lemma atoi_Inl: "atoi v = Inl e \<Longrightarrow> e = Number_out_of_range"
  by (auto simp: atoi_def Let_def split: if_split_asm)

lemma emit_check_Inl:
  "emit_check l st = Inl e \<Longrightarrow> e \<in> {Too_many_instructions, Argument_too_long, Number_out_of_range}"
  by (auto simp: emit_check_def ebind_Inl_iff split: option.split_asm ASTNode.split_asm dest: emit_Inl atoi_Inl)

lemma compile_Inl:
  "compile n st = Inl e \<Longrightarrow> left_present n \<Longrightarrow> e \<in> {Too_many_instructions, Argument_too_long, Number_out_of_range}"
proof (induction n st rule: compile.induct)
  case (2 ty v l r b n st)
  show ?case
  proof (cases ty)
    case NODE_CHECK
    then show ?thesis
      using 2 by (auto simp: ebind_Inl_iff dest: emit_Inl emit_check_Inl)
  next
    case NODE_REPEAT
    then show ?thesis using 2 by (auto simp: ebind_Inl_iff dest: emit_Inl atoi_Inl)
  next
    case NODE_BLOCK
    then show ?thesis using 2 by (auto simp: ebind_Inl_iff)
  qed (use 2 in \<open>auto simp: ebind_Inl_iff value_of_def dest: emit_Inl\<close>)
qed simp

text \<open>
  C24: compiling what the parser returned never follows a \<^verbatim>\<open>NULL\<close> pointer; what can go wrong is one of the
  unchecked limits: an instruction beyond the 1024th, an argument of 64 characters or more, a
  number that is no \<^verbatim>\<open>int\<close>.
\<close>

theorem compile_parsed_safe:
  assumes "parse toks = Inr a" and "compile (node_body a) st = Inl e"
  shows "e \<in> {Too_many_instructions, Argument_too_long, Number_out_of_range}"
  by (rule compile_Inl [OF assms(2) parse_left [OF assms(1)]])

lemma say_parsed:
  "parse [tok TOKEN_SAY ''say'', tok TOKEN_STRING w, eof_token 1] =
     Inr (ASTNode NODE_PROGRAM ''program'' None None
       (Some (ASTNode NODE_SAY ''say'' (Some (new_node NODE_STRING w)) None None None)) None)"
  by (simp add: parse_def parse_fuel_def eval_nat_numeral peek_def parse_text_def eof_token_def new_node_def)

lemma long_argument:
  "compile (Some (ASTNode NODE_SAY ''say'' (Some (new_node NODE_STRING (replicate 64 (CHR ''x'')))) None None None))
     code_init = Inl Argument_too_long"
  by (simp add: new_node_def value_of_def emit_def code_init_def zero_instruction_def MAX_INSTR_def strcpy_opt_def
      strcpy_def)

theorem compile_parsed_safe_witness:
  "\<exists>a e. parse [tok TOKEN_SAY ''say'', tok TOKEN_STRING (replicate 64 (CHR ''x'')), eof_token 1] = Inr a \<and>
     compile (node_body a) code_init = Inl e \<and>
     e \<in> {Too_many_instructions, Argument_too_long, Number_out_of_range}"
  using compile_parsed_safe [OF say_parsed, where st = code_init and e = Argument_too_long] long_argument
    say_parsed [of "replicate 64 (CHR ''x'')"] by auto

end
