(* ===== verification/Safe_Adapter.thy ===== *)
theory Safe_Adapter
  imports Tool_Error
begin

text \<open>
  The whitelist between programs and hardware, \<^verbatim>\<open>src/src/adapter/safe_adapter.c\<close>: the result and the line
  it prints, as the command that is allowed or the action that is blocked.
\<close>

datatype AdapterResult = ADAPTER_OK | ADAPTER_BLOCKED

datatype adapter_line = Allowed string | Blocked string

definition adapter_dispatch_safe :: "string \<Rightarrow> AdapterResult \<times> adapter_line" where
  "adapter_dispatch_safe action =
     (if action = ''led_on'' then (ADAPTER_OK, Allowed ''LED_ON'')
      else if action = ''led_off'' then (ADAPTER_OK, Allowed ''LED_OFF'')
      else if action = ''servo_up'' then (ADAPTER_OK, Allowed ''SERVO_UP'')
      else if action = ''servo_down'' then (ADAPTER_OK, Allowed ''SERVO_DOWN'')
      else if action = ''buzzer_beep'' then (ADAPTER_OK, Allowed ''BUZZER_BEEP'')
      else (ADAPTER_BLOCKED, Blocked action))"

definition safe_actions :: "string set" where
  "safe_actions = {''led_on'', ''led_off'', ''servo_up'', ''servo_down'', ''buzzer_beep''}"

lemma dispatch_ok_iff: "fst (adapter_dispatch_safe action) = ADAPTER_OK \<longleftrightarrow> action \<in> safe_actions"
  by (simp add: adapter_dispatch_safe_def safe_actions_def)

lemma dispatch_allowed:
  "snd (adapter_dispatch_safe action) = Allowed cmd \<Longrightarrow> action \<in> safe_actions"
  by (auto simp: adapter_dispatch_safe_def safe_actions_def split: if_split_asm)

end
