(* ===== verification/Strtod.thy ===== *)
theory Strtod
  imports Compiler Binary64
begin

text \<open>
  Numbers from text as the C library reads them: \<^verbatim>\<open>atof\<close> with all its notations, and the values of a
  \<^verbatim>\<open>double\<close> that is read, compared and printed, infinities, not-a-number and the negative zero included.
\<close>

section \<open>Values of a double\<close>

datatype double_value =
    Finite real
  | Negative_zero
  | Infinite bool \<comment> \<open>whether it is negative\<close>
  | Not_a_number bool

text \<open>The place of a value in the order of the comparisons; not-a-number has none.\<close>

fun rank :: "double_value \<Rightarrow> (int \<times> real) option" where
  "rank (Finite x) = Some (0, x)"
| "rank Negative_zero = Some (0, 0)"
| "rank (Infinite neg) = Some (if neg then - 1 else 1, 0)"
| "rank (Not_a_number neg) = None"

definition dbl_less :: "double_value \<Rightarrow> double_value \<Rightarrow> bool" where
  "dbl_less x y =
     (case (rank x, rank y) of (Some (i, a), Some (j, b)) \<Rightarrow> i < j \<or> i = j \<and> a < b | _ \<Rightarrow> False)"

definition dbl_equal :: "double_value \<Rightarrow> double_value \<Rightarrow> bool" where
  "dbl_equal x y \<longleftrightarrow> rank x \<noteq> None \<and> rank x = rank y"

definition dbl_less_equal :: "double_value \<Rightarrow> double_value \<Rightarrow> bool" where
  "dbl_less_equal x y \<longleftrightarrow> dbl_less x y \<or> dbl_equal x y"

text \<open>
  The double next to the magnitude \<open>x\<close> with a sign: \<open>rnd\<close> rounds in the normal range, below it the
  spacing is fixed, and beyond the largest double there is only infinity.
\<close>

definition to_double :: "(real \<Rightarrow> real) \<Rightarrow> bool \<Rightarrow> real \<Rightarrow> double_value" where
  "to_double rnd neg x =
     (let y = (if neg then - x else x);
          r = (if x < 2 powi (- 1022) then of_int (rne (y * 2 ^ 1074)) / 2 ^ 1074 else rnd y)
      in if r = 0 then if neg then Negative_zero else Finite 0
         else if \<bar>r\<bar> \<ge> 2 ^ 1024 then Infinite neg
         else Finite r)"

lemma to_double_0 [simp]: "to_double rnd neg 0 = (if neg then Negative_zero else Finite 0)"
  by (simp add: to_double_def rne_def)

lemma to_double_int:
  assumes "rnd (of_int n) = of_int n" and "0 \<le> n" and "n < 2 ^ 64"
  shows "to_double rnd False (of_int n) = Finite (of_int n)"
proof (cases "n = 0")
  case False
  have "(2 :: real) powi (- 1022) \<le> 2 powi 0" by (rule power_int_increasing) simp_all
  also have "\<dots> \<le> of_int n" using False assms(2) by simp
  finally have lo: "\<not> of_int n < (2 :: real) powi (- 1022)" by simp
  have "(of_int n :: real) < of_int (2 ^ 64)" using assms(3) by (simp only: of_int_less_iff)
  also have "\<dots> \<le> 2 ^ 1024" unfolding of_int_power of_int_numeral by (rule power_increasing) simp_all
  finally have hi: "\<not> \<bar>of_int n\<bar> \<ge> (2 :: real) ^ 1024" using assms(2) by simp
  show ?thesis unfolding to_double_def Let_def using lo hi False assms(1) by simp
qed simp

section \<open>Reading numbers\<close>

definition lower :: "char \<Rightarrow> char" where
  "lower c = (if 65 \<le> code_of c \<and> code_of c \<le> 90 then char_of (code_of c + 32) else c)"

definition digit_of :: "char \<Rightarrow> nat" where
  "digit_of c =
     (let n = code_of c
      in if 48 \<le> n \<and> n \<le> 57 then n - 48
         else if 97 \<le> n \<and> n \<le> 122 then n - 87
         else if 65 \<le> n \<and> n \<le> 90 then n - 55
         else 36)"

text \<open>Digits with an optional point: their value without the point, the number behind it, and the rest of the text.\<close>

definition mantissa :: "nat \<Rightarrow> string \<Rightarrow> (int \<times> nat \<times> string) option" where
  "mantissa base s =
     (let ip = takeWhile (\<lambda>c. digit_of c < base) s; rest = dropWhile (\<lambda>c. digit_of c < base) s;
          point = (rest \<noteq> [] \<and> hd rest = CHR ''.'');
          fp = (if point then takeWhile (\<lambda>c. digit_of c < base) (tl rest) else []);
          rest = (if point then dropWhile (\<lambda>c. digit_of c < base) (tl rest) else rest)
      in if ip @ fp = [] then None
         else Some (foldl (\<lambda>n c. int base * n + int (digit_of c)) 0 (ip @ fp), length fp, rest))"

text \<open>The exponent behind a mark; a mark without digits is not one.\<close>

definition exponent :: "char \<Rightarrow> string \<Rightarrow> int" where
  "exponent mark s =
     (if s = [] \<or> lower (hd s) \<noteq> mark then 0
      else let t = tl s;
               neg = (t \<noteq> [] \<and> hd t = CHR ''-'');
               t = (if t \<noteq> [] \<and> (hd t = CHR ''-'' \<or> hd t = CHR ''+'') then tl t else t);
               e = digits_value (takeWhile isdigit t)
           in if neg then - e else e)"

definition atof :: "(real \<Rightarrow> real) \<Rightarrow> string \<Rightarrow> double_value" where
  "atof rnd s =
     (let s = dropWhile isspace s;
          neg = (s \<noteq> [] \<and> hd s = CHR ''-'');
          s = (if s \<noteq> [] \<and> (hd s = CHR ''-'' \<or> hd s = CHR ''+'') then tl s else s)
      in if map lower (take 3 s) = ''inf'' then Infinite neg
         else if map lower (take 3 s) = ''nan'' then Not_a_number neg
         else if map lower (take 2 s) = ''0x''
         then (case mantissa 16 (drop 2 s) of
                 None \<Rightarrow> to_double rnd neg 0
               | Some (m, k, rest) \<Rightarrow>
                   to_double rnd neg (of_int m * 2 powi (exponent (CHR ''p'') rest - 4 * int k)))
         else (case mantissa 10 s of
                 None \<Rightarrow> Finite 0
               | Some (m, k, rest) \<Rightarrow>
                   to_double rnd neg (of_int m * 10 powi (exponent (CHR ''e'') rest - int k))))"

section \<open>Decimal digits\<close>

definition digits :: "string \<Rightarrow> bool" where
  "digits v \<longleftrightarrow> v \<noteq> [] \<and> list_all isdigit v"

lemma digit_plain: "isdigit c \<Longrightarrow> \<not> isspace c \<and> lower c = c \<and> c \<notin> set ''+-.inxIeE''"
  by (auto simp: isdigit_def isspace_def lower_def code_of_def)

lemma digits_start:
  assumes "digits v"
  shows "dropWhile isspace v = v" "takeWhile isdigit v = v" "dropWhile isdigit v = []" "hd v \<notin> set ''+-''"
proof -
  obtain c w where v: "v = c # w" "isdigit c" "list_all isdigit w" using assms by (cases v) (auto simp: digits_def)
  then show "dropWhile isspace v = v" "hd v \<notin> set ''+-''" using digit_plain [of c] by auto
  show "takeWhile isdigit v = v" "dropWhile isdigit v = []" using assms by (auto simp: digits_def list_all_iff)
qed

lemma digits_lower: "list_all isdigit v \<Longrightarrow> map lower v = v"
  by (induction v) (auto simp: digit_plain)

lemma take_digits: "list_all isdigit v \<Longrightarrow> list_all isdigit (take n v)"
  by (auto simp: list_all_iff dest: in_set_takeD)

lemma digit_of_decimal: "digit_of c < 10 \<longleftrightarrow> isdigit c" "isdigit c \<Longrightarrow> digit_of c = code_of c - 48"
  by (auto simp: digit_of_def isdigit_def Let_def)

lemma mantissa_digits:
  assumes "digits v"
  shows "mantissa 10 v = Some (digits_value v, 0, [])"
proof -
  have "foldl (\<lambda>n c. int 10 * n + int (digit_of c)) a v = foldl (\<lambda>n c. 10 * n + int (code_of c - 48)) a v"
    if "list_all isdigit v" for a
    using that by (induction v arbitrary: a) (auto simp: digit_of_decimal)
  then show ?thesis
    using assms by (simp add: mantissa_def digit_of_decimal digits_start digits_def digits_value_def)
qed

lemma atof_digits:
  assumes "digits v"
  shows "atof rnd v = to_double rnd False (of_int (digits_value v))"
proof -
  have "list_all isdigit (map lower (take n v))" for n
    using assms take_digits [of v n] digits_lower [of "take n v"] by (simp add: digits_def)
  then have "map lower (take 3 v) \<noteq> ''inf''" "map lower (take 3 v) \<noteq> ''nan''" "map lower (take 2 v) \<noteq> ''0x''"
    by (auto simp: isdigit_def code_of_def dest!: arg_cong [where f = "list_all isdigit"])
  then show ?thesis
    using digits_start(4) [OF assms]
    by (simp add: atof_def Let_def digits_start(1) [OF assms] mantissa_digits [OF assms] exponent_def)
qed

lemma digits_value_nonneg: "0 \<le> digits_value v"
proof -
  have "0 \<le> a \<Longrightarrow> 0 \<le> foldl (\<lambda>n c. 10 * n + int (code_of c - 48)) a v" for a by (induction v arbitrary: a) auto
  then show ?thesis by (simp add: digits_value_def)
qed

text \<open>Comparisons of finite values are those of the reals.\<close>

lemma finite_compare [simp]:
  "dbl_less (Finite x) (Finite y) \<longleftrightarrow> x < y" "dbl_equal (Finite x) (Finite y) \<longleftrightarrow> x = y"
  "dbl_less_equal (Finite x) (Finite y) \<longleftrightarrow> x \<le> y"
  by (auto simp: dbl_less_def dbl_equal_def dbl_less_equal_def)

end
