(* ===== verification/Byte_VM.thy ===== *)
theory Byte_VM
  imports Compiler Safe_Adapter Strtod
begin

text \<open>
  The bytecode virtual machine, \<^verbatim>\<open>src/src/vm/byte_vm.c\<close>.  Its static arrays and counters are lists; an
  instruction is the operation, the two argument strings and the number.  Arithmetic on \<^verbatim>\<open>double\<close> is
  real arithmetic rounded by \<open>rnd\<close>, \<open>rand k\<close> is the \<open>k\<close>-th result of \<^verbatim>\<open>rand()\<close>, and what is printed is a
  list of \<open>vm_line\<close>.
\<close>

section \<open>State\<close>

definition MAX_VM_VARS :: nat where "MAX_VM_VARS = 64"
definition MAX_VM_QBITS :: nat where "MAX_VM_QBITS = 32"
definition QMSG_MAX_CHARS :: nat where "QMSG_MAX_CHARS = 128"
definition QMSG_MAX_BITS :: nat where "QMSG_MAX_BITS = QMSG_MAX_CHARS * 8 + 1"
definition REPEAT_STACK :: nat where "REPEAT_STACK = 64"
definition RAND_MAX :: int where "RAND_MAX = 2147483647"

record VMVar =
  var_name :: string
  var_value :: double_value

record VMQbit =
  qb_name :: string
  qb_a :: real
  qb_b :: real
  qb_measured :: bool
  qb_result :: int
  qb_entangled_with :: string

datatype vm_line =
    L_text string
  | L_number double_value \<comment> \<open>\<^verbatim>\<open>%g\<close>\<close>
  | L_basis int
  | L_amplitudes real real
  | L_error string "string list" \<comment> \<open>the message and the names it prints\<close>
  | L_warning string
  | L_cnot string string
  | L_entangled string string
  | L_collapse string string int
  | L_loaded string
  | L_bits string nat
  | L_packet_measured nat
  | L_register string
  | L_decoded string
  | L_adapter adapter_line
  | L_dispatched string

record vm =
  vm_vars :: "VMVar list"
  vm_qbits :: "VMQbit list"
  qmsg_text :: string
  qmsg_bits :: string
  qmsg_loaded :: bool
  qmsg_encoded :: bool
  qmsg_measured :: bool
  vm_draws :: nat
  vm_out :: "vm_line list"

definition vm_init :: vm where
  "vm_init = \<lparr> vm_vars = [], vm_qbits = [], qmsg_text = [], qmsg_bits = [], qmsg_loaded = False,
     qmsg_encoded = False, qmsg_measured = False, vm_draws = 0, vm_out = [] \<rparr>"

definition say :: "vm_line \<Rightarrow> vm \<Rightarrow> vm" where
  "say l s = s\<lparr>vm_out := vm_out s @ [l]\<rparr>"

section \<open>Variables and qubits\<close>

fun position :: "('a \<Rightarrow> bool) \<Rightarrow> 'a list \<Rightarrow> nat option" where
  "position P [] = None"
| "position P (x # xs) = (if P x then Some 0 else map_option Suc (position P xs))"

definition find_var :: "string \<Rightarrow> vm \<Rightarrow> nat option" where
  "find_var name s = position (\<lambda>v. var_name v = name) (vm_vars s)"

definition set_var :: "string \<Rightarrow> double_value \<Rightarrow> vm \<Rightarrow> vm" where
  "set_var name val s =
     (case find_var name s of
        Some i \<Rightarrow> s\<lparr>vm_vars := (vm_vars s)[i := (vm_vars s ! i)\<lparr>var_value := val\<rparr>]\<rparr>
      | None \<Rightarrow>
          if length (vm_vars s) \<ge> MAX_VM_VARS then say (L_error ''variable limit reached'' []) s
          else s\<lparr>vm_vars := vm_vars s @ [\<lparr>var_name = name, var_value = val\<rparr>]\<rparr>)"

definition find_qbit :: "string \<Rightarrow> vm \<Rightarrow> nat option" where
  "find_qbit name s = position (\<lambda>q. qb_name q = name) (vm_qbits s)"

text \<open>The amplitudes of a state written in the source, and whether it is known.\<close>

definition state_amplitudes :: "(real \<Rightarrow> real) \<Rightarrow> string \<Rightarrow> (real \<times> real) option" where
  "state_amplitudes rnd state =
     (let h = rnd (1 / rnd (sqrt 2))
      in if state = ''|0>'' then Some (1, 0)
         else if state = ''|1>'' then Some (0, 1)
         else if state = ''|+>'' then Some (h, h)
         else if state = ''|->'' then Some (h, rnd (- 1 / rnd (sqrt 2)))
         else None)"

definition upd_qbit :: "nat \<Rightarrow> (VMQbit \<Rightarrow> VMQbit) \<Rightarrow> vm \<Rightarrow> vm" where
  "upd_qbit i f s = s\<lparr>vm_qbits := (vm_qbits s)[i := f (vm_qbits s ! i)]\<rparr>"

definition create_qbit :: "(real \<Rightarrow> real) \<Rightarrow> string \<Rightarrow> string \<Rightarrow> vm \<Rightarrow> vm" where
  "create_qbit rnd name state s =
     (let prepare = (\<lambda>i s.
            case state_amplitudes rnd state of
              Some (a, b) \<Rightarrow> upd_qbit i (\<lambda>q. q\<lparr>qb_a := a, qb_b := b, qb_measured := False, qb_result := - 1\<rparr>) s
            | None \<Rightarrow> upd_qbit i (\<lambda>q. q\<lparr>qb_a := 1, qb_b := 0, qb_measured := False, qb_result := - 1\<rparr>)
                        (say (L_error ''unknown qbit state'' [state]) s))
      in case find_qbit name s of
           Some i \<Rightarrow> prepare i s
         | None \<Rightarrow>
             if length (vm_qbits s) \<ge> MAX_VM_QBITS then say (L_error ''qbit limit reached'' []) s
             else prepare (length (vm_qbits s))
                    (s\<lparr>vm_qbits := vm_qbits s @ [\<lparr>qb_name = name, qb_a = 0, qb_b = 0, qb_measured = False,
                         qb_result = 0, qb_entangled_with = []\<rparr>]\<rparr>))"

definition print_qbit :: "VMQbit \<Rightarrow> vm_line" where
  "print_qbit q = (if qb_measured q then L_basis (qb_result q) else L_amplitudes (qb_a q) (qb_b q))"

definition hadamard :: "(real \<Rightarrow> real) \<Rightarrow> VMQbit \<Rightarrow> VMQbit" where
  "hadamard rnd q =
     q\<lparr>qb_a := rnd (rnd (qb_a q + qb_b q) / rnd (sqrt 2)), qb_b := rnd (rnd (qb_a q - qb_b q) / rnd (sqrt 2)),
       qb_measured := False, qb_result := - 1\<rparr>"

text \<open>The state a qubit is left in by a measurement with result \<open>r\<close>.\<close>

definition collapse :: "int \<Rightarrow> VMQbit \<Rightarrow> VMQbit" where
  "collapse r q =
     q\<lparr>qb_result := r, qb_measured := True, qb_a := (if r = 0 then 1 else 0), qb_b := (if r = 0 then 0 else 1)\<rparr>"

definition measure_qbit :: "(real \<Rightarrow> real) \<Rightarrow> int \<Rightarrow> VMQbit \<Rightarrow> VMQbit" where
  "measure_qbit rnd random q =
     (let prob0 = rnd (qb_a q * qb_a q); r = rnd (of_int random / of_int RAND_MAX)
      in collapse (if r > prob0 then 1 else 0) q)"

definition cnot_qbits :: "string \<Rightarrow> string \<Rightarrow> vm \<Rightarrow> vm" where
  "cnot_qbits control_name target_name s =
     (case (find_qbit control_name s, find_qbit target_name s) of
        (Some c, Some t) \<Rightarrow>
          let s = upd_qbit c (\<lambda>q. q\<lparr>qb_entangled_with := target_name\<rparr>) s;
              s = upd_qbit t (\<lambda>q. q\<lparr>qb_entangled_with := control_name\<rparr>) s;
              control = vm_qbits s ! c;
              s = upd_qbit t (\<lambda>q. q\<lparr>qb_a := qb_a control, qb_b := qb_b control, qb_measured := False,
                                    qb_result := 0\<rparr>) s
          in say (L_cnot control_name target_name) s
      | _ \<Rightarrow> say (L_error ''cannot CNOT missing qbit'' [control_name, target_name]) s)"

definition entangle_qbits :: "string \<Rightarrow> string \<Rightarrow> vm \<Rightarrow> vm" where
  "entangle_qbits left_name right_name s =
     (case (find_qbit left_name s, find_qbit right_name s) of
        (Some l, Some r) \<Rightarrow>
          let s = upd_qbit l (\<lambda>q. q\<lparr>qb_entangled_with := right_name\<rparr>) s;
              s = upd_qbit r (\<lambda>q. q\<lparr>qb_entangled_with := left_name\<rparr>) s;
              left = vm_qbits s ! l;
              s = upd_qbit r (\<lambda>q. q\<lparr>qb_a := qb_a left, qb_b := qb_b left, qb_measured := False,
                                    qb_result := 0\<rparr>) s
          in say (L_entangled left_name right_name) s
      | _ \<Rightarrow> say (L_error ''cannot entangle missing qbit'' [left_name, right_name]) s)"

definition measure_linked :: "(real \<Rightarrow> real) \<Rightarrow> (nat \<Rightarrow> int) \<Rightarrow> nat \<Rightarrow> vm \<Rightarrow> vm" where
  "measure_linked rnd rand i s =
     (let s = upd_qbit i (measure_qbit rnd (rand (vm_draws s))) (s\<lparr>vm_draws := vm_draws s + 1\<rparr>);
          q = vm_qbits s ! i
      in if qb_entangled_with q = [] then s
         else case find_qbit (qb_entangled_with q) s of
             None \<Rightarrow> s
           | Some p \<Rightarrow>
               let s = upd_qbit p (collapse (qb_result q)) s
               in say (L_collapse (qb_name q) (qb_name (vm_qbits s ! p)) (qb_result q)) s)"

section \<open>Messages\<close>

definition qmsg_set :: "string \<Rightarrow> vm \<Rightarrow> vm" where
  "qmsg_set message s =
     (if message = [] then say (L_error ''empty message'' []) s
      else let text = take (QMSG_MAX_CHARS - 1) message
           in say (L_loaded text)
                (s\<lparr>qmsg_text := text, qmsg_bits := [], qmsg_loaded := True, qmsg_encoded := False,
                   qmsg_measured := False\<rparr>))"

definition char_bits :: "char \<Rightarrow> string" where
  "char_bits c = map (\<lambda>b. if bit (code_of c) b then CHR ''1'' else CHR ''0'') (rev [0..<8])"

text \<open>The loop over the text stops when less than nine places are left.\<close>

fun encode_loop :: "string \<Rightarrow> string \<Rightarrow> string" where
  "encode_loop bits [] = bits"
| "encode_loop bits (c # cs) =
     (if length bits < QMSG_MAX_BITS - 9 then encode_loop (bits @ char_bits c) cs else bits)"

definition qmsg_encode :: "vm \<Rightarrow> vm" where
  "qmsg_encode s =
     (if \<not> qmsg_loaded s then say (L_error ''no qmsg loaded'' []) s
      else let bits = encode_loop [] (qmsg_text s)
           in say (L_bits bits (length bits)) (s\<lparr>qmsg_bits := bits, qmsg_encoded := True, qmsg_measured := False\<rparr>))"

definition qmsg_measure :: "vm \<Rightarrow> vm" where
  "qmsg_measure s =
     (if \<not> qmsg_encoded s then say (L_error ''qmsg must be encoded before measure'' []) s
      else say (L_packet_measured (length (qmsg_bits s))) (s\<lparr>qmsg_measured := True\<rparr>))"

definition qmsg_print_register :: "vm \<Rightarrow> vm" where
  "qmsg_print_register s =
     (if \<not> qmsg_encoded s then say (L_error ''qmsg must be encoded before register view'' []) s
      else say (L_register (qmsg_bits s)) s)"

definition qmsg_decode :: "vm \<Rightarrow> vm" where
  "qmsg_decode s =
     (if \<not> qmsg_encoded s then say (L_error ''qmsg must be encoded before decode'' []) s
      else say (L_decoded (qmsg_text s))
             (if \<not> qmsg_measured s then say (L_warning ''decoding before measure'') s else s))"

definition vm_say :: "string \<Rightarrow> vm \<Rightarrow> vm" where
  "vm_say val s =
     (if val = ''qmsg'' then qmsg_print_register s
      else case find_qbit val s of
          Some i \<Rightarrow> say (print_qbit (vm_qbits s ! i)) s
        | None \<Rightarrow>
            (case find_var val s of
               Some i \<Rightarrow> say (L_number (var_value (vm_vars s ! i))) s
             | None \<Rightarrow> say (L_text val) s))"

definition run_safe_action :: "string \<Rightarrow> vm \<Rightarrow> vm" where
  "run_safe_action action s =
     (case adapter_dispatch_safe action of
        (result, line) \<Rightarrow>
          let s = say (L_adapter line) s
          in if result = ADAPTER_OK then say (L_dispatched action) s else s)"

section \<open>Instructions\<close>

text \<open>The instructions that only change the state and go on with the next one.\<close>

fun vm_simple :: "(real \<Rightarrow> real) \<Rightarrow> (nat \<Rightarrow> int) \<Rightarrow> ins \<Rightarrow> vm \<Rightarrow> tool_error + vm" where
  "vm_simple rnd rand (OP_SAY, arg1, arg2, v) s = Inr (vm_say arg1 s)"
| "vm_simple rnd rand (OP_LET, arg1, arg2, v) s = Inr (set_var arg1 (atof rnd arg2) s)"
| "vm_simple rnd rand (OP_QBIT, arg1, arg2, v) s = Inr (create_qbit rnd arg1 arg2 s)"
| "vm_simple rnd rand (OP_HADAMARD, arg1, arg2, v) s =
     Inr (case find_qbit arg1 s of
            Some i \<Rightarrow> upd_qbit i (hadamard rnd) s | None \<Rightarrow> say (L_error ''qbit not found'' [arg1]) s)"
| "vm_simple rnd rand (OP_CNOT, arg1, arg2, v) s = Inr (cnot_qbits arg1 arg2 s)"
| "vm_simple rnd rand (OP_ENTANGLE, arg1, arg2, v) s = Inr (entangle_qbits arg1 arg2 s)"
| "vm_simple rnd rand (OP_MEASURE, arg1, arg2, v) s =
     Inr (if arg1 = ''qmsg'' then qmsg_measure s
          else case find_qbit arg1 s of
              Some i \<Rightarrow> measure_linked rnd rand i s | None \<Rightarrow> say (L_error ''qbit not found'' [arg1]) s)"
| "vm_simple rnd rand (OP_QMSG, arg1, arg2, v) s = Inr (qmsg_set arg1 s)"
| "vm_simple rnd rand (OP_ENCODE_QMSG, arg1, arg2, v) s =
     Inr (if arg1 = ''qmsg'' then qmsg_encode s else say (L_error ''unknown encode target'' [arg1]) s)"
| "vm_simple rnd rand (OP_DECODE_QMSG, arg1, arg2, v) s =
     Inr (if arg1 = ''qmsg'' then qmsg_decode s else say (L_error ''unknown decode target'' [arg1]) s)"
| "vm_simple rnd rand (OP_SAFE_ACTION, arg1, arg2, v) s = Inr (run_safe_action arg1 s)"
| "vm_simple rnd rand (_, arg1, arg2, v) s = Inr s"

text \<open>The condition of a check: whether it passes, and the state with its messages.\<close>

definition vm_check :: "string \<Rightarrow> string \<Rightarrow> int \<Rightarrow> vm \<Rightarrow> bool \<times> vm" where
  "vm_check name op val s =
     (case find_var name s of
        None \<Rightarrow> (False, say (L_error ''variable not found for check'' [name]) s)
      | Some i \<Rightarrow>
          let lhs = var_value (vm_vars s ! i); rhs = Finite (of_int val)
          in if op = ''>'' then (dbl_less rhs lhs, s)
             else if op = ''<'' then (dbl_less lhs rhs, s)
             else if op = ''=='' then (dbl_equal lhs rhs, s)
             else if op = ''>='' then (dbl_less_equal rhs lhs, s)
             else if op = ''<='' then (dbl_less_equal lhs rhs, s)
             else (False, say (L_error ''unknown check operator'' [op]) s))"

text \<open>The end that belongs to an opening instruction: its distance in the code that follows.\<close>

fun find_end :: "nat \<Rightarrow> ins list \<Rightarrow> nat option" where
  "find_end depth [] = None"
| "find_end depth ((op, _) # is) =
     (if op = OP_END then if depth = 0 then Some 0 else map_option Suc (find_end (depth - 1) is)
      else map_option Suc (find_end (if op = OP_CHECK \<or> op = OP_REPEAT then depth + 1 else depth) is))"

text \<open>One round of the loop: the next program counter and repeat stack, or the return.\<close>

datatype vm_next = Go nat "(nat \<times> nat \<times> int) list" vm | Halt vm

definition vm_step ::
  "(real \<Rightarrow> real) \<Rightarrow> (nat \<Rightarrow> int) \<Rightarrow> ins list \<Rightarrow> nat \<Rightarrow> (nat \<times> nat \<times> int) list \<Rightarrow> vm \<Rightarrow> tool_error + vm_next" where
  "vm_step rnd rand prog pc stack s =
     (case prog ! pc of
        (op, arg1, arg2, val) \<Rightarrow>
          (case op of
             OP_CHECK \<Rightarrow>
               (case vm_check arg1 arg2 val s of
                  (pass, s) \<Rightarrow>
                    Inr (if pass then Go (pc + 1) stack s
                         else case find_end 0 (drop (pc + 1) prog) of
                             Some k \<Rightarrow> Go (pc + 1 + k + 1) stack s
                           | None \<Rightarrow> Go (length prog) stack s))
           | OP_REPEAT \<Rightarrow>
               Inr (case find_end 0 (drop (pc + 1) prog) of
                      None \<Rightarrow> Halt (say (L_error ''repeat block missing END'' []) s)
                    | Some k \<Rightarrow>
                        if val \<le> 0 then Go (pc + 1 + k + 1) stack s
                        else if length stack \<ge> REPEAT_STACK then Halt (say (L_error ''repeat stack overflow'' []) s)
                        else Go (pc + 1) ((pc, pc + 1 + k, val) # stack) s)
           | OP_END \<Rightarrow>
               Inr (case stack of
                      (start, stop, left) # rest \<Rightarrow>
                        if pc = stop then if left - 1 > 0 then Go (start + 1) ((start, stop, left - 1) # rest) s
                                          else Go (pc + 1) rest s
                        else Go (pc + 1) stack s
                    | [] \<Rightarrow> Go (pc + 1) stack s)
           | OP_OTHER _ \<Rightarrow> Inr (Halt (say (L_error ''unknown opcode'' []) s))
           | _ \<Rightarrow> ebind (vm_simple rnd rand (op, arg1, arg2, val) s) (\<lambda>s. Inr (Go (pc + 1) stack s))))"

fun vm_loop ::
  "(real \<Rightarrow> real) \<Rightarrow> (nat \<Rightarrow> int) \<Rightarrow> nat \<Rightarrow> ins list \<Rightarrow> nat \<Rightarrow> (nat \<times> nat \<times> int) list \<Rightarrow> vm \<Rightarrow> tool_error + vm" where
  "vm_loop rnd rand fuel prog pc stack s =
     (if pc \<ge> length prog then Inr s
      else case fuel of
          0 \<Rightarrow> Inl Out_of_fuel
        | Suc fuel \<Rightarrow>
            ebind (vm_step rnd rand prog pc stack s) (\<lambda>nx.
              case nx of Halt s \<Rightarrow> Inr s | Go pc stack s \<Rightarrow> vm_loop rnd rand fuel prog pc stack s))"

declare vm_loop.simps [simp del]

definition run_bytecode ::
  "(real \<Rightarrow> real) \<Rightarrow> (nat \<Rightarrow> int) \<Rightarrow> nat \<Rightarrow> ins list \<Rightarrow> vm \<Rightarrow> tool_error + vm" where
  "run_bytecode rnd rand fuel prog s = vm_loop rnd rand fuel prog 0 [] s"

section \<open>What a program means\<close>

fun iter :: "nat \<Rightarrow> ('a \<Rightarrow> 'e + 'a) \<Rightarrow> 'a \<Rightarrow> 'e + 'a" where
  "iter 0 f x = Inr x"
| "iter (Suc n) f x = ebind (f x) (iter n f)"

fun exec :: "(real \<Rightarrow> real) \<Rightarrow> (nat \<Rightarrow> int) \<Rightarrow> stmt \<Rightarrow> vm \<Rightarrow> tool_error + vm"
and exec_list :: "(real \<Rightarrow> real) \<Rightarrow> (nat \<Rightarrow> int) \<Rightarrow> stmt list \<Rightarrow> vm \<Rightarrow> tool_error + vm" where
  "exec rnd rand (Check x ty op v ss) s =
     (case vm_check x op (number_of v) s of (pass, s) \<Rightarrow> if pass then exec_list rnd rand ss s else Inr s)"
| "exec rnd rand (Repeat v ss) s = iter (nat (number_of v)) (\<lambda>s. exec_list rnd rand ss s) s"
| "exec rnd rand st s = vm_simple rnd rand (hd (gen st)) s"
| "exec_list rnd rand [] s = Inr s"
| "exec_list rnd rand (x # xs) s = ebind (exec rnd rand x s) (\<lambda>s. exec_list rnd rand xs s)"

fun repeat_depth :: "stmt \<Rightarrow> nat" where
  "repeat_depth (Check x ty op v ss) = Max (set (0 # map repeat_depth ss))"
| "repeat_depth (Repeat v ss) = Suc (Max (set (0 # map repeat_depth ss)))"
| "repeat_depth _ = 0"

definition depth_of :: "stmt list \<Rightarrow> nat" where
  "depth_of ss = Max (set (0 # map repeat_depth ss))"

end
