(* ===== verification/Byte_VM_Correct.thy ===== *)
theory Byte_VM_Correct
  imports Byte_VM
begin

text \<open>
  Correctness of compiling to bytecode and running it: the virtual machine does on the code of a
  program what \<open>exec_list\<close> says the program means.
\<close>

section \<open>Pieces of a run\<close>

definition runs_to ::
  "(real \<Rightarrow> real) \<Rightarrow> (nat \<Rightarrow> int) \<Rightarrow> ins list \<Rightarrow> nat \<Rightarrow> (nat \<times> nat \<times> int) list \<Rightarrow> vm \<Rightarrow>
     nat \<Rightarrow> (nat \<times> nat \<times> int) list \<Rightarrow> tool_error + vm \<Rightarrow> bool" where
  "runs_to rnd rand prog pc stk s pc' stk' r \<longleftrightarrow>
     (\<exists>n. \<forall>f. vm_loop rnd rand (n + f) prog pc stk s = ebind r (\<lambda>s'. vm_loop rnd rand f prog pc' stk' s'))"

lemma runs_refl: "runs_to rnd rand prog pc stk s pc stk (Inr s)"
  unfolding runs_to_def by (rule exI [of _ 0]) simp

lemma vm_loop_step:
  assumes "pc < length prog"
  shows "vm_loop rnd rand (Suc f) prog pc stk s =
     ebind (vm_step rnd rand prog pc stk s) (\<lambda>nx.
       case nx of Halt s \<Rightarrow> Inr s | Go pc stk s \<Rightarrow> vm_loop rnd rand f prog pc stk s)"
  using assms by (subst vm_loop.simps) simp

lemma runs_Go:
  assumes "pc < length prog" and "vm_step rnd rand prog pc stk s = Inr (Go pc1 stk1 s1)"
    and "runs_to rnd rand prog pc1 stk1 s1 pc' stk' r"
  shows "runs_to rnd rand prog pc stk s pc' stk' r"
proof -
  obtain n where "\<And>f. vm_loop rnd rand (n + f) prog pc1 stk1 s1 = ebind r (\<lambda>s'. vm_loop rnd rand f prog pc' stk' s')"
    using assms(3) by (auto simp: runs_to_def)
  then show ?thesis
    unfolding runs_to_def using assms(1,2) by (intro exI [of _ "Suc n"]) (simp add: vm_loop_step)
qed

lemma runs_Inl:
  assumes "pc < length prog" and "vm_step rnd rand prog pc stk s = Inl e"
  shows "runs_to rnd rand prog pc stk s pc' stk' (Inl e)"
  unfolding runs_to_def using assms by (intro exI [of _ "Suc 0"]) (simp add: vm_loop_step)

lemma runs_bind:
  assumes "runs_to rnd rand prog pc stk s pc1 stk1 r"
    and "\<And>s1. r = Inr s1 \<Longrightarrow> runs_to rnd rand prog pc1 stk1 s1 pc2 stk2 (k s1)"
  shows "runs_to rnd rand prog pc stk s pc2 stk2 (ebind r k)"
proof -
  obtain n where n: "\<And>f. vm_loop rnd rand (n + f) prog pc stk s = ebind r (\<lambda>s'. vm_loop rnd rand f prog pc1 stk1 s')"
    using assms(1) by (auto simp: runs_to_def)
  show ?thesis
  proof (cases r)
    case (Inl e)
    then show ?thesis unfolding runs_to_def using n by auto
  next
    case (Inr s1)
    obtain m where "\<And>f. vm_loop rnd rand (m + f) prog pc1 stk1 s1 = ebind (k s1) (\<lambda>s'. vm_loop rnd rand f prog pc2 stk2 s')"
      using assms(2) [OF Inr] by (auto simp: runs_to_def)
    then show ?thesis
      unfolding runs_to_def using n Inr by (intro exI [of _ "n + m"]) (simp add: add.assoc)
  qed
qed

section \<open>Matching ends\<close>

lemma find_end_gen: "find_end d (gen s @ rest) = map_option (\<lambda>k. k + length (gen s)) (find_end d rest)"
  and find_end_gens: "find_end d (concat (map gen ss) @ rest) = map_option (\<lambda>k. k + length (concat (map gen ss))) (find_end d rest)"
proof -
  have list: "find_end d (concat (map gen ss) @ rest) = map_option (\<lambda>k. k + length (concat (map gen ss))) (find_end d rest)"
    if "\<And>s d rest. s \<in> set ss \<Longrightarrow> find_end d (gen s @ rest) = map_option (\<lambda>k. k + length (gen s)) (find_end d rest)"
    for ss d rest
    using that
    by (induction ss arbitrary: d rest) (simp_all add: option.map_comp comp_def option.map_ident ac_simps)
  show st: "find_end d (gen s @ rest) = map_option (\<lambda>k. k + length (gen s)) (find_end d rest)" for s d rest
  proof (induction s arbitrary: d rest)
    case (Check x ty op v ss)
    then show ?case by (simp add: list [OF Check] option.map_comp comp_def)
  next
    case (Repeat v ss)
    then show ?case by (simp add: list [OF Repeat] option.map_comp comp_def)
  qed (simp_all add: option.map_comp comp_def)
  show "find_end d (concat (map gen ss) @ rest) = map_option (\<lambda>k. k + length (concat (map gen ss))) (find_end d rest)"
    by (rule list) (rule st)
qed

section \<open>Simulation\<close>

text \<open>The end of the innermost repeat block lies behind the code at hand.\<close>

definition outside :: "(nat \<times> nat \<times> int) list \<Rightarrow> nat \<Rightarrow> bool" where
  "outside stk e \<longleftrightarrow> (case stk of [] \<Rightarrow> True | (_, stop, _) # _ \<Rightarrow> e \<le> stop)"

lemma outside_mono: "outside stk e \<Longrightarrow> e' \<le> e \<Longrightarrow> outside stk e'"
  by (auto simp: outside_def split: list.split)

definition simulated :: "(real \<Rightarrow> real) \<Rightarrow> (nat \<Rightarrow> int) \<Rightarrow> stmt \<Rightarrow> bool" where
  "simulated rnd rand x \<longleftrightarrow> (\<forall>prog pc stk s post.
     drop pc prog = gen x @ post \<longrightarrow> outside stk (pc + length (gen x)) \<longrightarrow>
     length stk + repeat_depth x \<le> REPEAT_STACK \<longrightarrow>
     runs_to rnd rand prog pc stk s (pc + length (gen x)) stk (exec rnd rand x s))"

lemma simulatedD:
  "simulated rnd rand x \<Longrightarrow> drop pc prog = gen x @ post \<Longrightarrow> outside stk (pc + length (gen x)) \<Longrightarrow>
     length stk + repeat_depth x \<le> REPEAT_STACK \<Longrightarrow>
     runs_to rnd rand prog pc stk s (pc + length (gen x)) stk (exec rnd rand x s)"
  unfolding simulated_def by blast

lemma nth_of_drop: "drop pc prog = i # rest \<Longrightarrow> pc < length prog \<and> prog ! pc = i \<and> drop (Suc pc) prog = rest"
  by (metis Cons_nth_drop_Suc drop_all linorder_not_le list.distinct(1) list.inject)

lemma depth_of_Cons: "depth_of (x # xs) = max (repeat_depth x) (depth_of xs)"
proof -
  have "set (0 # map repeat_depth (x # xs)) = insert (repeat_depth x) (set (0 # map repeat_depth xs))" by auto
  then show ?thesis unfolding depth_of_def by (simp only: Max_insert finite_set) simp
qed

lemma repeat_depth_blocks:
  "repeat_depth (Check x ty op v ss) = depth_of ss" "repeat_depth (Repeat v ss) = Suc (depth_of ss)"
  by (simp_all add: depth_of_def)

lemma simulated_list:
  assumes "list_all (simulated rnd rand) ss" and "drop pc prog = concat (map gen ss) @ post"
    and "outside stk (pc + length (concat (map gen ss)))" and "length stk + depth_of ss \<le> REPEAT_STACK"
  shows "runs_to rnd rand prog pc stk s (pc + length (concat (map gen ss))) stk (exec_list rnd rand ss s)"
  using assms
proof (induction ss arbitrary: pc s)
  case Nil
  then show ?case by (simp add: runs_refl)
next
  case (Cons x xs)
  have d: "drop pc prog = gen x @ (concat (map gen xs) @ post)" using Cons.prems(2) by simp
  have 1: "runs_to rnd rand prog pc stk s (pc + length (gen x)) stk (exec rnd rand x s)"
    using Cons.prems by (intro simulatedD [OF _ d]) (auto simp: depth_of_Cons intro: outside_mono)
  have 2: "runs_to rnd rand prog (pc + length (gen x)) stk s1 (pc + length (gen x) + length (concat (map gen xs))) stk
      (exec_list rnd rand xs s1)" for s1
    using Cons.prems drop_more [OF d] by (intro Cons.IH) (auto simp: depth_of_Cons ac_simps)
  show ?case using runs_bind [OF 1 2] by (simp add: ac_simps)
qed

text \<open>Passing the end of a block that is not a repeat block.\<close>

lemma runs_end:
  assumes "drop pc prog = (OP_END, [], [], 0) # post" and "outside stk (Suc pc)"
  shows "runs_to rnd rand prog pc stk s (Suc pc) stk (Inr s)"
proof -
  have p: "pc < length prog" "prog ! pc = (OP_END, [], [], 0)" using nth_of_drop [OF assms(1)] by auto
  have "vm_step rnd rand prog pc stk s = Inr (Go (Suc pc) stk s)"
    using p assms(2) by (auto simp: vm_step_def outside_def split: list.split)
  from runs_Go [OF p(1) this runs_refl] show ?thesis .
qed

lemma simulated_simple:
  assumes "gen x = [(op, a, b, v)]" and "op \<notin> {OP_CHECK, OP_REPEAT, OP_END}" and "\<And>w. op \<noteq> OP_OTHER w"
    and "\<And>s. exec rnd rand x s = vm_simple rnd rand (op, a, b, v) s"
  shows "simulated rnd rand x"
  unfolding simulated_def
proof (intro allI impI)
  fix prog pc stk s post
  assume d: "drop pc prog = gen x @ post"
  have p: "pc < length prog" "prog ! pc = (op, a, b, v)" using nth_of_drop [of pc prog] d assms(1) by auto
  have st: "vm_step rnd rand prog pc stk s = ebind (vm_simple rnd rand (op, a, b, v) s) (\<lambda>s. Inr (Go (pc + 1) stk s))"
    using p(2) assms(2,3) by (cases op) (auto simp: vm_step_def)
  show "runs_to rnd rand prog pc stk s (pc + length (gen x)) stk (exec rnd rand x s)"
  proof (cases "vm_simple rnd rand (op, a, b, v) s")
    case (Inl e)
    then show ?thesis using runs_Inl [OF p(1)] st assms(4) by simp
  next
    case (Inr s')
    then show ?thesis
      using runs_Go [OF p(1), of rnd rand stk s "pc + 1" stk s'] runs_refl st assms(1,4) by simp
  qed
qed

lemma simulated_check:
  assumes "list_all (simulated rnd rand) ss"
  shows "simulated rnd rand (Check x ty op v ss)"
  unfolding simulated_def
proof (intro allI impI)
  fix prog pc stk s post
  let ?x = "Check x ty op v ss" let ?c = "concat (map gen ss)" let ?e = "pc + 1 + length ?c"
  assume d: "drop pc prog = gen ?x @ post" and out: "outside stk (pc + length (gen ?x))"
    and room: "length stk + repeat_depth ?x \<le> REPEAT_STACK"
  have d0: "drop pc prog = (OP_CHECK, x, op, number_of v) # ?c @ (OP_END, [], [], 0) # post" using d by simp
  have p: "pc < length prog" "prog ! pc = (OP_CHECK, x, op, number_of v)"
    and d1: "drop (pc + 1) prog = ?c @ (OP_END, [], [], 0) # post"
    using nth_of_drop [OF d0] by auto
  have dE: "drop ?e prog = (OP_END, [], [], 0) # post" by (rule drop_more [OF d1])
  obtain pass s1 where c: "vm_check x op (number_of v) s = (pass, s1)" by force
  show "runs_to rnd rand prog pc stk s (pc + length (gen ?x)) stk (exec rnd rand ?x s)"
  proof (cases pass)
    case True
    have "vm_step rnd rand prog pc stk s = Inr (Go (pc + 1) stk s1)" using p(2) c True by (simp add: vm_step_def)
    moreover have 1: "runs_to rnd rand prog (pc + 1) stk s1 ?e stk (exec_list rnd rand ss s1)"
      using room out
      by (intro simulated_list [OF assms d1]) (auto simp: repeat_depth_blocks simp del: repeat_depth.simps intro: outside_mono)
    have 2: "runs_to rnd rand prog ?e stk s2 (Suc ?e) stk (Inr s2)" for s2
      using out by (intro runs_end [OF dE]) simp
    note runs_bind [OF 1 2]
    moreover have "ebind r Inr = r" for r :: "tool_error + vm" by (cases r) auto
    ultimately show ?thesis using runs_Go [OF p(1)] c True by simp
  next
    case False
    have "find_end 0 (drop (Suc pc) prog) = Some (length ?c)"
      using d1 find_end_gens [of 0 ss "(OP_END, [], [], 0) # post"] by simp
    then have "vm_step rnd rand prog pc stk s = Inr (Go (Suc ?e) stk s1)"
      using p(2) c False by (simp add: vm_step_def)
    from runs_Go [OF p(1) this runs_refl] show ?thesis using c False by simp
  qed
qed

lemma iter_0: "iter 0 f = Inr"
  by (simp add: fun_eq_iff)

lemma iter_Suc_fun: "iter (Suc n) f = (\<lambda>x. ebind (f x) (iter n f))"
  by (simp add: fun_eq_iff)

lemma simulated_repeat:
  assumes "list_all (simulated rnd rand) ss"
  shows "simulated rnd rand (Repeat v ss)"
  unfolding simulated_def
proof (intro allI impI)
  fix prog pc stk s post
  let ?x = "Repeat v ss" let ?c = "concat (map gen ss)" let ?e = "pc + 1 + length ?c"
  let ?body = "\<lambda>s. exec_list rnd rand ss s"
  assume d: "drop pc prog = gen ?x @ post" and out: "outside stk (pc + length (gen ?x))"
    and room: "length stk + repeat_depth ?x \<le> REPEAT_STACK"
  have d0: "drop pc prog = (OP_REPEAT, [], [], number_of v) # ?c @ (OP_END, [], [], 0) # post" using d by simp
  have p: "pc < length prog" "prog ! pc = (OP_REPEAT, [], [], number_of v)"
    and d1: "drop (pc + 1) prog = ?c @ (OP_END, [], [], 0) # post"
    using nth_of_drop [OF d0] by auto
  have dE: "drop ?e prog = (OP_END, [], [], 0) # post" by (rule drop_more [OF d1])
  have pE: "?e < length prog" "prog ! ?e = (OP_END, [], [], 0)" using nth_of_drop [OF dE] by auto
  have fe: "find_end 0 (drop (Suc pc) prog) = Some (length ?c)"
    using d1 find_end_gens [of 0 ss "(OP_END, [], [], 0) # post"] by simp
  have loop: "runs_to rnd rand prog (pc + 1) ((pc, ?e, int k + 1) # stk) s (Suc ?e) stk (iter (Suc k) ?body s)" for k s
  proof (induction k arbitrary: s)
    case 0
    have 1: "runs_to rnd rand prog (pc + 1) ((pc, ?e, 1) # stk) s ?e ((pc, ?e, 1) # stk) (?body s)"
      using room by (intro simulated_list [OF assms d1]) (auto simp: outside_def repeat_depth_blocks simp del: repeat_depth.simps)
    have "vm_step rnd rand prog ?e ((pc, ?e, 1) # stk) s1 = Inr (Go (Suc ?e) stk s1)" for s1
      using pE(2) by (simp add: vm_step_def)
    from runs_Go [OF pE(1) this runs_refl] runs_bind [OF 1]
    have "runs_to rnd rand prog (pc + 1) ((pc, ?e, 1) # stk) s (Suc ?e) stk (ebind (?body s) Inr)" by blast
    then show ?case by (simp add: iter_0)
  next
    case (Suc k)
    have 1: "runs_to rnd rand prog (pc + 1) ((pc, ?e, int (Suc k) + 1) # stk) s ?e ((pc, ?e, int (Suc k) + 1) # stk) (?body s)"
      using room by (intro simulated_list [OF assms d1]) (auto simp: outside_def repeat_depth_blocks simp del: repeat_depth.simps)
    have "vm_step rnd rand prog ?e ((pc, ?e, int (Suc k) + 1) # stk) s1 = Inr (Go (pc + 1) ((pc, ?e, int k + 1) # stk) s1)" for s1
      using pE(2) by (simp add: vm_step_def)
    from runs_bind [OF 1 runs_Go [OF pE(1) this Suc.IH]]
    show ?case by (simp add: iter_Suc_fun [of "Suc k"] del: iter.simps(2))
  qed
  show "runs_to rnd rand prog pc stk s (pc + length (gen ?x)) stk (exec rnd rand ?x s)"
  proof (cases "number_of v \<le> 0")
    case True
    then have "vm_step rnd rand prog pc stk s = Inr (Go (Suc ?e) stk s)" using p(2) fe by (simp add: vm_step_def)
    from runs_Go [OF p(1) this runs_refl] show ?thesis using True by simp
  next
    case False
    define k where "k = nat (number_of v) - 1"
    have k: "number_of v = int k + 1" "nat (number_of v) = Suc k" using False by (simp_all add: k_def)
    have "vm_step rnd rand prog pc stk s = Inr (Go (pc + 1) ((pc, ?e, int k + 1) # stk) s)"
      using p(2) fe k room by (simp add: vm_step_def repeat_depth_blocks del: repeat_depth.simps)
    from runs_Go [OF p(1) this loop] show ?thesis using k(2) by simp
  qed
qed

lemma simulated_stmt: "simulated rnd rand x"
proof (induction x)
  case (Check x ty op v ss)
  then show ?case by (intro simulated_check) (simp add: list_all_iff)
next
  case (Repeat v ss)
  then show ?case by (intro simulated_repeat) (simp add: list_all_iff)
qed (rule simulated_simple, simp, simp, simp, simp)+


lemma run_program:
  assumes "depth_of p \<le> REPEAT_STACK"
  shows "\<exists>n. \<forall>fuel \<ge> n. run_bytecode rnd rand fuel (concat (map gen p)) s = exec_list rnd rand p s"
proof -
  let ?c = "concat (map gen p)"
  have "runs_to rnd rand ?c 0 [] s (0 + length ?c) [] (exec_list rnd rand p s)"
    using assms by (intro simulated_list [where post = "[]"]) (auto simp: list_all_iff simulated_stmt outside_def)
  then obtain n where n: "\<And>f. vm_loop rnd rand (n + f) ?c 0 [] s =
      ebind (exec_list rnd rand p s) (\<lambda>s'. vm_loop rnd rand f ?c (length ?c) [] s')"
    by (auto simp: runs_to_def)
  have "vm_loop rnd rand f ?c (length ?c) [] s' = Inr s'" for f s' by (simp add: vm_loop.simps)
  moreover have "ebind r Inr = r" for r :: "tool_error + vm" by (cases r) auto
  ultimately have "vm_loop rnd rand (n + f) ?c 0 [] s = exec_list rnd rand p s" for f using n by simp
  then have "vm_loop rnd rand fuel ?c 0 [] s = exec_list rnd rand p s" if "n \<le> fuel" for fuel
    using that by (metis le_add_diff_inverse)
  then show ?thesis unfolding run_bytecode_def by blast
qed

text \<open>
  C10: the virtual machine ends on the code of every program whose repeat blocks are nested at most 64
  deep, and does what the program says: statements in order, a block of a check exactly when its
  condition holds, a repeat block as often as its count says and not at all for a count of zero or
  less.  From some number of rounds on, more rounds change nothing.
\<close>

theorem vm_runs_program:
  assumes "depth_of p \<le> 64"
  shows "\<exists>n. \<forall>fuel \<ge> n. run_bytecode rnd rand fuel (concat (map gen p)) s = exec_list rnd rand p s"
  using run_program [of p] assms by (simp add: REPEAT_STACK_def)

theorem vm_runs_program_witness:
  "\<exists>n. \<forall>fuel \<ge> n. run_bytecode id (\<lambda>_. 0) fuel
     [(OP_REPEAT, [], [], 3), (OP_SAFE_ACTION, ''led_on'', [], 0), (OP_END, [], [], 0)] vm_init =
     Inr (vm_init\<lparr>vm_out := concat (replicate 3 [L_adapter (Allowed ''LED_ON''), L_dispatched ''led_on''])\<rparr>)"
proof -
  have "number_of ''3'' = 3" by (simp add: number_of_def atoi_def digits_value_def char_class_defs)
  then show ?thesis
    using vm_runs_program [of "[Repeat ''3'' [Action ''led_on'']]" id "\<lambda>_. 0" vm_init]
    by (simp add: depth_of_def numeral_3_eq_3 run_safe_action_def adapter_dispatch_safe_def say_def vm_init_def)
qed

section \<open>What no bytecode can do\<close>

text \<open>A property of states that every instruction keeps is kept by every run.\<close>

locale vm_invariant =
  fixes rnd :: "real \<Rightarrow> real" and rand :: "nat \<Rightarrow> int" and I :: "vm \<Rightarrow> bool"
  assumes simple_keeps: "I s \<Longrightarrow> vm_simple rnd rand i s = Inr s' \<Longrightarrow> I s'"
    and error_keeps: "I s \<Longrightarrow> I (say (L_error e names) s)"
begin

lemma check_keeps: "I s \<Longrightarrow> vm_check name op val s = (pass, s') \<Longrightarrow> I s'"
  by (auto simp: vm_check_def Let_def split: option.split_asm if_split_asm intro: error_keeps)

lemma step_keeps:
  assumes "I s" and "vm_step rnd rand prog pc stk s = Inr nx"
  shows "case nx of Go _ _ s' \<Rightarrow> I s' | Halt s' \<Rightarrow> I s'"
proof -
  obtain op a b v where i: "prog ! pc = (op, a, b, v)" by (cases "prog ! pc")
  show ?thesis
  proof (cases op)
    case OP_CHECK
    then show ?thesis
      using assms i by (auto simp: vm_step_def split: prod.split_asm if_split_asm option.split_asm dest: check_keeps)
  next
    case OP_REPEAT
    then show ?thesis
      using assms i by (auto simp: vm_step_def split: if_split_asm option.split_asm intro: error_keeps)
  next
    case OP_END
    then show ?thesis using assms i by (auto simp: vm_step_def split: if_split_asm list.split_asm)
  qed (use assms i in \<open>auto simp: vm_step_def intro: error_keeps simple_keeps simp del: vm_simple.simps\<close>)
qed

lemma loop_keeps: "I s \<Longrightarrow> vm_loop rnd rand fuel prog pc stk s = Inr s' \<Longrightarrow> I s'"
proof (induction fuel arbitrary: pc stk s)
  case 0
  then show ?case by (subst (asm) vm_loop.simps) (simp split: if_split_asm)
next
  case (Suc fuel)
  show ?case
  proof (cases "pc < length prog")
    case True
    then obtain nx where nx: "vm_step rnd rand prog pc stk s = Inr nx"
        "(case nx of Halt s \<Rightarrow> Inr s | Go pc stk s \<Rightarrow> vm_loop rnd rand fuel prog pc stk s) = Inr s'"
      using Suc.prems(2) by (auto simp: vm_loop_step)
    show ?thesis using step_keeps [OF Suc.prems(1) nx(1)] nx(2) Suc.IH by (cases nx) auto
  next
    case False
    then show ?thesis using Suc.prems by (subst (asm) vm_loop.simps) simp
  qed
qed

lemma run_keeps: "I s \<Longrightarrow> run_bytecode rnd rand fuel prog s = Inr s' \<Longrightarrow> I s'"
  unfolding run_bytecode_def by (rule loop_keeps)

end

text \<open>The tables stay within their bounds, names are unique, measured qubits are basis states, the message fits.\<close>

definition vm_wf :: "vm \<Rightarrow> bool" where
  "vm_wf s \<longleftrightarrow>
     length (vm_vars s) \<le> MAX_VM_VARS \<and> distinct (map var_name (vm_vars s)) \<and>
     length (vm_qbits s) \<le> MAX_VM_QBITS \<and> distinct (map qb_name (vm_qbits s)) \<and>
     (\<forall>q \<in> set (vm_qbits s). qb_measured q \<longrightarrow>
        qb_result q = 0 \<and> qb_a q = 1 \<and> qb_b q = 0 \<or> qb_result q = 1 \<and> qb_a q = 0 \<and> qb_b q = 1) \<and>
     length (qmsg_text s) < QMSG_MAX_CHARS \<and> (qmsg_measured s \<longrightarrow> qmsg_encoded s) \<and>
     (qmsg_encoded s \<longrightarrow> qmsg_loaded s \<and> qmsg_bits s = concat (map char_bits (qmsg_text s)))"

lemma say_fields [simp]:
  "vm_vars (say l s) = vm_vars s" "vm_qbits (say l s) = vm_qbits s" "qmsg_text (say l s) = qmsg_text s"
  "qmsg_bits (say l s) = qmsg_bits s" "qmsg_loaded (say l s) = qmsg_loaded s"
  "qmsg_encoded (say l s) = qmsg_encoded s" "qmsg_measured (say l s) = qmsg_measured s"
  "vm_draws (say l s) = vm_draws s" "vm_out (say l s) = vm_out s @ [l]"
  by (simp_all add: say_def)

lemma vm_wf_say [simp]: "vm_wf (say l s) = vm_wf s"
  by (simp add: vm_wf_def)

lemma position_Some: "position P xs = Some i \<Longrightarrow> i < length xs \<and> P (xs ! i)"
  by (induction xs arbitrary: i) (auto split: if_split_asm)

lemma position_None: "position P xs = None \<longleftrightarrow> (\<forall>x \<in> set xs. \<not> P x)"
  by (induction xs) auto

definition basis_if_measured :: "VMQbit \<Rightarrow> bool" where
  "basis_if_measured q \<longleftrightarrow> (qb_measured q \<longrightarrow>
     qb_result q = 0 \<and> qb_a q = 1 \<and> qb_b q = 0 \<or> qb_result q = 1 \<and> qb_a q = 0 \<and> qb_b q = 1)"

lemma map_update_same: "i < length xs \<Longrightarrow> g y = g (xs ! i) \<Longrightarrow> map g (xs[i := y]) = map g xs"
  by (metis list_update_id map_update nth_map)

lemma vm_wf_upd_qbit:
  assumes "vm_wf s" and "i < length (vm_qbits s)" and "qb_name (f (vm_qbits s ! i)) = qb_name (vm_qbits s ! i)"
    and "basis_if_measured (f (vm_qbits s ! i))"
  shows "vm_wf (upd_qbit i f s)"
  using assms map_update_same [of i "vm_qbits s" qb_name]
  by (auto simp: vm_wf_def upd_qbit_def basis_if_measured_def dest!: subsetD [OF set_update_subset_insert])

lemma find_qbit_index: "find_qbit name s = Some i \<Longrightarrow> i < length (vm_qbits s) \<and> qb_name (vm_qbits s ! i) = name"
  by (auto simp: find_qbit_def dest: position_Some)

lemma vm_wf_qbit: "vm_wf s \<Longrightarrow> i < length (vm_qbits s) \<Longrightarrow> basis_if_measured (vm_qbits s ! i)"
  by (auto simp: vm_wf_def basis_if_measured_def)

lemma upd_qbit_fields [simp]: "length (vm_qbits (upd_qbit i f s)) = length (vm_qbits s)"
  "vm_draws (upd_qbit i f s) = vm_draws s" "vm_out (upd_qbit i f s) = vm_out s"
  by (simp_all add: upd_qbit_def)

lemma vm_wf_draws [simp]: "vm_wf (s\<lparr>vm_draws := k\<rparr>) = vm_wf s"
  by (simp add: vm_wf_def)

lemma set_var_wf: "vm_wf s \<Longrightarrow> vm_wf (set_var name x s)"
  using map_update_same [of _ "vm_vars s" var_name]
  by (auto simp: set_var_def vm_wf_def find_var_def position_None split: option.split dest!: position_Some)

lemma create_qbit_wf:
  assumes "vm_wf s"
  shows "vm_wf (create_qbit rnd name state s)"
proof -
  define prepare where "prepare i s = (case state_amplitudes rnd state of
      Some (a, b) \<Rightarrow> upd_qbit i (\<lambda>q. q\<lparr>qb_a := a, qb_b := b, qb_measured := False, qb_result := - 1\<rparr>) s
    | None \<Rightarrow> upd_qbit i (\<lambda>q. q\<lparr>qb_a := 1, qb_b := 0, qb_measured := False, qb_result := - 1\<rparr>)
        (say (L_error ''unknown qbit state'' [state]) s))" for i s
  have prep: "vm_wf (prepare i s)" if "vm_wf s" "i < length (vm_qbits s)" for i s
    using that by (auto simp: prepare_def basis_if_measured_def split: option.split intro!: vm_wf_upd_qbit)
  have new: "vm_wf (s\<lparr>vm_qbits := vm_qbits s @ [\<lparr>qb_name = name, qb_a = 0, qb_b = 0, qb_measured = False,
      qb_result = 0, qb_entangled_with = []\<rparr>]\<rparr>)" if "find_qbit name s = None" "length (vm_qbits s) < MAX_VM_QBITS"
    using that assms by (auto simp: vm_wf_def find_qbit_def position_None)
  show ?thesis
    unfolding create_qbit_def Let_def prepare_def [symmetric]
    using assms prep new by (auto split: option.split dest!: find_qbit_index)
qed

lemma collapse_basis: "basis_if_measured (collapse r q) \<longleftrightarrow> r = 0 \<or> r = 1"
  by (auto simp: basis_if_measured_def collapse_def)

lemma encode_loop_all:
  "length bits + 8 * length cs \<le> 8 * 127 \<Longrightarrow> encode_loop bits cs = bits @ concat (map char_bits cs)"
proof (induction cs arbitrary: bits)
  case (Cons c cs)
  then show ?case by (simp add: QMSG_MAX_BITS_def QMSG_MAX_CHARS_def char_bits_def)
qed simp

lemma link_copy_wf:
  assumes "vm_wf s" and c: "c < length (vm_qbits s)" and t: "t < length (vm_qbits s)"
  shows "vm_wf (let s = upd_qbit c (\<lambda>q. q\<lparr>qb_entangled_with := x\<rparr>) s; s = upd_qbit t (\<lambda>q. q\<lparr>qb_entangled_with := y\<rparr>) s;
      from = vm_qbits s ! c
    in upd_qbit t (\<lambda>q. q\<lparr>qb_a := qb_a from, qb_b := qb_b from, qb_measured := False, qb_result := 0\<rparr>) s)"
proof -
  have link: "vm_wf (upd_qbit i (\<lambda>q. q\<lparr>qb_entangled_with := z\<rparr>) s)" if "vm_wf s" "i < length (vm_qbits s)" for i z s
    using that vm_wf_qbit [OF that] by (intro vm_wf_upd_qbit) (auto simp: basis_if_measured_def)
  show ?thesis
    unfolding Let_def using assms by (intro vm_wf_upd_qbit link) (simp_all add: basis_if_measured_def)
qed

lemma cnot_wf: "vm_wf s \<Longrightarrow> vm_wf (cnot_qbits c t s)"
  using link_copy_wf [of s]
  by (auto simp: cnot_qbits_def Let_def split: option.split dest!: find_qbit_index)

lemma entangle_wf: "vm_wf s \<Longrightarrow> vm_wf (entangle_qbits l r s)"
  using link_copy_wf [of s]
  by (auto simp: entangle_qbits_def Let_def split: option.split dest!: find_qbit_index)

lemma hadamard_wf: "vm_wf s \<Longrightarrow> i < length (vm_qbits s) \<Longrightarrow> vm_wf (upd_qbit i (hadamard rnd) s)"
  by (auto intro!: vm_wf_upd_qbit simp: hadamard_def basis_if_measured_def)

lemma measure_result: "qb_result (measure_qbit rnd r q) = 0 \<or> qb_result (measure_qbit rnd r q) = 1"
  "qb_name (measure_qbit rnd r q) = qb_name q" "basis_if_measured (measure_qbit rnd r q)"
  by (auto simp: measure_qbit_def collapse_def basis_if_measured_def Let_def)

lemma measure_linked_wf:
  assumes "vm_wf s" and i: "i < length (vm_qbits s)"
  shows "vm_wf (measure_linked rnd rand i s)"
proof -
  define s1 where "s1 = upd_qbit i (measure_qbit rnd (rand (vm_draws s))) (s\<lparr>vm_draws := vm_draws s + 1\<rparr>)"
  have s1: "vm_wf s1" unfolding s1_def using assms by (intro vm_wf_upd_qbit) (auto simp: measure_result)
  have r: "qb_result (vm_qbits s1 ! i) = 0 \<or> qb_result (vm_qbits s1 ! i) = 1"
    using i measure_result(1) by (auto simp: s1_def upd_qbit_def)
  have "vm_wf (upd_qbit p (collapse (qb_result (vm_qbits s1 ! i))) s1)" if "p < length (vm_qbits s1)" for p
    using that s1 r by (intro vm_wf_upd_qbit) (simp_all add: collapse_basis, simp add: collapse_def)
  then show ?thesis
    using s1 unfolding measure_linked_def s1_def [symmetric] Let_def
    by (auto split: option.split dest!: find_qbit_index)
qed

lemma qmsg_wf:
  "vm_wf s \<Longrightarrow> vm_wf (qmsg_set m s)" "vm_wf s \<Longrightarrow> vm_wf (qmsg_encode s)" "vm_wf s \<Longrightarrow> vm_wf (qmsg_measure s)"
  "vm_wf s \<Longrightarrow> vm_wf (qmsg_decode s)" "vm_wf s \<Longrightarrow> vm_wf (qmsg_print_register s)"
  by (auto simp: qmsg_set_def qmsg_encode_def qmsg_measure_def qmsg_decode_def qmsg_print_register_def Let_def
      vm_wf_def encode_loop_all QMSG_MAX_CHARS_def)

lemma vm_simple_wf:
  assumes "vm_wf s" and "vm_simple rnd rand i s = Inr s'"
  shows "vm_wf s'"
proof -
  obtain op a b v where i: "i = (op, a, b, v)" by (cases i)
  show ?thesis
    using assms unfolding i
    by (cases op)
      (auto simp: vm_say_def run_safe_action_def Let_def set_var_wf create_qbit_wf cnot_wf entangle_wf qmsg_wf
        split: option.split prod.split intro: hadamard_wf measure_linked_wf dest!: find_qbit_index)
qed

interpretation tables: vm_invariant rnd rand vm_wf for rnd rand
  by unfold_locales (auto intro: vm_simple_wf)

text \<open>Every action that is dispatched, or allowed by the adapter, is on the whitelist.\<close>

definition only_safe :: "vm \<Rightarrow> bool" where
  "only_safe s \<longleftrightarrow> (\<forall>a. L_dispatched a \<in> set (vm_out s) \<longrightarrow> a \<in> safe_actions)"

lemma only_safe_say: "only_safe (say l s) \<longleftrightarrow> only_safe s \<and> (\<forall>a. l = L_dispatched a \<longrightarrow> a \<in> safe_actions)"
  by (auto simp: only_safe_def)

lemma only_safe_same: "vm_out s' = vm_out s \<Longrightarrow> only_safe s' = only_safe s"
  by (simp add: only_safe_def)

lemma only_safe_upd [simp]: "only_safe (upd_qbit i f s) = only_safe s"
  by (rule only_safe_same) simp

lemmas vm_op_defs =
  vm_say_def qmsg_set_def qmsg_encode_def qmsg_measure_def qmsg_decode_def qmsg_print_register_def set_var_def
  create_qbit_def cnot_qbits_def entangle_qbits_def measure_linked_def print_qbit_def

lemma vm_ops_safe:
  "only_safe (vm_say a s) = only_safe s" "only_safe (set_var a x s) = only_safe s"
  "only_safe (create_qbit rnd a b s) = only_safe s" "only_safe (cnot_qbits a b s) = only_safe s"
  "only_safe (entangle_qbits a b s) = only_safe s" "only_safe (measure_linked rnd rand i s) = only_safe s"
  "only_safe (qmsg_set a s) = only_safe s" "only_safe (qmsg_encode s) = only_safe s"
  "only_safe (qmsg_measure s) = only_safe s" "only_safe (qmsg_decode s) = only_safe s"
  by (auto simp: vm_op_defs only_safe_say Let_def split: option.split) (auto simp: only_safe_def)

lemma action_safe: "only_safe s \<Longrightarrow> only_safe (run_safe_action a s)"
  using dispatch_ok_iff [of a]
  by (auto simp: run_safe_action_def only_safe_say Let_def split: prod.split)

lemma vm_simple_safe:
  assumes "only_safe s" and "vm_simple rnd rand i s = Inr s'"
  shows "only_safe s'"
proof -
  obtain op a b v where i: "i = (op, a, b, v)" by (cases i)
  show ?thesis
    using assms unfolding i
    by (cases op) (auto simp: vm_ops_safe only_safe_say split: option.split intro: action_safe)
qed

interpretation actions: vm_invariant rnd rand only_safe for rnd rand
  by unfold_locales (auto simp: only_safe_say intro: vm_simple_safe)

section \<open>Every run ends\<close>

text \<open>
  The progress of a run, from the outermost loop to the program counter: for each open loop the place of its
  \<^verbatim>\<open>repeat\<close> and the rounds left, then the place of the next instruction, all counted towards the end
  of the code.  Each round of the machine makes this list smaller in the lexicographic order.
\<close>

definition open_loops :: "ins list \<Rightarrow> (nat \<times> nat \<times> int) list \<Rightarrow> nat list" where
  "open_loops prog stk = concat (map (\<lambda>(start, stop, left). [2 * (length prog - start) - 1, nat left]) (rev stk))"

definition progress :: "ins list \<Rightarrow> nat \<Rightarrow> (nat \<times> nat \<times> int) list \<Rightarrow> nat list" where
  "progress prog pc stk = open_loops prog stk @ [2 * (length prog - pc)]"

definition padded :: "nat list \<Rightarrow> nat list" where
  "padded xs = xs @ replicate (2 * REPEAT_STACK + 1 - length xs) 0"

definition stack_ok :: "ins list \<Rightarrow> (nat \<times> nat \<times> int) list \<Rightarrow> bool" where
  "stack_ok prog stk \<longleftrightarrow> length stk \<le> REPEAT_STACK \<and>
     (\<forall>(start, stop, left) \<in> set stk. start < stop \<and> stop < length prog \<and> 0 < left)"

lemma open_loops_Cons:
  "open_loops prog ((start, stop, left) # stk) = open_loops prog stk @ [2 * (length prog - start) - 1, nat left]"
  by (simp add: open_loops_def)

lemma length_open_loops: "length (open_loops prog stk) = 2 * length stk"
  by (induction stk) (auto simp: open_loops_Cons, simp add: open_loops_def)

lemma padded_less:
  assumes "x < y" and "length (p @ x # xs) \<le> 2 * REPEAT_STACK + 1" and "length (p @ y # ys) \<le> 2 * REPEAT_STACK + 1"
  shows "(padded (p @ x # xs), padded (p @ y # ys)) \<in> lex less_than"
proof -
  have "length (padded (p @ x # xs)) = length (padded (p @ y # ys))" using assms(2,3) by (simp add: padded_def)
  then show ?thesis
    unfolding lex_conv padded_def using assms(1) by simp blast
qed

lemma find_end_less: "find_end d is = Some k \<Longrightarrow> k < length is"
  by (induction d "is" arbitrary: k rule: find_end.induct) (auto split: if_split_asm)

lemma step_forward:
  assumes "stack_ok prog stk" and "pc < length prog" and "pc < pc'"
  shows "stack_ok prog stk" "(padded (progress prog pc' stk), padded (progress prog pc stk)) \<in> lex less_than"
  using assms by (auto simp: progress_def length_open_loops stack_ok_def intro!: padded_less)

lemma step_push:
  assumes "stack_ok prog stk" and "pc < stop" and "stop < length prog" and "length stk < REPEAT_STACK" and "0 < v"
  shows "stack_ok prog ((pc, stop, v) # stk)"
    and "(padded (progress prog pc' ((pc, stop, v) # stk)), padded (progress prog pc stk)) \<in> lex less_than"
proof -
  show ok: "stack_ok prog ((pc, stop, v) # stk)" using assms by (simp add: stack_ok_def)
  show "(padded (progress prog pc' ((pc, stop, v) # stk)), padded (progress prog pc stk)) \<in> lex less_than"
    using assms padded_less [of "2 * (length prog - pc) - 1" "2 * (length prog - pc)" "open_loops prog stk"
        "[nat v, 2 * (length prog - pc')]" "[]"]
    by (simp add: progress_def open_loops_Cons length_open_loops)
qed

lemma step_loop:
  assumes "stack_ok prog ((start, stop, left) # stk)" and "1 < left"
  shows "stack_ok prog ((start, stop, left - 1) # stk)"
    and "(padded (progress prog pc' ((start, stop, left - 1) # stk)), padded (progress prog pc ((start, stop, left) # stk)))
      \<in> lex less_than"
  using assms padded_less [of "nat (left - 1)" "nat left" "open_loops prog stk @ [2 * (length prog - start) - 1]"
      "[2 * (length prog - pc')]" "[2 * (length prog - pc)]"]
  by (simp_all add: stack_ok_def progress_def open_loops_Cons length_open_loops)

lemma step_pop:
  assumes "stack_ok prog ((start, pc, left) # stk)"
  shows "stack_ok prog stk"
    and "(padded (progress prog (pc + 1) stk), padded (progress prog pc ((start, pc, left) # stk))) \<in> lex less_than"
proof -
  show "stack_ok prog stk" using assms by (simp add: stack_ok_def)
  have "start < pc" "pc < length prog" "length stk < REPEAT_STACK" using assms by (simp_all add: stack_ok_def)
  then show "(padded (progress prog (pc + 1) stk), padded (progress prog pc ((start, pc, left) # stk))) \<in> lex less_than"
    using padded_less [of "2 * (length prog - (pc + 1))" "2 * (length prog - start) - 1" "open_loops prog stk"
        "[]" "[nat left, 2 * (length prog - pc)]"]
    by (simp add: progress_def open_loops_Cons length_open_loops)
qed

lemma vm_simple_total: "\<exists>s'. vm_simple rnd rand i s = Inr s'"
  by (cases "(rnd, rand, i, s)" rule: vm_simple.cases) simp_all

lemma step_progress:
  assumes "pc < length prog" and "stack_ok prog stk"
  shows "\<exists>nx. vm_step rnd rand prog pc stk s = Inr nx \<and>
     (case nx of Halt s' \<Rightarrow> True
      | Go pc' stk' s' \<Rightarrow> stack_ok prog stk' \<and>
          (padded (progress prog pc' stk'), padded (progress prog pc stk)) \<in> lex less_than)"
proof -
  obtain op a b v where i: "prog ! pc = (op, a, b, v)" by (cases "prog ! pc")
  have e: "pc + 1 + k < length prog" if "find_end 0 (drop (pc + 1) prog) = Some k" for k
    using find_end_less [OF that] by simp
  note fwd = step_forward [OF assms(2,1)]
  consider "op = OP_CHECK" | "op = OP_REPEAT" | "op = OP_END" | "\<exists>n. op = OP_OTHER n"
    | "op \<notin> {OP_CHECK, OP_REPEAT, OP_END}" "\<nexists>n. op = OP_OTHER n" by blast
  then show ?thesis
  proof cases
    case 1
    then show ?thesis
      using i assms fwd(2) by (auto simp: vm_step_def split: prod.split option.split)
  next
    case 2
    show ?thesis
    proof (cases "find_end 0 (drop (pc + 1) prog)")
      case None
      then show ?thesis using 2 i by (simp add: vm_step_def)
    next
      case (Some k)
      then show ?thesis
        using 2 i assms(2) fwd(2) step_push [OF assms(2) _ e [OF Some]] by (auto simp: vm_step_def not_le)
    qed
  next
    case 3
    show ?thesis
    proof (cases stk)
      case Nil
      then show ?thesis using 3 i assms(2) fwd(2) by (simp add: vm_step_def)
    next
      case (Cons x rest)
      then show ?thesis
        using 3 i assms(2) fwd(2) step_loop [of prog _ _ _ rest] step_pop [of prog _ pc _ rest]
        by (cases x) (auto simp: vm_step_def)
    qed
  next
    case 4
    then show ?thesis using i by (auto simp: vm_step_def)
  next
    case 5
    obtain s' where "vm_simple rnd rand (op, a, b, v) s = Inr s'" using vm_simple_total by blast
    then have "vm_step rnd rand prog pc stk s = Inr (Go (pc + 1) stk s')"
      using 5 i by (cases op) (auto simp: vm_step_def)
    then show ?thesis using fwd(2) [of "pc + 1"] assms(2) by simp
  qed
qed

lemma loop_done: "length prog \<le> pc \<Longrightarrow> vm_loop rnd rand fuel prog pc stk s = Inr s"
  by (subst vm_loop.simps) simp

lemma loop_ends:
  assumes "stack_ok prog stk"
  shows "\<exists>n s'. \<forall>fuel \<ge> n. vm_loop rnd rand fuel prog pc stk s = Inr s'"
proof -
  have "wf (lex less_than)" by (rule wf_lex [OF wf_less_than])
  then show ?thesis
    using assms
  proof (induction "padded (progress prog pc stk)" arbitrary: pc stk s rule: wf_induct_rule)
    case less
    show ?case
    proof (cases "pc < length prog")
      case False
      then show ?thesis by (auto simp: loop_done)
    next
      case True
      obtain nx where nx: "vm_step rnd rand prog pc stk s = Inr nx"
          "case nx of Halt s' \<Rightarrow> True | Go pc' stk' s' \<Rightarrow> stack_ok prog stk' \<and>
             (padded (progress prog pc' stk'), padded (progress prog pc stk)) \<in> lex less_than"
        using step_progress [OF True less.prems] by blast
      have "\<exists>n s'. \<forall>fuel \<ge> n. (case nx of Halt s \<Rightarrow> Inr s | Go pc stk s \<Rightarrow> vm_loop rnd rand fuel prog pc stk s) = Inr s'"
        using nx(2) less.hyps by (cases nx) auto
      then obtain n s' where n: "\<forall>fuel \<ge> n. (case nx of Halt s \<Rightarrow> Inr s | Go pc stk s \<Rightarrow> vm_loop rnd rand fuel prog pc stk s) = Inr s'"
        by blast
      have "vm_loop rnd rand fuel prog pc stk s = Inr s'" if "fuel \<ge> Suc n" for fuel
        using that n nx(1) True by (cases fuel) (simp_all add: vm_loop_step)
      then show ?thesis by blast
    qed
  qed
qed

lemma run_ends: "\<exists>n s'. \<forall>fuel \<ge> n. run_bytecode rnd rand fuel prog s = Inr s'"
  unfolding run_bytecode_def by (rule loop_ends) (simp add: stack_ok_def)

text \<open>
  C25: the virtual machine ends on every bytecode, compiled or loaded from a file, well-formed or not, and keeps at most
  64 variables and 32 qubits, with distinct names; a qubit it holds for measured is in the basis state
  of its result; a message has at most 127 characters and is encoded as eight bits for each of
  them, all of them.
\<close>

theorem vm_tables_bounded:
  "\<exists>n s. (\<forall>fuel \<ge> n. run_bytecode rnd rand fuel prog vm_init = Inr s) \<and>
     length (vm_vars s) \<le> 64 \<and> length (vm_qbits s) \<le> 32 \<and>
     distinct (map var_name (vm_vars s)) \<and> distinct (map qb_name (vm_qbits s)) \<and>
     (\<forall>q \<in> set (vm_qbits s). qb_measured q \<longrightarrow> qb_result q \<in> {0, 1} \<and> (qb_a q, qb_b q) = (if qb_result q = 0 then (1, 0) else (0, 1))) \<and>
     length (qmsg_text s) \<le> 127 \<and> (qmsg_encoded s \<longrightarrow> qmsg_bits s = concat (map char_bits (qmsg_text s)))"
proof -
  obtain n s where n: "\<forall>fuel \<ge> n. run_bytecode rnd rand fuel prog vm_init = Inr s" using run_ends by blast
  have "vm_wf vm_init" by (simp add: vm_wf_def vm_init_def QMSG_MAX_CHARS_def)
  then have "vm_wf s" using tables.run_keeps n by blast
  then show ?thesis
    using n by (intro exI [of _ n] exI [of _ s]) (auto simp: vm_wf_def MAX_VM_VARS_def MAX_VM_QBITS_def QMSG_MAX_CHARS_def)
qed

text \<open>
  C26: on every bytecode the virtual machine ends, and the only hardware actions it has dispatched on
  the way are the five of the whitelist.
\<close>

theorem vm_actions_safe:
  "\<exists>n s. (\<forall>fuel \<ge> n. run_bytecode rnd rand fuel prog vm_init = Inr s) \<and>
     (\<forall>a. L_dispatched a \<in> set (vm_out s) \<longrightarrow> a \<in> {''led_on'', ''led_off'', ''servo_up'', ''servo_down'', ''buzzer_beep''})"
proof -
  obtain n s where n: "\<forall>fuel \<ge> n. run_bytecode rnd rand fuel prog vm_init = Inr s" using run_ends by blast
  have "only_safe vm_init" by (simp add: only_safe_def vm_init_def)
  then have "only_safe s" using actions.run_keeps n by blast
  then have "\<forall>a. L_dispatched a \<in> set (vm_out s) \<longrightarrow> a \<in> {''led_on'', ''led_off'', ''servo_up'', ''servo_down'', ''buzzer_beep''}"
    unfolding only_safe_def safe_actions_def .
  then show ?thesis using n by blast
qed

text \<open>A program with a blocked action, a number in scientific notation and a permitted action.\<close>

definition action_code :: "ins list" where
  "action_code = [(OP_SAFE_ACTION, ''reboot'', [], 0), (OP_LET, ''x'', ''1e3'', 0), (OP_SAFE_ACTION, ''servo_up'', [], 0)]"

definition action_run :: "vm" where
  "action_run = vm_init\<lparr>vm_vars := [\<lparr>var_name = ''x'', var_value = atof id ''1e3''\<rparr>],
     vm_out := [L_adapter (Blocked ''reboot''), L_adapter (Allowed ''SERVO_UP''), L_dispatched ''servo_up'']\<rparr>"

lemma action_run_eq: "3 \<le> fuel \<Longrightarrow> run_bytecode id (\<lambda>_. 0) fuel action_code vm_init = Inr action_run"
proof -
  assume "3 \<le> fuel"
  then obtain f where f: "fuel = Suc (Suc (Suc f))" by (metis Suc_le_D Suc_le_mono numeral_3_eq_3)
  let ?s = "vm_init\<lparr>vm_out := [L_adapter (Blocked ''reboot'')]\<rparr>"
  let ?t = "?s\<lparr>vm_vars := [\<lparr>var_name = ''x'', var_value = atof id ''1e3''\<rparr>]\<rparr>"
  have "vm_step id (\<lambda>_. 0) action_code 0 [] vm_init = Inr (Go 1 [] ?s)"
    by (simp add: action_code_def vm_step_def run_safe_action_def adapter_dispatch_safe_def say_def vm_init_def)
  moreover have "vm_step id (\<lambda>_. 0) action_code 1 [] ?s = Inr (Go 2 [] ?t)"
    by (simp add: action_code_def vm_step_def set_var_def find_var_def vm_init_def MAX_VM_VARS_def numeral_2_eq_2)
  moreover have "vm_step id (\<lambda>_. 0) action_code 2 [] ?t = Inr (Go 3 [] action_run)"
    by (simp add: action_code_def vm_step_def run_safe_action_def adapter_dispatch_safe_def say_def vm_init_def
        action_run_def numeral_2_eq_2 numeral_3_eq_3)
  moreover have "length action_code = 3" by (simp add: action_code_def)
  ultimately show ?thesis unfolding run_bytecode_def f by (simp add: vm_loop_step loop_done)
qed

theorem vm_actions_safe_witness:
  "L_dispatched ''servo_up'' \<in> set (vm_out action_run) \<and> L_dispatched ''reboot'' \<notin> set (vm_out action_run)"
proof -
  obtain n s where n: "\<forall>fuel \<ge> n. run_bytecode id (\<lambda>_. 0) fuel action_code vm_init = Inr s"
      "\<forall>a. L_dispatched a \<in> set (vm_out s) \<longrightarrow> a \<in> {''led_on'', ''led_off'', ''servo_up'', ''servo_down'', ''buzzer_beep''}"
    using vm_actions_safe [of id "\<lambda>_. 0" action_code] by blast
  have "s = action_run" using n(1) action_run_eq [of "max n 3"] by (metis max.cobounded1 max.cobounded2 sum.inject(2))
  then have "\<not> L_dispatched ''reboot'' \<in> set (vm_out action_run)" using n(2) [rule_format, of "''reboot''"] by auto
  then show ?thesis by (simp add: action_run_def)
qed

theorem vm_tables_bounded_witness:
  "length (vm_vars action_run) \<le> 64 \<and> distinct (map var_name (vm_vars action_run))"
proof -
  obtain n s where n: "\<forall>fuel \<ge> n. run_bytecode id (\<lambda>_. 0) fuel action_code vm_init = Inr s"
      "length (vm_vars s) \<le> 64" "distinct (map var_name (vm_vars s))"
    using vm_tables_bounded [of id "\<lambda>_. 0" action_code] by blast
  moreover have "s = action_run" using n(1) action_run_eq [of "max n 3"] by (metis max.cobounded1 max.cobounded2 sum.inject(2))
  ultimately show ?thesis by simp
qed

section \<open>Messages and links\<close>

definition bits_char :: "string \<Rightarrow> char" where
  "bits_char bs = char_of (foldl (\<lambda>n c. 2 * n + (if c = CHR ''1'' then 1 else 0)) (0 :: nat) bs)"

fun bits_text :: "string \<Rightarrow> string" where
  "bits_text [] = []"
| "bits_text (b # bs) = bits_char (take 8 (b # bs)) # bits_text (drop 8 (b # bs))"

lemma foldl_bits:
  "foldl (\<lambda>n c. 2 * n + (if c = CHR ''1'' then 1 else 0)) (a :: nat)
     (map (\<lambda>b. if bit m b then CHR ''1'' else CHR ''0'') (rev [0..<k])) = a * 2 ^ k + take_bit k m"
  for m :: nat
proof (induction k arbitrary: a)
  case (Suc k)
  then show ?case by (simp add: take_bit_Suc_from_most algebra_simps)
qed simp

lemma bits_char_bits: "bits_char (char_bits c) = c"
proof -
  have "code_of c < 2 ^ 8" by (simp add: code_of_def)
  then show ?thesis
    using foldl_bits [of 0 "code_of c" 8]
    by (simp add: bits_char_def char_bits_def take_bit_nat_eq_self code_of_def del: upt_Suc)
qed

lemma length_char_bits: "length (char_bits c) = 8"
  by (simp add: char_bits_def)

lemma bits_text_encoded: "bits_text (concat (map char_bits t)) = t"
proof (induction t)
  case (Cons c t)
  obtain b bs where "char_bits c = b # bs" using length_char_bits [of c] by (cases "char_bits c") auto
  then show ?case
    using Cons bits_text.simps(2) [of b "bs @ concat (map char_bits t)"] length_char_bits [of c] bits_char_bits [of c]
    by simp
qed simp

text \<open>
  A message survives its trip: loaded, encoded, measured and decoded, a message of 1 to 127
  characters is printed unchanged, its register holds eight bits for each character, and those
  bits, read eight at a time, spell the message again.
\<close>

theorem qmsg_trip:
  assumes "m \<noteq> []" and "length m < 128"
  shows "\<exists>bits. length bits = 8 * length m \<and> bits_text bits = m \<and>
     vm_out (qmsg_decode (qmsg_measure (qmsg_encode (qmsg_set m s)))) =
       vm_out s @ [L_loaded m, L_bits bits (8 * length m), L_packet_measured (8 * length m), L_decoded m]"
proof -
  have t: "take (QMSG_MAX_CHARS - Suc 0) m = m" using assms(2) by (simp add: QMSG_MAX_CHARS_def)
  have e: "encode_loop [] m = concat (map char_bits m)" using assms(2) by (simp add: encode_loop_all)
  have l: "length (concat (map char_bits m)) = 8 * length m" by (induction m) (simp_all add: length_char_bits)
  show ?thesis
    using assms(1) l bits_text_encoded [of m]
    by (intro exI [of _ "concat (map char_bits m)"])
      (simp add: qmsg_set_def t qmsg_encode_def e qmsg_measure_def qmsg_decode_def say_def Let_def)
qed

theorem qmsg_trip_witness:
  "\<exists>bits. length bits = 16 \<and> bits_text bits = ''HI'' \<and>
     vm_out (qmsg_decode (qmsg_measure (qmsg_encode (qmsg_set ''HI'' vm_init)))) =
       [L_loaded ''HI'', L_bits bits 16, L_packet_measured 16, L_decoded ''HI'']"
  using qmsg_trip [of "''HI''" vm_init] by (simp add: vm_init_def)

lemma find_qbit_upd:
  assumes "\<And>q. qb_name (f q) = qb_name q"
  shows "find_qbit name (upd_qbit i f s) = find_qbit name s"
proof -
  have "position (\<lambda>q. qb_name q = name) (xs[i := f (xs ! i)]) = position (\<lambda>q. qb_name q = name) xs" for xs
    using assms by (induction xs arbitrary: i) (auto split: nat.split)
  then show ?thesis by (simp add: find_qbit_def upd_qbit_def)
qed

lemma find_qbit_say [simp]: "find_qbit name (say l s) = find_qbit name s" "find_qbit name (s\<lparr>vm_draws := k\<rparr>) = find_qbit name s"
  by (simp_all add: find_qbit_def)

lemma nth_upd_qbit: "j < length (vm_qbits s) \<Longrightarrow> vm_qbits (upd_qbit i f s) ! j = (if i = j then f (vm_qbits s ! j) else vm_qbits s ! j)"
  by (simp add: upd_qbit_def nth_list_update)

text \<open>
  Entangled qubits agree.  After \<^verbatim>\<open>entangle l r\<close> on two distinct qubits, a measurement of either
  leaves both measured, with the same result, whatever the amplitudes and the random number.
\<close>

theorem entangled_agree:
  assumes "find_qbit l s = Some i" and "find_qbit r s = Some j" and "l \<noteq> r" and "l \<noteq> []" and "r \<noteq> []"
    and "k = i \<or> k = j"
  shows "let s' = measure_linked rnd rand k (entangle_qbits l r s); p = vm_qbits s' ! i; q = vm_qbits s' ! j
     in qb_measured p \<and> qb_measured q \<and> qb_result p = qb_result q \<and> qb_result p \<in> {0, 1}"
proof -
  have ij: "i < length (vm_qbits s)" "j < length (vm_qbits s)" "i \<noteq> j" "qb_name (vm_qbits s ! i) = l" "qb_name (vm_qbits s ! j) = r"
    using find_qbit_index [OF assms(1)] find_qbit_index [OF assms(2)] assms(3) by auto
  have m: "qb_entangled_with (measure_qbit rnd x q) = qb_entangled_with q" "qb_name (measure_qbit rnd x q) = qb_name q"
      "qb_measured (measure_qbit rnd x q)" for x q
    by (simp_all add: measure_qbit_def collapse_def Let_def)
  show ?thesis
    using assms ij measure_result(1)
    by (auto simp: entangle_qbits_def measure_linked_def Let_def find_qbit_upd nth_upd_qbit m collapse_def)
qed


definition two_qbits :: vm where
  "two_qbits = vm_init\<lparr>vm_qbits :=
     [\<lparr>qb_name = ''q'', qb_a = 0, qb_b = 1, qb_measured = False, qb_result = - 1, qb_entangled_with = []\<rparr>,
      \<lparr>qb_name = ''p'', qb_a = 0, qb_b = 1, qb_measured = False, qb_result = - 1, qb_entangled_with = []\<rparr>]\<rparr>"

lemma two_qbits_found: "find_qbit ''q'' two_qbits = Some 0" "find_qbit ''p'' two_qbits = Some 1"
  by (simp_all add: find_qbit_def two_qbits_def)

theorem entangled_agree_witness:
  "let s' = measure_linked id (\<lambda>_. 5) 1 (entangle_qbits ''q'' ''p'' two_qbits); p = vm_qbits s' ! 0; q = vm_qbits s' ! 1
   in qb_measured p \<and> qb_measured q \<and> qb_result p = qb_result q \<and> qb_result p \<in> {0, 1}"
  by (rule entangled_agree [OF two_qbits_found]) simp_all

text \<open>
  \<^verbatim>\<open>cnot\<close> is not a controlled-not: it copies the amplitudes of the control to the target, whatever the
  target was.  With both qubits in state 1 a controlled-not gives 0; here the target stays 1.
\<close>

theorem cnot_copies:
  assumes "find_qbit c s = Some i" and "find_qbit t s = Some j"
  shows "qb_a (vm_qbits (cnot_qbits c t s) ! j) = qb_a (vm_qbits s ! i) \<and>
     qb_b (vm_qbits (cnot_qbits c t s) ! j) = qb_b (vm_qbits s ! i)"
  using assms find_qbit_index [OF assms(1)] find_qbit_index [OF assms(2)]
  by (auto simp: cnot_qbits_def Let_def nth_upd_qbit)

theorem cnot_copies_witness:
  "qb_a (vm_qbits (cnot_qbits ''q'' ''p'' two_qbits) ! 1) = 0 \<and> qb_b (vm_qbits (cnot_qbits ''q'' ''p'' two_qbits) ! 1) = 1"
  using cnot_copies [OF two_qbits_found] by (simp add: two_qbits_def)

end
