(* ===== verification/State2.thy ===== *)
theory State2
  imports Byte_VM Binary64
begin

text \<open>
  The two-qubit state vector, \<^verbatim>\<open>src/src/quantum/state2.c\<close>, and the virtual machine on it,
  \<^verbatim>\<open>src/src/vm/state2_vm.c\<close>.  As in the bytecode machine, arithmetic is rounded by \<open>rnd\<close> and \<open>rand k\<close> is the
  \<open>k\<close>-th random number.
\<close>

section \<open>The state vector\<close>

record QState2 =
  s2_amp :: "real list" \<comment> \<open>\<^verbatim>\<open>|00>\<close>, \<^verbatim>\<open>|01>\<close>, \<^verbatim>\<open>|10>\<close>, \<^verbatim>\<open>|11>\<close>\<close>
  s2_measured :: bool
  s2_result :: nat

definition qstate2_init_00 :: "QState2 \<Rightarrow> QState2" where
  "qstate2_init_00 s = s\<lparr>s2_amp := [1, 0, 0, 0], s2_measured := False, s2_result := 0\<rparr>"

definition qstate2_h_first :: "(real \<Rightarrow> real) \<Rightarrow> QState2 \<Rightarrow> QState2" where
  "qstate2_h_first rnd s =
     (let a00 = s2_amp s ! 0; a01 = s2_amp s ! 1; a10 = s2_amp s ! 2; a11 = s2_amp s ! 3; r2 = rnd (sqrt 2)
      in s\<lparr>s2_amp := [rnd (rnd (a00 + a10) / r2), rnd (rnd (a01 + a11) / r2),
                      rnd (rnd (a00 - a10) / r2), rnd (rnd (a01 - a11) / r2)], s2_measured := False\<rparr>)"

definition qstate2_cnot_first_to_second :: "QState2 \<Rightarrow> QState2" where
  "qstate2_cnot_first_to_second s =
     s\<lparr>s2_amp := (s2_amp s)[2 := s2_amp s ! 3, 3 := s2_amp s ! 2], s2_measured := False\<rparr>"

fun pick_loop :: "(real \<Rightarrow> real) \<Rightarrow> real \<Rightarrow> real \<Rightarrow> nat \<Rightarrow> real list \<Rightarrow> nat" where
  "pick_loop rnd r acc i [] = 3"
| "pick_loop rnd r acc i (a # as) =
     (let acc = rnd (acc + rnd (a * a)) in if r \<le> acc then i else pick_loop rnd r acc (i + 1) as)"

definition qstate2_measure :: "(real \<Rightarrow> real) \<Rightarrow> int \<Rightarrow> QState2 \<Rightarrow> nat \<times> QState2" where
  "qstate2_measure rnd random s =
     (let r = rnd (of_int random / of_int RAND_MAX); picked = pick_loop rnd r 0 0 (s2_amp s)
      in (picked, s\<lparr>s2_amp := (replicate 4 0)[picked := 1], s2_measured := True, s2_result := picked\<rparr>))"

datatype s2_line =
    S2_basis nat
  | S2_amplitudes "real list"
  | S2_bit nat
  | S2_text string
  | S2_mapped string nat
  | S2_warn string
  | S2_gate string "string list" s2_line
  | S2_todo string "string list"

definition qstate2_print :: "QState2 \<Rightarrow> s2_line" where
  "qstate2_print s = (if s2_measured s then S2_basis (s2_result s) else S2_amplitudes (s2_amp s))"

section \<open>The virtual machine\<close>

record state2_vm =
  sv_state :: QState2
  sv_q0 :: string
  sv_q1 :: string
  sv_qcount :: nat
  sv_measured :: bool
  sv_bit0 :: nat
  sv_bit1 :: nat
  sv_draws :: nat
  sv_out :: "s2_line list"

definition state2_vm_init :: state2_vm where
  "state2_vm_init = \<lparr> sv_state = \<lparr>s2_amp = [1, 0, 0, 0], s2_measured = False, s2_result = 0\<rparr>, sv_q0 = [], sv_q1 = [],
     sv_qcount = 0, sv_measured = False, sv_bit0 = 0, sv_bit1 = 0, sv_draws = 0, sv_out = [] \<rparr>"

definition sv_say :: "s2_line \<Rightarrow> state2_vm \<Rightarrow> state2_vm" where
  "sv_say l v = v\<lparr>sv_out := sv_out v @ [l]\<rparr>"

fun state2_step :: "(real \<Rightarrow> real) \<Rightarrow> (nat \<Rightarrow> int) \<Rightarrow> ins \<Rightarrow> state2_vm \<Rightarrow> state2_vm" where
  "state2_step rnd rand (OP_SAY, arg1, arg2, n) v =
     (if arg1 = sv_q0 v then sv_say (if sv_measured v then S2_bit (sv_bit0 v) else qstate2_print (sv_state v)) v
      else if arg1 = sv_q1 v then sv_say (if sv_measured v then S2_bit (sv_bit1 v) else qstate2_print (sv_state v)) v
      else sv_say (S2_text arg1) v)"
| "state2_step rnd rand (OP_QBIT, arg1, arg2, n) v =
     (if sv_qcount v = 0 then sv_say (S2_mapped arg1 0) (v\<lparr>sv_q0 := arg1, sv_qcount := 1\<rparr>)
      else if sv_qcount v = 1 then sv_say (S2_mapped arg1 1) (v\<lparr>sv_q1 := arg1, sv_qcount := 2\<rparr>)
      else sv_say (S2_warn arg1) v)"
| "state2_step rnd rand (OP_HADAMARD, arg1, arg2, n) v =
     (if arg1 = sv_q0 v
      then let st = qstate2_h_first rnd (sv_state v) in sv_say (S2_gate ''H'' [arg1] (qstate2_print st)) (v\<lparr>sv_state := st\<rparr>)
      else sv_say (S2_todo ''H'' [arg1]) v)"
| "state2_step rnd rand (OP_CNOT, arg1, arg2, n) v =
     (if arg1 = sv_q0 v \<and> arg2 = sv_q1 v
      then let st = qstate2_cnot_first_to_second (sv_state v)
           in sv_say (S2_gate ''CNOT'' [arg1, arg2] (qstate2_print st)) (v\<lparr>sv_state := st\<rparr>)
      else sv_say (S2_todo ''CNOT'' [arg1, arg2]) v)"
| "state2_step rnd rand (OP_MEASURE, arg1, arg2, n) v =
     (case qstate2_measure rnd (rand (sv_draws v)) (sv_state v) of
        (result, st) \<Rightarrow>
          sv_say (S2_gate ''MEASURE'' [] (qstate2_print st))
            (v\<lparr>sv_state := st, sv_measured := True, sv_bit0 := result div 2 mod 2, sv_bit1 := result mod 2,
               sv_draws := sv_draws v + 1\<rparr>))"
| "state2_step rnd rand (_, arg1, arg2, n) v = v"

definition run_state2_bytecode :: "(real \<Rightarrow> real) \<Rightarrow> (nat \<Rightarrow> int) \<Rightarrow> ins list \<Rightarrow> state2_vm" where
  "run_state2_bytecode rnd rand prog = foldl (\<lambda>v i. state2_step rnd rand i v) state2_vm_init prog"

section \<open>Gates in exact arithmetic\<close>

definition s2_norm :: "real list \<Rightarrow> real" where
  "s2_norm as = sum_list (map (\<lambda>a. a * a) as)"

lemma four_cases: "length as = 4 \<Longrightarrow> \<exists>a b c d. as = [a, b, c, d]"
  by (auto simp: numeral_eq_Suc length_Suc_conv)

text \<open>
  The two gates are the gates they are named after: in exact arithmetic the Hadamard and the
  controlled-not of the two-qubit vector keep the norm and are their own inverses, and the
  controlled-not is a permutation of the basis under every rounding.
\<close>

theorem state2_gates:
  assumes "length (s2_amp s) = 4"
  shows "s2_amp (qstate2_h_first id (qstate2_h_first id s)) = s2_amp s \<and>
     s2_norm (s2_amp (qstate2_h_first id s)) = s2_norm (s2_amp s) \<and>
     s2_amp (qstate2_cnot_first_to_second (qstate2_cnot_first_to_second s)) = s2_amp s \<and>
     s2_amp (qstate2_cnot_first_to_second s) = map (\<lambda>i. s2_amp s ! (if i div 2 = 1 then 2 + (1 - i mod 2) else i)) [0..<4]"
proof -
  obtain a b c d where s: "s2_amp s = [a, b, c, d]" using four_cases [OF assms] by blast
  have h: "(x / sqrt 2 + y / sqrt 2) / sqrt 2 = (x + y) / 2" "(x / sqrt 2 - y / sqrt 2) / sqrt 2 = (x - y) / 2" for x y
    by (simp_all add: add_divide_distrib [symmetric] diff_divide_distrib [symmetric])
  have n: "(x + y) / sqrt 2 * ((x + y) / sqrt 2) + (x - y) / sqrt 2 * ((x - y) / sqrt 2) = x * x + y * y" for x y
    by (simp add: algebra_simps add_divide_distrib [symmetric] diff_divide_distrib [symmetric])
  have h2: "((x + y) / sqrt 2 + (x - y) / sqrt 2) / sqrt 2 = x" "((x + y) / sqrt 2 - (x - y) / sqrt 2) / sqrt 2 = y" for x y
    unfolding h by simp_all
  show ?thesis
  proof (intro conjI)
    show "s2_amp (qstate2_h_first id (qstate2_h_first id s)) = s2_amp s"
      by (simp add: qstate2_h_first_def s Let_def h2)
    show "s2_norm (s2_amp (qstate2_h_first id s)) = s2_norm (s2_amp s)"
      using n [of a c] n [of b d] by (simp add: qstate2_h_first_def s Let_def s2_norm_def)
  qed (simp_all add: qstate2_cnot_first_to_second_def s upt_rec)
qed

theorem state2_gates_witness:
  "s2_norm (s2_amp (qstate2_h_first id (qstate2_init_00 \<lparr>s2_amp = [0, 0, 0, 1], s2_measured = True, s2_result = 3\<rparr>))) = 1"
  using state2_gates [of "qstate2_init_00 \<lparr>s2_amp = [0, 0, 0, 1], s2_measured = True, s2_result = 3\<rparr>"]
  by (simp add: qstate2_init_00_def s2_norm_def)

section \<open>Measurement\<close>

text \<open>A draw is zero only for the random number zero, and never above one.\<close>

lemma draw_bounds:
  assumes "fp_rounding p rnd" and "53 \<le> p" and "0 < random" and "random \<le> RAND_MAX"
  shows "0 < rnd (of_int random / of_int RAND_MAX)" and "rnd (of_int random / of_int RAND_MAX) \<le> 1"
proof -
  let ?x = "of_int random / of_int RAND_MAX :: real"
  have x: "0 < ?x" "?x \<le> 1" using assms(3,4) by (simp_all add: RAND_MAX_def)
  have "\<bar>rnd ?x - ?x\<bar> \<le> ?x / 2 ^ p" using fp_rounding.error [OF assms(1), of ?x] abs_of_pos [OF x(1)] by metis
  also have "?x / 2 ^ p \<le> ?x / 2 ^ 53"
    using x power_increasing [OF assms(2), of "2 :: real"] by (intro divide_left_mono) simp_all
  finally have e: "\<bar>rnd ?x - ?x\<bar> \<le> ?x / 2 ^ 53" .
  have "?x / 2 ^ 53 < ?x" using x by simp
  then show "0 < rnd ?x" using e by linarith
  show "rnd ?x \<le> 1"
  proof (cases "random = RAND_MAX")
    case True
    then show ?thesis using fp_rounding.rnd_1 [OF assms(1)] by (simp add: RAND_MAX_def)
  next
    case False
    then have "random \<le> 2147483646" using assms(4) by (simp add: RAND_MAX_def)
    then have "(of_int random :: real) \<le> 2147483646" by linarith
    then have "?x \<le> 2147483646 / 2147483647" by (simp add: RAND_MAX_def)
    moreover have "?x / 2 ^ 53 \<le> 1 / 2 ^ 53" using x by simp
    ultimately show ?thesis using e by (simp add: abs_le_iff)
  qed
qed

text \<open>
  Measuring a basis state gives that state, for every random number but zero.  When \<^verbatim>\<open>rand()\<close> returns
  zero, the measurement reports \<^verbatim>\<open>|00>\<close> whatever the state was, since zero is not above the empty sum.
\<close>

theorem state2_measure_basis:
  assumes "fp_rounding p rnd" and "53 \<le> p" and "i < 4" and "s2_amp s = (replicate 4 0)[i := 1]"
    and "0 \<le> random" and "random \<le> RAND_MAX"
  shows "fst (qstate2_measure rnd random s) = (if random = 0 then 0 else i)"
proof -
  have z: "rnd 0 = 0" "rnd 1 = 1" using fp_rounding.rnd_0 fp_rounding.rnd_1 assms(1) by blast+
  have i: "i = 0 \<or> i = 1 \<or> i = 2 \<or> i = 3" using assms(3) by arith
  show ?thesis
  proof (cases "random = 0")
    case True
    then show ?thesis using i assms(4) z by (auto simp: qstate2_measure_def numeral_eq_Suc)
  next
    case False
    then have "0 < rnd (of_int random / of_int RAND_MAX)" "rnd (of_int random / of_int RAND_MAX) \<le> 1"
      using draw_bounds [OF assms(1,2)] assms(5,6) by auto
    then show ?thesis
      using i assms(4) z False by (auto simp: qstate2_measure_def numeral_eq_Suc Let_def)
  qed
qed

theorem state2_measure_basis_witness:
  "fst (qstate2_measure (rnd_prec 53) 7 \<lparr>s2_amp = [0, 0, 0, 1], s2_measured = False, s2_result = 0\<rparr>) = 3 \<and>
   fst (qstate2_measure (rnd_prec 53) 0 \<lparr>s2_amp = [0, 0, 0, 1], s2_measured = False, s2_result = 0\<rparr>) = 0"
  using state2_measure_basis [OF fp_rounding_rnd_prec, of 53 3 "\<lparr>s2_amp = [0, 0, 0, 1], s2_measured = False, s2_result = 0\<rparr>" 7]
    state2_measure_basis [OF fp_rounding_rnd_prec, of 53 3 "\<lparr>s2_amp = [0, 0, 0, 1], s2_measured = False, s2_result = 0\<rparr>" 0]
  by (simp add: RAND_MAX_def numeral_eq_Suc)

text \<open>A Bell pair has two outcomes.\<close>

lemma pick_bell:
  assumes "fp_rounding p rnd"
  shows "pick_loop rnd r 0 0 [h, 0, 0, k] \<in> {0, 3}"
proof -
  note r = fp_rounding.rnd_0 [OF assms] fp_rounding.rnd_rnd [OF assms]
  show ?thesis by (simp add: r Let_def)
qed

definition bell_program :: "string \<Rightarrow> string \<Rightarrow> stmt list" where
  "bell_program a b =
     [Qbit a TOKEN_STATE_0 ''|0>'', Qbit b TOKEN_STATE_0 ''|0>'', Hadamard a, Cnot a b, Measure a, Say_name a, Say_name b]"

text \<open>
  The Bell program ends with equal bits: for any two names, any random numbers and any rounding, the two
  qubits are reported as the same bit.
\<close>

lemma bell_run:
  assumes "fp_rounding p rnd" and "a \<noteq> b"
  shows "\<exists>bit out. bit < 2 \<and>
     sv_out (run_state2_bytecode rnd rand (concat (map gen (bell_program a b)))) = out @ [S2_bit bit, S2_bit bit]"
proof -
  note r = fp_rounding.rnd_0 [OF assms(1)] fp_rounding.rnd_1 [OF assms(1)]
  define h where "h = rnd (1 / rnd (sqrt 2))"
  define k where "k = pick_loop rnd (rnd (of_int (rand 0) / of_int RAND_MAX)) 0 0 [h, 0, 0, h]"
  have "k = 0 \<or> k = 3" using pick_bell [OF assms(1), of _ h h] unfolding k_def by blast
  then have k: "k div 2 mod 2 = k mod 2" by auto
  have amp: "s2_amp (qstate2_cnot_first_to_second (qstate2_h_first rnd \<lparr>s2_amp = [1, 0, 0, 0], s2_measured = False, s2_result = 0\<rparr>)) =
      [h, 0, 0, h]"
    by (simp add: qstate2_h_first_def qstate2_cnot_first_to_second_def r h_def Let_def)
  have "\<exists>out. sv_out (run_state2_bytecode rnd rand (concat (map gen (bell_program a b)))) =
      out @ [S2_bit (k div 2 mod 2), S2_bit (k mod 2)]"
    using assms(2) by (simp add: run_state2_bytecode_def bell_program_def state2_vm_init_def sv_say_def
        qstate2_measure_def amp k_def Let_def del: pick_loop.simps)
  then show ?thesis unfolding k by (intro exI [of _ "k mod 2"]) auto
qed

end
