(* ===== verification/Runner.thy ===== *)
theory Runner
  imports Byte_VM_Correct State2
begin

text \<open>
  The runner \<^verbatim>\<open>src/src/qnova.c\<close>: it reads a source file, takes it through lexer, parser and compiler and
  runs the bytecode on one of the two virtual machines.  The files are a partial function from
  paths to contents, \<open>alloc\<close> says whether \<^verbatim>\<open>malloc\<close> finds memory for the contents, \<open>rand\<close> gives the
  numbers that follow the last call of \<^verbatim>\<open>srand\<close>, and \<open>fuel\<close> bounds the rounds of the bytecode machine.
\<close>

section \<open>The program\<close>

datatype run_line =
    R_usage
  | R_not_found string
  | R_no_memory
  | R_mode string
  | R_bytecode "(nat \<times> string \<times> string option \<times> string option \<times> int option) list"
  | R_byte_vm "vm_line list"
  | R_state2 "s2_line list"

text \<open>The text of a file as a C string, or the message about it.\<close>

definition read_file :: "(string \<Rightarrow> string option) \<Rightarrow> bool \<Rightarrow> string \<Rightarrow> run_line + string" where
  "read_file files alloc path =
     (case files path of
        None \<Rightarrow> Inl (R_not_found path)
      | Some contents \<Rightarrow> if alloc then Inr (cstr contents) else Inl R_no_memory)"

fun strstr :: "string \<Rightarrow> string \<Rightarrow> nat option" where
  "strstr [] w = (if w = [] then Some 0 else None)"
| "strstr (c # s) w = (if take (length w) (c # s) = w then Some 0 else map_option Suc (strstr s w))"

definition wants_state2 :: "string \<Rightarrow> bool" where
  "wants_state2 source \<longleftrightarrow> strstr source ''@quantum.state2'' \<noteq> None"

definition qnova_main ::
  "(real \<Rightarrow> real) \<Rightarrow> (nat \<Rightarrow> int) \<Rightarrow> (string \<Rightarrow> string option) \<Rightarrow> bool \<Rightarrow> nat \<Rightarrow> string list \<Rightarrow>
     tool_error + int \<times> run_line list" where
  "qnova_main rnd rand files alloc fuel argv =
     (case argv of
        _ # path # _ \<Rightarrow>
          (case read_file files alloc path of
             Inl line \<Rightarrow> Inr (1, [line])
           | Inr source \<Rightarrow>
               ebind (tokenize source) (\<lambda>tokens.
               ebind (parse tokens) (\<lambda>tree.
               ebind (compile (node_body tree) code_init) (\<lambda>st.
                 let use_state2 = wants_state2 source;
                     start = [R_mode (if use_state2 then ''STATE2'' else ''BYTE_VM''), R_bytecode (print_bytecode st)]
                 in if use_state2 then Inr (0, start @ [R_state2 (sv_out (run_state2_bytecode rnd rand (code st)))])
                    else ebind (run_bytecode rnd rand fuel (code st) vm_init) (\<lambda>s.
                           Inr (0, start @ [R_byte_vm (vm_out s)]))))))
      | _ \<Rightarrow> Inr (0, [R_usage]))"

section \<open>Programs run as they mean\<close>

definition listing :: "ins list \<Rightarrow> (nat \<times> string \<times> string option \<times> string option \<times> int option) list" where
  "listing prog =
     map (\<lambda>(i, op, a, b, v). (i, op_name op, if a \<noteq> [] then Some a else None, if b \<noteq> [] then Some b else None,
            if v \<noteq> 0 then Some v else None)) (zip [0..<length prog] prog)"

lemma print_bytecode_listing:
  assumes "wf_code st"
  shows "print_bytecode st = listing (code st)"
proof (rule nth_equalityI)
  have "instr_count st \<le> length (bytecode st)" using assms by (simp add: wf_code_def)
  then show "length (print_bytecode st) = length (listing (code st))"
    by (simp add: print_bytecode_def listing_def code_def)
  fix i assume "i < length (print_bytecode st)"
  then show "print_bytecode st ! i = listing (code st) ! i"
    using \<open>instr_count st \<le> length (bytecode st)\<close>
    by (simp add: print_bytecode_def listing_def code_def view_def Let_def)
qed

lemma cstr_id: "CHR 0x00 \<notin> set s \<Longrightarrow> cstr s = s"
  by (auto simp: cstr_def takeWhile_eq_all_conv)

lemma strstr_prefix: "strstr (w @ s) w = Some 0"
proof -
  have "take (length w) (w @ s) = w" by simp
  then show ?thesis by (cases "w @ s") (auto simp del: take_append)
qed

text \<open>The runner up to the choice of the machine, for a program that fits the tables.\<close>

lemma qnova_compiled:
  assumes "printable ds p" and "list_all fits p" and "length (concat (map gen p)) \<le> MAX_INSTR"
    and "CHR 0x00 \<notin> set (source_of ds p)" and "files path = Some (source_of ds p)"
  shows "qnova_main rnd rand files True fuel [prog, path] =
     (if wants_state2 (source_of ds p)
      then Inr (0, [R_mode ''STATE2'', R_bytecode (listing (concat (map gen p))),
             R_state2 (sv_out (run_state2_bytecode rnd rand (concat (map gen p))))])
      else ebind (run_bytecode rnd rand fuel (concat (map gen p)) vm_init) (\<lambda>s.
             Inr (0, [R_mode ''BYTE_VM'', R_bytecode (listing (concat (map gen p))), R_byte_vm (vm_out s)])))"
proof -
  obtain st where st: "compile (node_body (ast_program p)) code_init = Inr st" "wf_code st" "code st = concat (map gen p)"
    using compile_program_code [OF assms(2,3)] by blast
  obtain ts where ts: "tokenize (source_of ds p) = Inr ts" "parse ts = Inr (ast_program p)"
    using front_end_reads [OF assms(1)] by (auto simp only: ebind_Inr_iff)
  have "read_file files True path = Inr (source_of ds p)" using assms(4,5) by (simp add: read_file_def cstr_id)
  then show ?thesis by (simp add: qnova_main_def ts st print_bytecode_listing [OF st(2)] Let_def)
qed

text \<open>
  C9: the tool chain from end to end.  For every program of the language that fits the tables of lexer,
  compiler and virtual machine, the runner on its source text ends after finitely many rounds
  and has printed the listing of the bytecode and what the program means: the
  statements executed in order, checks and repetitions as written.  When the text asks for it, the
  bytecode is run on the two-qubit state vector instead.
\<close>

theorem qnova_runs_program:
  assumes "printable ds p" and "list_all fits p" and "length (concat (map gen p)) \<le> 1024"
    and "depth_of p \<le> 64" and "CHR 0x00 \<notin> set (source_of ds p)" and "files path = Some (source_of ds p)"
  shows "\<exists>n. \<forall>fuel \<ge> n. qnova_main rnd rand files True fuel [prog, path] =
     (if wants_state2 (source_of ds p)
      then Inr (0, [R_mode ''STATE2'', R_bytecode (listing (concat (map gen p))),
             R_state2 (sv_out (run_state2_bytecode rnd rand (concat (map gen p))))])
      else ebind (exec_list rnd rand p vm_init) (\<lambda>s.
             Inr (0, [R_mode ''BYTE_VM'', R_bytecode (listing (concat (map gen p))), R_byte_vm (vm_out s)])))"
proof -
  have "depth_of p \<le> REPEAT_STACK" using assms(4) by (simp add: REPEAT_STACK_def)
  then obtain n where n: "\<And>fuel. fuel \<ge> n \<Longrightarrow>
      run_bytecode rnd rand fuel (concat (map gen p)) vm_init = exec_list rnd rand p vm_init"
    using run_program by blast
  have "length (concat (map gen p)) \<le> MAX_INSTR" using assms(3) by (simp add: MAX_INSTR_def)
  note run = qnova_compiled [where files = files and path = path and rnd = rnd and rand = rand and prog = prog, OF assms(1,2) this assms(5,6)]
  show ?thesis by (rule exI [of _ n]) (simp add: run n)
qed

definition hello_program :: "stmt list" where
  "hello_program = [Let ''n'' ''2'', Check ''n'' TOKEN_GT ''>'' ''1'' [Say_text ''hi'', Say_name ''n'']]"

lemma hello_printable: "printable [] hello_program"
  by (simp add: printable_def hello_program_def name_tok_def tok_def keyword_type_def lexeme_ok_def is_word_def
      is_fixed_def fixed_token_def char_class_defs)

lemma hello_source: "source_of [] hello_program = ''let n = 2 check n > 1 { say '' @ [CHR 0x22] @ ''hi'' @ [CHR 0x22] @ '' say n } ''"
  by (simp add: source_of_def hello_program_def name_tok_def tok_def keyword_type_def show_token_def)

lemma hello_runs: "exec_list id (\<lambda>_. 0) hello_program vm_init =
    Inr (vm_init\<lparr>vm_vars := [\<lparr>var_name = ''n'', var_value = Finite 2\<rparr>], vm_out := [L_text ''hi'', L_number (Finite 2)]\<rparr>)"
  using atof_digits [of "''2''" id] to_double_int [of id 2]
  by (simp add: hello_program_def vm_init_def digits_def char_class_defs digits_value_def set_var_def find_var_def
      MAX_VM_VARS_def vm_check_def number_of_def atoi_def vm_say_def find_qbit_def say_def)

theorem qnova_runs_program_witness:
  "\<exists>n listed. \<forall>fuel \<ge> n. qnova_main id (\<lambda>_. 0) [''hello.qn'' \<mapsto> source_of [] hello_program] True fuel [''qnova'', ''hello.qn''] =
     Inr (0, [R_mode ''BYTE_VM'', R_bytecode listed, R_byte_vm [L_text ''hi'', L_number (Finite 2)]])"
proof -
  have "\<not> wants_state2 (source_of [] hello_program)" by (simp add: wants_state2_def hello_source)
  moreover have "list_all fits hello_program" "length (concat (map gen hello_program)) \<le> 1024" "depth_of hello_program \<le> 64"
    by (simp_all add: hello_program_def arg_fits_def num_fits_def atoi_def digits_value_def char_class_defs depth_of_def)
  ultimately show ?thesis
    using qnova_runs_program [OF hello_printable, of "[''hello.qn'' \<mapsto> source_of [] hello_program]" "''hello.qn''" id "\<lambda>_. 0" "''qnova''"]
    by (auto simp: hello_runs hello_source)
qed

section \<open>The Bell program\<close>

lemma wants_state2_directive: "wants_state2 (source_of (''quantum.state2'' # ds) p)"
proof -
  have "source_of (''quantum.state2'' # ds) p = ''@quantum.state2'' @ drop 15 (source_of (''quantum.state2'' # ds) p)"
    by (simp add: source_of_def tok_def show_token_def)
  then show ?thesis using strstr_prefix unfolding wants_state2_def by (metis option.distinct(1))
qed

text \<open>
  C27: the Bell program prints equal bits.  Two qubits prepared as 0, a Hadamard on the first, a controlled-not
  onto the second and a measurement, run under \<^verbatim>\<open>@quantum.state2\<close>: for any two names, any random number and
  any floating-point rounding, the runner ends and the two qubits are reported as the same bit.
\<close>

theorem qnova_bell:
  assumes "fp_rounding p rnd" and "a \<noteq> b" and "arg_fits a" and "arg_fits b"
    and "printable [''quantum.state2''] (bell_program a b)"
    and "files path = Some (source_of [''quantum.state2''] (bell_program a b))"
  shows "\<exists>bit out. bit < 2 \<and> qnova_main rnd rand files True fuel [prog, path] =
     Inr (0, [R_mode ''STATE2'', R_bytecode (listing (concat (map gen (bell_program a b)))),
              R_state2 (out @ [S2_bit bit, S2_bit bit])])"
proof -
  have f: "list_all fits (bell_program a b)" "length (concat (map gen (bell_program a b))) \<le> MAX_INSTR"
    using assms(3,4) by (simp_all add: bell_program_def arg_fits_def MAX_INSTR_def)
  have "CHR 0x00 \<notin> set (source_of [''quantum.state2''] (bell_program a b))"
    using assms(3,4) by (simp add: source_of_def bell_program_def name_tok_def tok_def show_token_def arg_fits_def)
  from qnova_compiled [where files = files and path = path and rnd = rnd and rand = rand and prog = prog and fuel = fuel,
      OF assms(5) f this assms(6)] bell_run [OF assms(1,2), of rand]
  show ?thesis by (auto simp: wants_state2_directive)
qed

theorem qnova_bell_witness:
  "\<exists>bit out listed. bit < 2 \<and>
     qnova_main (rnd_prec 53) (\<lambda>_. 1234567) [''bell.qn'' \<mapsto> source_of [''quantum.state2''] (bell_program ''a'' ''b'')] True 0
       [''qnova'', ''bell.qn''] =
     Inr (0, [R_mode ''STATE2'', R_bytecode listed, R_state2 (out @ [S2_bit bit, S2_bit bit])])"
proof -
  have "printable [''quantum.state2''] (bell_program ''a'' ''b'')"
    by (simp add: printable_def bell_program_def name_tok_def tok_def keyword_type_def lexeme_ok_def is_word_def
      is_fixed_def fixed_token_def char_class_defs)
  from qnova_bell [OF fp_rounding_rnd_prec _ _ _ this,
      of 53 "[''bell.qn'' \<mapsto> source_of [''quantum.state2''] (bell_program ''a'' ''b'')]" "''bell.qn''" "\<lambda>_. 1234567" 0 "''qnova''"]
  show ?thesis by (auto simp: arg_fits_def)
qed

end
