(* ===== verification/Qasm.thy ===== *)
theory Qasm
  imports Runner
begin

text \<open>
  The OpenQASM exporter, \<^verbatim>\<open>src/src/tools/qasm_export.c\<close>: it compiles a source file and prints the gates of
  the bytecode as a circuit over numbered qubits.
\<close>

section \<open>The exporter\<close>

definition MAX_QASM_QBITS :: nat where "MAX_QASM_QBITS = 32"

text \<open>The lines it prints; the first three go to the error stream.\<close>

datatype qasm_line =
    Q_too_many
  | Q_no_qbits
  | Q_file run_line
  | Q_usage
  | Q_header
  | Q_sizes nat \<comment> \<open>\<^verbatim>\<open>qubit[n] q; bit[n] c;\<close>\<close>
  | Q_name string nat
  | Q_h int
  | Q_cx int int
  | Q_measure int
  | Q_unknown string "string list"
  | Q_entangle string string

definition qbit_index :: "string list \<Rightarrow> string \<Rightarrow> int" where
  "qbit_index qnames name = (case position (\<lambda>q. q = name) qnames of Some i \<Rightarrow> int i | None \<Rightarrow> - 1)"

text \<open>The first loop: the table of names, or \<open>None\<close> when it gives up.\<close>

fun collect_names :: "string list \<Rightarrow> ins list \<Rightarrow> string list option" where
  "collect_names qnames [] = Some qnames"
| "collect_names qnames ((op, arg1, arg2, v) # is) =
     (if op = OP_QBIT
      then if length qnames \<ge> MAX_QASM_QBITS then None
           else collect_names (if qbit_index qnames arg1 = - 1 then qnames @ [take 63 arg1] else qnames) is
      else collect_names qnames is)"

text \<open>The second loop.\<close>

fun export_gate :: "string list \<Rightarrow> ins \<Rightarrow> qasm_line list" where
  "export_gate qnames (OP_HADAMARD, arg1, arg2, v) =
     (let q = qbit_index qnames arg1 in [if q \<ge> 0 then Q_h q else Q_unknown ''h'' [arg1]])"
| "export_gate qnames (OP_CNOT, arg1, arg2, v) =
     (let control = qbit_index qnames arg1; target = qbit_index qnames arg2
      in [if control \<ge> 0 \<and> target \<ge> 0 then Q_cx control target else Q_unknown ''cx'' [arg1, arg2]])"
| "export_gate qnames (OP_MEASURE, arg1, arg2, v) =
     (let q = qbit_index qnames arg1 in [if q \<ge> 0 then Q_measure q else Q_unknown ''measure'' [arg1]])"
| "export_gate qnames (OP_ENTANGLE, arg1, arg2, v) = [Q_entangle arg1 arg2]"
| "export_gate qnames (_, arg1, arg2, v) = []"

definition export_openqasm :: "ins list \<Rightarrow> qasm_line list" where
  "export_openqasm prog =
     (case collect_names [] prog of
        None \<Rightarrow> [Q_too_many]
      | Some qnames \<Rightarrow>
          if qnames = [] then [Q_no_qbits]
          else Q_header # Q_sizes (length qnames) # map (\<lambda>i. Q_name (qnames ! i) i) [0..<length qnames] @
               concat (map (export_gate qnames) prog))"

definition qasm_main :: "(string \<Rightarrow> string option) \<Rightarrow> bool \<Rightarrow> string list \<Rightarrow> tool_error + int \<times> qasm_line list" where
  "qasm_main files alloc argv =
     (case argv of
        _ # path # _ \<Rightarrow>
          (case read_file files alloc path of
             Inl line \<Rightarrow> Inr (1, [Q_file line])
           | Inr source \<Rightarrow>
               ebind (tokenize source) (\<lambda>tokens.
               ebind (parse tokens) (\<lambda>tree.
               ebind (compile (node_body tree) code_init) (\<lambda>st. Inr (0, export_openqasm (code st))))))
      | _ \<Rightarrow> Inr (0, [Q_usage]))"

section \<open>The table of names\<close>

text \<open>The names of the qubits a piece of code declares, and the gates in it.\<close>

fun declared :: "ins list \<Rightarrow> string list" where
  "declared [] = []"
| "declared ((op, a, b, v) # is) = (if op = OP_QBIT then a # declared is else declared is)"

datatype gate = G_h string | G_cx string string | G_measure string

fun gates_of :: "ins list \<Rightarrow> gate list" where
  "gates_of [] = []"
| "gates_of ((op, a, b, v) # is) =
     (case op of OP_HADAMARD \<Rightarrow> [G_h a] | OP_CNOT \<Rightarrow> [G_cx a b] | OP_MEASURE \<Rightarrow> [G_measure a] | _ \<Rightarrow> []) @ gates_of is"

fun gate_names :: "gate \<Rightarrow> string list" where
  "gate_names (G_h a) = [a]"
| "gate_names (G_cx a b) = [a, b]"
| "gate_names (G_measure a) = [a]"

text \<open>A line of the circuit as a gate on the names of the table.\<close>

fun read_line :: "string list \<Rightarrow> qasm_line \<Rightarrow> gate list" where
  "read_line qnames (Q_h i) = [G_h (qnames ! nat i)]"
| "read_line qnames (Q_cx i j) = [G_cx (qnames ! nat i) (qnames ! nat j)]"
| "read_line qnames (Q_measure i) = [G_measure (qnames ! nat i)]"
| "read_line qnames _ = []"

fun indices :: "qasm_line \<Rightarrow> int list" where
  "indices (Q_h i) = [i]"
| "indices (Q_cx i j) = [i, j]"
| "indices (Q_measure i) = [i]"
| "indices _ = []"

lemma qbit_index_None: "qbit_index qs a = - 1 \<longleftrightarrow> a \<notin> set qs"
  by (auto simp: qbit_index_def position_None split: option.split dest: position_Some)

lemma qbit_index_Some: "a \<in> set qs \<Longrightarrow> 0 \<le> qbit_index qs a \<and> qbit_index qs a < int (length qs) \<and> qs ! nat (qbit_index qs a) = a"
  by (auto simp: qbit_index_def position_None split: option.split dest: position_Some)

lemma qbit_index_nonneg: "0 \<le> qbit_index qs a \<longleftrightarrow> a \<in> set qs"
  using qbit_index_None [of qs a] qbit_index_Some [of a qs] by (cases "a \<in> set qs") auto

lemma collect_names_Some:
  assumes "collect_names qs prog = Some qs'" and "distinct qs" and "length qs \<le> 32" and "\<forall>a \<in> set (declared prog). length a < 64"
  shows "distinct qs' \<and> length qs' \<le> 32 \<and> set qs' = set qs \<union> set (declared prog)"
  using assms
  by (induction qs prog rule: collect_names.induct) (auto simp: MAX_QASM_QBITS_def qbit_index_None split: if_split_asm)

lemma collect_names_None:
  assumes "length qs + length (declared prog) \<le> 32"
  shows "collect_names qs prog \<noteq> None"
  using assms by (induction qs prog rule: collect_names.induct) (auto simp: MAX_QASM_QBITS_def split: if_split_asm)

lemma export_gate_indices:
  "l \<in> set (export_gate qs i) \<Longrightarrow> \<forall>k \<in> set (indices l). 0 \<le> k \<and> k < int (length qs)"
  using qbit_index_Some [of _ qs]
  by (cases "(qs, i)" rule: export_gate.cases) (auto simp: Let_def qbit_index_nonneg split: if_split_asm)

lemma export_gate_reads:
  assumes "\<forall>g \<in> set (gates_of [i]). set (gate_names g) \<subseteq> set qs"
  shows "concat (map (read_line qs) (export_gate qs i)) = gates_of [i]"
  using assms qbit_index_Some [of _ qs]
  by (cases "(qs, i)" rule: export_gate.cases) (auto simp: Let_def)

lemma gates_of_append: "gates_of (is @ js) = gates_of is @ gates_of js"
  by (induction "is" rule: gates_of.induct) simp_all

lemma export_gates_read:
  assumes "\<forall>g \<in> set (gates_of prog). set (gate_names g) \<subseteq> set qs"
  shows "concat (map (read_line qs) (concat (map (export_gate qs) prog))) = gates_of prog"
  using assms
proof (induction prog)
  case (Cons i prog)
  have g: "gates_of (i # prog) = gates_of [i] @ gates_of prog" using gates_of_append [of "[i]" prog] by simp
  have "concat (map (read_line qs) (export_gate qs i)) = gates_of [i]"
    using Cons.prems g by (intro export_gate_reads) auto
  then show ?case using Cons g by auto
qed simp

lemma declared_append: "declared (is @ js) = declared is @ declared js"
  by (induction "is" rule: declared.induct) simp_all

lemma fits_declared: "fits s \<Longrightarrow> a \<in> set (declared (gen s)) \<Longrightarrow> length a < 64"
  and fits_declared_list: "list_all fits ss \<Longrightarrow> a \<in> set (declared (concat (map gen ss))) \<Longrightarrow> length a < 64"
proof -
  have list: "length a < 64"
    if "\<And>s a. s \<in> set ss \<Longrightarrow> fits s \<Longrightarrow> a \<in> set (declared (gen s)) \<Longrightarrow> length a < 64"
      "list_all fits ss" "a \<in> set (declared (concat (map gen ss)))" for ss a
    using that by (induction ss) (auto simp: declared_append)
  show st: "fits s \<Longrightarrow> a \<in> set (declared (gen s)) \<Longrightarrow> length a < 64" for s a
    by (induction s arbitrary: a) (auto simp: declared_append arg_fits_def dest: list [rotated 1])
  show "list_all fits ss \<Longrightarrow> a \<in> set (declared (concat (map gen ss))) \<Longrightarrow> length a < 64"
    using list st by blast
qed

text \<open>
  C28: the exported circuit is the circuit of the program.  For a program that fits the tables of the
  compiler, declares between 1 and 32 qubits and applies its gates to declared ones, the exporter ends and
  prints a table of distinct names, one index each, and gate lines with indices of that table
  only, which, read through the table, are the gates of the bytecode in order.
\<close>

theorem qasm_exports_gates:
  assumes "printable ds p" and "list_all fits p" and "length (concat (map gen p)) \<le> 1024"
    and "CHR 0x00 \<notin> set (source_of ds p)" and "files path = Some (source_of ds p)"
    and "declared (concat (map gen p)) \<noteq> []" and "length (declared (concat (map gen p))) \<le> 32"
    and "\<forall>g \<in> set (gates_of (concat (map gen p))). set (gate_names g) \<subseteq> set (declared (concat (map gen p)))"
  shows "\<exists>qs lines. qasm_main files True [prog, path] =
       Inr (0, Q_header # Q_sizes (length qs) # map (\<lambda>i. Q_name (qs ! i) i) [0..<length qs] @ lines) \<and>
     distinct qs \<and> set qs = set (declared (concat (map gen p))) \<and>
     (\<forall>l \<in> set lines. \<forall>k \<in> set (indices l). 0 \<le> k \<and> k < int (length qs)) \<and>
     concat (map (read_line qs) lines) = gates_of (concat (map gen p))"
proof -
  let ?c = "concat (map gen p)"
  have "length ?c \<le> MAX_INSTR" using assms(3) by (simp add: MAX_INSTR_def)
  then obtain st where st: "compile (node_body (ast_program p)) code_init = Inr st" "code st = ?c"
    using compile_program_code [OF assms(2)] by blast
  obtain ts where ts: "tokenize (source_of ds p) = Inr ts" "parse ts = Inr (ast_program p)"
    using front_end_reads [OF assms(1)] by (auto simp only: ebind_Inr_iff)
  have "read_file files True path = Inr (source_of ds p)" using assms(4,5) by (simp add: read_file_def cstr_id)
  then have run: "qasm_main files True [prog, path] = Inr (0, export_openqasm ?c)"
    by (simp add: qasm_main_def ts st)
  obtain qs where qs: "collect_names [] ?c = Some qs" using collect_names_None [of "[]" ?c] assms(7) by auto
  then have d: "distinct qs" "set qs = set (declared ?c)"
    using collect_names_Some [OF qs] fits_declared_list [OF assms(2)] by auto
  then have "qs \<noteq> []" using assms(6) by auto
  then have "export_openqasm ?c = Q_header # Q_sizes (length qs) # map (\<lambda>i. Q_name (qs ! i) i) [0..<length qs] @
      concat (map (export_gate qs) ?c)"
    by (simp add: export_openqasm_def qs)
  moreover have "concat (map (read_line qs) (concat (map (export_gate qs) ?c))) = gates_of ?c"
    using assms(8) d(2) by (intro export_gates_read) simp
  moreover have "\<forall>l \<in> set (concat (map (export_gate qs) ?c)). \<forall>k \<in> set (indices l). 0 \<le> k \<and> k < int (length qs)"
    using export_gate_indices [of _ qs] by (simp only: set_concat set_map) blast
  ultimately show ?thesis
    using run d by (intro exI [of _ qs] exI [of _ "concat (map (export_gate qs) ?c)"] conjI) (simp_all only:)
qed

definition bell_qasm :: "stmt list" where
  "bell_qasm = [Qbit ''a'' TOKEN_STATE_0 ''|0>'', Qbit ''b'' TOKEN_STATE_0 ''|0>'', Hadamard ''a'', Cnot ''a'' ''b'', Measure ''a'']"

theorem qasm_exports_gates_witness:
  "\<exists>qs lines. qasm_main [''bell.qn'' \<mapsto> source_of [] bell_qasm] True [''qnova-qasm'', ''bell.qn''] =
       Inr (0, Q_header # Q_sizes (length qs) # map (\<lambda>i. Q_name (qs ! i) i) [0..<length qs] @ lines) \<and>
     distinct qs \<and> set qs = {''a'', ''b''} \<and>
     concat (map (read_line qs) lines) = [G_h ''a'', G_cx ''a'' ''b'', G_measure ''a'']"
proof -
  have 1: "printable [] bell_qasm"
    by (simp add: printable_def bell_qasm_def name_tok_def tok_def keyword_type_def lexeme_ok_def is_word_def
      is_fixed_def fixed_token_def char_class_defs)
  have 2: "CHR 0x00 \<notin> set (source_of [] bell_qasm)"
    by (simp add: source_of_def bell_qasm_def name_tok_def tok_def show_token_def)
  have 3: "list_all fits bell_qasm" by (simp add: bell_qasm_def arg_fits_def)
  have g: "gates_of (concat (map gen bell_qasm)) = [G_h ''a'', G_cx ''a'' ''b'', G_measure ''a'']"
      "declared (concat (map gen bell_qasm)) = [''a'', ''b'']" "length (concat (map gen bell_qasm)) = 5"
    by (simp_all add: bell_qasm_def)
  have "\<forall>g \<in> set [G_h ''a'', G_cx ''a'' ''b'', G_measure ''a'']. set (gate_names g) \<subseteq> set [''a'', ''b'']" by simp
  then obtain qs lines where "qasm_main [''bell.qn'' \<mapsto> source_of [] bell_qasm] True [''qnova-qasm'', ''bell.qn''] =
       Inr (0, Q_header # Q_sizes (length qs) # map (\<lambda>i. Q_name (qs ! i) i) [0..<length qs] @ lines)" "distinct qs"
     "set qs = set [''a'', ''b'']" "concat (map (read_line qs) lines) = [G_h ''a'', G_cx ''a'' ''b'', G_measure ''a'']"
    using qasm_exports_gates [where files = "[''bell.qn'' \<mapsto> source_of [] bell_qasm]" and path = "''bell.qn''" and
        prog = "''qnova-qasm''", OF 1 3 _ 2, unfolded g] by (simp only: fun_upd_same) force
  then show ?thesis by (simp only: list.set) blast
qed

section \<open>Blocks\<close>

fun flatten :: "stmt \<Rightarrow> stmt list" where
  "flatten (Check x ty op v ss) = concat (map flatten ss)"
| "flatten (Repeat v ss) = concat (map flatten ss)"
| "flatten s = [s]"

definition visible :: "ins \<Rightarrow> bool" where
  "visible i \<longleftrightarrow> fst i \<notin> {OP_CHECK, OP_REPEAT, OP_END}"

lemma collect_names_filter: "collect_names qs prog = collect_names qs (filter visible prog)"
  by (induction qs prog rule: collect_names.induct) (auto simp: visible_def)

lemma export_gate_filter: "concat (map (export_gate qs) prog) = concat (map (export_gate qs) (filter visible prog))"
proof (induction prog)
  case (Cons i prog)
  have "\<not> visible i \<Longrightarrow> export_gate qs i = []" by (cases i) (auto simp: visible_def)
  then show ?case using Cons by auto
qed simp

lemma export_filter: "export_openqasm prog = export_openqasm (filter visible prog)"
  unfolding export_openqasm_def collect_names_filter [of "[]" prog] by (simp only: export_gate_filter [of _ prog])

lemma visible_blocks [simp]: "\<not> visible (OP_CHECK, x)" "\<not> visible (OP_REPEAT, x)" "\<not> visible (OP_END, x)"
  by (simp_all add: visible_def)

lemma visible_flatten:
  "filter visible (concat (map gen (flatten s))) = filter visible (gen s)"
proof (induction s)
  case (Check x ty op v ss)
  then have "filter visible (concat (map gen (concat (map flatten ss)))) = filter visible (concat (map gen ss))"
    by (induction ss) auto
  then show ?case by simp
next
  case (Repeat v ss)
  then have "filter visible (concat (map gen (concat (map flatten ss)))) = filter visible (concat (map gen ss))"
    by (induction ss) auto
  then show ?case by simp
qed simp_all

text \<open>
  Control flow is lost: a program exports the same circuit as its statements without the checks and
  repetitions around them, so a repeated gate appears once and a conditional one always.
\<close>

theorem qasm_drops_blocks:
  "export_openqasm (concat (map gen p)) = export_openqasm (concat (map gen (concat (map flatten p))))"
proof -
  have "filter visible (concat (map gen (concat (map flatten p)))) = filter visible (concat (map gen p))"
    by (induction p) (simp_all add: visible_flatten)
  then show ?thesis using export_filter [of "concat (map gen p)"] export_filter by metis
qed

end
