(* ===== verification/Interpreter.thy ===== *)
theory Interpreter
  imports Runner
begin

text \<open>
  The interpreter that walks the syntax tree, \<^verbatim>\<open>src/src/vm/interpreter.c\<close>, and how it compares with the
  bytecode machine.  Its tables have no checks: a write past their end is the error \<open>Table_full\<close>.  It
  prints the lines of the bytecode machine, so \<open>vm_line\<close> serves for both.
\<close>

section \<open>The interpreter\<close>

definition MAX_VARS :: nat where "MAX_VARS = 64"
definition MAX_QBITS :: nat where "MAX_QBITS = 32"

record ast_qbit =
  aq_name :: string
  aq_a :: real
  aq_b :: real
  aq_measured :: bool
  aq_result :: int

record ast_state =
  as_vars :: "VMVar list"
  as_qbits :: "ast_qbit list"
  as_draws :: nat
  as_out :: "vm_line list"

definition ast_init :: ast_state where
  "ast_init = \<lparr> as_vars = [], as_qbits = [], as_draws = 0, as_out = [] \<rparr>"

definition ast_say :: "vm_line \<Rightarrow> ast_state \<Rightarrow> ast_state" where
  "ast_say l s = s\<lparr>as_out := as_out s @ [l]\<rparr>"

definition get_var :: "string \<Rightarrow> ast_state \<Rightarrow> double_value" where
  "get_var n s = (case position (\<lambda>v. var_name v = n) (as_vars s) of Some i \<Rightarrow> var_value (as_vars s ! i) | None \<Rightarrow> Finite 0)"

definition ast_set_var :: "string \<Rightarrow> double_value \<Rightarrow> ast_state \<Rightarrow> tool_error + ast_state" where
  "ast_set_var n v s =
     (case position (\<lambda>v. var_name v = n) (as_vars s) of
        Some i \<Rightarrow> Inr (s\<lparr>as_vars := (as_vars s)[i := (as_vars s ! i)\<lparr>var_value := v\<rparr>]\<rparr>)
      | None \<Rightarrow>
          if length (as_vars s) \<ge> MAX_VARS then Inl Table_full
          else if length n \<ge> 64 then Inl Argument_too_long
          else Inr (s\<lparr>as_vars := as_vars s @ [\<lparr>var_name = n, var_value = v\<rparr>]\<rparr>))"

definition get_qbit :: "string \<Rightarrow> ast_state \<Rightarrow> nat option" where
  "get_qbit n s = position (\<lambda>q. aq_name q = n) (as_qbits s)"

definition ast_create_qbit :: "(real \<Rightarrow> real) \<Rightarrow> string \<Rightarrow> string \<Rightarrow> ast_state \<Rightarrow> tool_error + ast_state" where
  "ast_create_qbit rnd n state s =
     (if length n \<ge> 64 then Inl Argument_too_long
      else let h = rnd (1 / rnd (sqrt 2));
               (a, b) = (if state = ''|0>'' then (1, 0)
                         else if state = ''|1>'' then (0, 1)
                         else if state = ''|+>'' then (h, h)
                         else if state = ''|->'' then (h, rnd (- 1 / rnd (sqrt 2)))
                         else (0, 0))
           in if length (as_qbits s) \<ge> MAX_QBITS then Inl Table_full
              else Inr (s\<lparr>as_qbits := as_qbits s @
                          [\<lparr>aq_name = n, aq_a = a, aq_b = b, aq_measured = False, aq_result = 0\<rparr>]\<rparr>))"

definition upd_ast_qbit :: "nat \<Rightarrow> (ast_qbit \<Rightarrow> ast_qbit) \<Rightarrow> ast_state \<Rightarrow> ast_state" where
  "upd_ast_qbit i f s = s\<lparr>as_qbits := (as_qbits s)[i := f (as_qbits s ! i)]\<rparr>"

definition ast_hadamard :: "(real \<Rightarrow> real) \<Rightarrow> ast_qbit \<Rightarrow> ast_qbit" where
  "ast_hadamard rnd q =
     q\<lparr>aq_a := rnd (rnd (aq_a q + aq_b q) / rnd (sqrt 2)), aq_b := rnd (rnd (aq_a q - aq_b q) / rnd (sqrt 2)),
       aq_measured := False\<rparr>"

definition ast_measure :: "(real \<Rightarrow> real) \<Rightarrow> int \<Rightarrow> ast_qbit \<Rightarrow> ast_qbit" where
  "ast_measure rnd random q =
     (let prob0 = rnd (aq_a q * aq_a q); r = rnd (of_int random / of_int RAND_MAX); result = (if r > prob0 then 1 else 0)
      in q\<lparr>aq_result := result, aq_measured := True, aq_a := (if result = 0 then 1 else 0),
           aq_b := (if result = 0 then 0 else 1)\<rparr>)"

definition ast_print_qbit :: "ast_qbit \<Rightarrow> vm_line" where
  "ast_print_qbit q = (if aq_measured q then L_basis (aq_result q) else L_amplitudes (aq_a q) (aq_b q))"

definition eval_expr :: "(real \<Rightarrow> real) \<Rightarrow> ASTNode \<Rightarrow> ast_state \<Rightarrow> tool_error + bool" where
  "eval_expr rnd node s =
     (if node_type node = NODE_BINOP
      then ebind (value_of (node_left node)) (\<lambda>l. ebind (value_of (node_right node)) (\<lambda>r.
             let left = get_var l s; right = atof rnd r; op = node_value node
             in Inr (if op = ''>'' then dbl_less right left
                     else if op = ''<'' then dbl_less left right
                     else if op = ''=='' then dbl_equal left right
                     else if op = ''>='' then dbl_less_equal right left
                     else if op = ''<='' then dbl_less_equal left right
                     else False)))
      else Inr False)"

fun execute :: "(real \<Rightarrow> real) \<Rightarrow> (nat \<Rightarrow> int) \<Rightarrow> ASTNode option \<Rightarrow> ast_state \<Rightarrow> tool_error + ast_state" where
  "execute rnd rand None s = Inr s"
| "execute rnd rand (Some (ASTNode ty v l r b n)) s =
     ebind
       (case ty of
          NODE_SAY \<Rightarrow>
            (case l of
               None \<Rightarrow> Inl Null_pointer
             | Some m \<Rightarrow>
                 Inr (case get_qbit (node_value m) s of
                        Some i \<Rightarrow> ast_say (ast_print_qbit (as_qbits s ! i)) s
                      | None \<Rightarrow>
                          if node_type m = NODE_STRING then ast_say (L_text (node_value m)) s
                          else ast_say (L_number (get_var (node_value m) s)) s))
        | NODE_LET \<Rightarrow> ebind (value_of l) (\<lambda>w. ast_set_var v (atof rnd w) s)
        | NODE_QBIT \<Rightarrow> ebind (value_of l) (\<lambda>w. ast_create_qbit rnd v w s)
        | NODE_HADAMARD \<Rightarrow>
            Inr (case get_qbit v s of Some i \<Rightarrow> upd_ast_qbit i (ast_hadamard rnd) s | None \<Rightarrow> s)
        | NODE_MEASURE \<Rightarrow>
            Inr (case get_qbit v s of
                   Some i \<Rightarrow> upd_ast_qbit i (ast_measure rnd (rand (as_draws s))) (s\<lparr>as_draws := as_draws s + 1\<rparr>)
                 | None \<Rightarrow> s)
        | NODE_CHECK \<Rightarrow>
            (case l of
               None \<Rightarrow> Inl Null_pointer
             | Some m \<Rightarrow> ebind (eval_expr rnd m s) (\<lambda>pass. if pass then execute rnd rand b s else Inr s))
        | NODE_REPEAT \<Rightarrow> ebind (atoi v) (\<lambda>k. iter (nat k) (\<lambda>s. execute rnd rand b s) s)
        | NODE_BLOCK \<Rightarrow> execute rnd rand b s
        | _ \<Rightarrow> Inr s)
       (\<lambda>s. execute rnd rand n s)"

text \<open>The memory for the file is used without a test.\<close>

definition ast_main ::
  "(real \<Rightarrow> real) \<Rightarrow> (nat \<Rightarrow> int) \<Rightarrow> (string \<Rightarrow> string option) \<Rightarrow> bool \<Rightarrow> string list \<Rightarrow>
     tool_error + int \<times> run_line list" where
  "ast_main rnd rand files alloc argv =
     (case argv of
        _ # path # _ \<Rightarrow>
          (case read_file files alloc path of
             Inl R_no_memory \<Rightarrow> Inl Null_pointer
           | Inl line \<Rightarrow> Inr (1, [line])
           | Inr source \<Rightarrow>
               ebind (tokenize source) (\<lambda>tokens.
               ebind (parse tokens) (\<lambda>tree.
               ebind (execute rnd rand (node_body tree) ast_init) (\<lambda>s. Inr (0, [R_byte_vm (as_out s)])))))
      | _ \<Rightarrow> Inr (0, [R_usage]))"

section \<open>Programs both machines agree on\<close>

text \<open>
  A statement uses declared names only, and no declaration changes the tables: \<open>V\<close> and \<open>Q\<close> are the
  variables and the qubits declared so far.
\<close>

fun scoped :: "string list \<Rightarrow> string list \<Rightarrow> stmt \<Rightarrow> bool" where
  "scoped V Q (Say_text v) = (v \<notin> set V \<and> v \<noteq> ''qmsg'')"
| "scoped V Q (Say_name x) = (x \<in> set V \<union> set Q \<and> x \<noteq> ''qmsg'')"
| "scoped V Q (Let x v) = (x \<in> set V)"
| "scoped V Q (Check x ty op v ss) =
     (x \<in> set V \<and> op \<in> set [''>'', ''<'', ''=='', ''>='', ''<=''] \<and> digits v \<and> list_all (scoped V Q) ss)"
| "scoped V Q (Repeat v ss) = list_all (scoped V Q) ss"
| "scoped V Q (Hadamard x) = (x \<in> set Q)"
| "scoped V Q (Measure x) = (x \<in> set Q \<and> x \<noteq> ''qmsg'')"
| "scoped V Q _ = False"

text \<open>Outside the blocks, a variable and a qubit may be declared, as long as there is room.\<close>

fun scoped_program :: "string list \<Rightarrow> string list \<Rightarrow> stmt list \<Rightarrow> bool" where
  "scoped_program V Q [] = True"
| "scoped_program V Q (x # p) =
     (case x of
        Let y v \<Rightarrow>
          y \<in> set V \<and> scoped_program V Q p \<or>
          y \<notin> set V \<and> length V < 64 \<and> scoped_program (V @ [y]) Q p
      | Qbit y ty st \<Rightarrow>
          y \<notin> set Q \<and> length Q < 32 \<and> st \<in> set [''|0>'', ''|1>'', ''|+>'', ''|->''] \<and> scoped_program V (Q @ [y]) p
      | _ \<Rightarrow> scoped V Q x \<and> scoped_program V Q p)"

section \<open>Numbers\<close>

lemma atoi_digits: "digits v \<Longrightarrow> atoi v = Inr n \<Longrightarrow> n = digits_value v"
  using digits_start(4) [of v] by (auto simp: atoi_def Let_def digits_start(1-3) split: if_split_asm)

lemma number_exact:
  assumes "fp_rounding p rnd" and "31 \<le> p" and "digits v" and "num_fits v"
  shows "atof rnd v = Finite (of_int (number_of v))"
proof -
  obtain n where n: "atoi v = Inr n" using assms(4) by (auto simp: num_fits_def split: sum.split_asm)
  have v: "n = digits_value v" by (rule atoi_digits [OF assms(3) n])
  have "(2 :: int) ^ 31 \<le> 2 ^ p" using assms(2) by (intro power_increasing) simp_all
  then have "\<bar>n\<bar> \<le> 2 ^ p" using atoi_range [OF n] digits_value_nonneg [of v] v by simp
  then have "rnd (of_int n) = of_int n" by (rule fp_rounding.rnd_of_int [OF assms(1)])
  then have "to_double rnd False (of_int n) = Finite (of_int n)"
    using digits_value_nonneg [of v] atoi_range [OF n] v by (intro to_double_int) simp_all
  then show ?thesis using atof_digits [OF assms(3), of rnd] n v by (simp add: number_of_def)
qed

section \<open>Agreement\<close>

definition same_qbit :: "VMQbit \<Rightarrow> ast_qbit \<Rightarrow> bool" where
  "same_qbit q r \<longleftrightarrow> aq_name r = qb_name q \<and> aq_a r = qb_a q \<and> aq_b r = qb_b q \<and> aq_measured r = qb_measured q \<and>
     (qb_measured q \<longrightarrow> aq_result r = qb_result q) \<and> qb_entangled_with q = []"

definition agree :: "string list \<Rightarrow> string list \<Rightarrow> vm \<Rightarrow> ast_state \<Rightarrow> bool" where
  "agree V Q s a \<longleftrightarrow> as_vars a = vm_vars s \<and> map var_name (vm_vars s) = V \<and>
     list_all2 same_qbit (vm_qbits s) (as_qbits a) \<and> map qb_name (vm_qbits s) = Q \<and>
     as_draws a = vm_draws s \<and> as_out a = vm_out s"

lemma position_same:
  assumes "list_all2 same_qbit qs rs"
  shows "position (\<lambda>r. aq_name r = n) rs = position (\<lambda>q. qb_name q = n) qs"
  using assms by (induction rule: list_all2_induct) (auto simp: same_qbit_def)

lemma agree_find_qbit: "agree V Q s a \<Longrightarrow> get_qbit n a = find_qbit n s"
  by (simp add: agree_def get_qbit_def find_qbit_def position_same)

lemma position_map: "position (\<lambda>x. f x = n) xs = None \<longleftrightarrow> n \<notin> set (map f xs)"
  by (auto simp: position_None)

lemma find_qbit_declared: "agree V Q s a \<Longrightarrow> n \<in> set Q \<Longrightarrow> \<exists>i. find_qbit n s = Some i \<and> i < length (vm_qbits s)"
  using position_map [of qb_name n "vm_qbits s"] find_qbit_index [of n s]
  by (cases "find_qbit n s") (auto simp: agree_def find_qbit_def)

lemma find_qbit_undeclared: "agree V Q s a \<Longrightarrow> n \<notin> set Q \<Longrightarrow> find_qbit n s = None"
  using position_map [of qb_name n "vm_qbits s"] by (auto simp: agree_def find_qbit_def)

lemma find_var_declared: "agree V Q s a \<Longrightarrow> n \<in> set V \<Longrightarrow> \<exists>i. find_var n s = Some i \<and> i < length (vm_vars s)"
  using position_map [of var_name n "vm_vars s"] position_Some [of _ "vm_vars s"]
  by (cases "find_var n s") (auto simp: agree_def find_var_def)

lemma find_var_undeclared: "agree V Q s a \<Longrightarrow> n \<notin> set V \<Longrightarrow> find_var n s = None"
  using position_map [of var_name n "vm_vars s"] by (auto simp: agree_def find_var_def)

lemma agree_say: "agree V Q s a \<Longrightarrow> agree V Q (say l s) (ast_say l a)"
  by (simp add: agree_def say_def ast_say_def)

lemma agree_print: "agree V Q s a \<Longrightarrow> i < length (vm_qbits s) \<Longrightarrow> ast_print_qbit (as_qbits a ! i) = print_qbit (vm_qbits s ! i)"
  by (auto simp: agree_def print_qbit_def ast_print_qbit_def same_qbit_def dest: list_all2_nthD)

lemma agree_upd_qbit:
  assumes "agree V Q s a" and "i < length (vm_qbits s)"
    and "\<And>q r. same_qbit q r \<Longrightarrow> same_qbit (f q) (g r)" and "\<And>q. qb_name (f q) = qb_name q"
  shows "agree V Q (upd_qbit i f s) (upd_ast_qbit i g a)"
proof -
  have "same_qbit (f (vm_qbits s ! i)) (g (as_qbits a ! i))"
    using assms(1,2) by (intro assms(3)) (auto simp: agree_def dest: list_all2_nthD)
  then show ?thesis
    using assms(1,2,4)
    by (auto simp: agree_def upd_qbit_def upd_ast_qbit_def map_update_same list_all2_update_cong)
qed

lemma same_hadamard: "same_qbit q r \<Longrightarrow> same_qbit (hadamard rnd q) (ast_hadamard rnd r)"
  by (auto simp: same_qbit_def hadamard_def ast_hadamard_def)

lemma same_measure: "same_qbit q r \<Longrightarrow> same_qbit (measure_qbit rnd x q) (ast_measure rnd x r)"
  by (auto simp: same_qbit_def measure_qbit_def ast_measure_def collapse_def Let_def)

lemma agree_measure:
  assumes "agree V Q s a" and "i < length (vm_qbits s)"
  shows "agree V Q (measure_linked rnd rand i s)
     (upd_ast_qbit i (ast_measure rnd (rand (as_draws a))) (a\<lparr>as_draws := as_draws a + 1\<rparr>))"
proof -
  have d: "agree V Q (s\<lparr>vm_draws := vm_draws s + 1\<rparr>) (a\<lparr>as_draws := as_draws a + 1\<rparr>)" "as_draws a = vm_draws s"
    using assms(1) by (auto simp: agree_def)
  let ?s = "upd_qbit i (measure_qbit rnd (rand (vm_draws s))) (s\<lparr>vm_draws := vm_draws s + 1\<rparr>)"
  have "agree V Q ?s (upd_ast_qbit i (ast_measure rnd (rand (vm_draws s))) (a\<lparr>as_draws := as_draws a + 1\<rparr>))"
    using assms(2) by (intro agree_upd_qbit [OF d(1)] same_measure) (simp_all add: measure_qbit_def collapse_def Let_def)
  moreover have "measure_linked rnd rand i s = ?s"
    using assms by (auto simp: measure_linked_def Let_def nth_upd_qbit agree_def same_qbit_def measure_qbit_def
        collapse_def dest!: list_all2_nthD)
  ultimately show ?thesis using d(2) by simp
qed

lemma agree_set_var:
  assumes "agree V Q s a" and "n \<in> set V"
  shows "\<exists>a'. ast_set_var n x a = Inr a' \<and> agree V Q (set_var n x s) a'"
proof -
  obtain i where i: "find_var n s = Some i" "i < length (vm_vars s)" using find_var_declared [OF assms] by blast
  then show ?thesis
    using assms(1) by (auto simp: ast_set_var_def set_var_def agree_def find_var_def map_update_same)
qed

lemma agree_new_var:
  assumes "agree V Q s a" and "n \<notin> set V" and "length V < 64" and "length n < 64"
  shows "\<exists>a'. ast_set_var n x a = Inr a' \<and> agree (V @ [n]) Q (set_var n x s) a'"
proof -
  have "find_var n s = None" by (rule find_var_undeclared [OF assms(1,2)])
  moreover have "length (vm_vars s) = length V" using assms(1) by (auto simp: agree_def)
  ultimately show ?thesis
    using assms by (auto simp: ast_set_var_def set_var_def agree_def find_var_def MAX_VARS_def MAX_VM_VARS_def)
qed

lemma agree_new_qbit:
  assumes "agree V Q s a" and "n \<notin> set Q" and "length Q < 32" and "length n < 64"
    and "st \<in> set [''|0>'', ''|1>'', ''|+>'', ''|->'']"
  shows "\<exists>a'. ast_create_qbit rnd n st a = Inr a' \<and> agree V (Q @ [n]) (create_qbit rnd n st s) a'"
proof -
  have four: "st = ''|0>'' \<or> st = ''|1>'' \<or> st = ''|+>'' \<or> st = ''|->''" using assms(5) by simp
  obtain x y where xy: "state_amplitudes rnd st = Some (x, y)"
    and a: "ast_create_qbit rnd n st a =
      (if length (as_qbits a) \<ge> MAX_QBITS then Inl Table_full
       else Inr (a\<lparr>as_qbits := as_qbits a @ [\<lparr>aq_name = n, aq_a = x, aq_b = y, aq_measured = False, aq_result = 0\<rparr>]\<rparr>))"
    using four assms(4) by (elim disjE) (simp_all add: state_amplitudes_def ast_create_qbit_def Let_def)
  have l: "length (vm_qbits s) = length Q" "length (as_qbits a) = length Q"
    using assms(1) by (auto simp: agree_def dest: list_all2_lengthD)
  have s: "create_qbit rnd n st s = upd_qbit (length Q) (\<lambda>q. q\<lparr>qb_a := x, qb_b := y, qb_measured := False, qb_result := - 1\<rparr>)
      (s\<lparr>vm_qbits := vm_qbits s @ [\<lparr>qb_name = n, qb_a = 0, qb_b = 0, qb_measured = False, qb_result = 0, qb_entangled_with = []\<rparr>]\<rparr>)"
    using find_qbit_undeclared [OF assms(1,2)] xy l assms(3) by (simp add: create_qbit_def MAX_VM_QBITS_def)
  show ?thesis
    using assms(1,3) l unfolding a s
    by (auto simp: MAX_QBITS_def agree_def upd_qbit_def same_qbit_def list_all2_appendI nth_append list_update_append)
qed

text \<open>A statement keeps the two machines in agreement.\<close>

definition tracks :: "(real \<Rightarrow> real) \<Rightarrow> (nat \<Rightarrow> int) \<Rightarrow> string list \<Rightarrow> string list \<Rightarrow> stmt \<Rightarrow> bool" where
  "tracks rnd rand V Q x \<longleftrightarrow> (\<forall>s a. agree V Q s a \<longrightarrow>
     (\<exists>s' a'. exec rnd rand x s = Inr s' \<and> execute rnd rand (Some (ast_of x)) a = Inr a' \<and> agree V Q s' a'))"

lemma ebind_Inr_right: "ebind r Inr = r"
  by (cases r) auto

lemma execute_None: "execute rnd rand None = Inr"
  by (simp add: fun_eq_iff)

lemma ebind_assoc: "ebind (ebind r f) g = ebind r (\<lambda>x. ebind (f x) g)"
  by (cases r) auto

lemma execute_with_next:
  "node_next m = None \<Longrightarrow> execute rnd rand (Some (with_next n m)) a = ebind (execute rnd rand (Some m) a) (execute rnd rand n)"
  by (cases m) (simp add: ebind_assoc ebind_Inr_right)

lemma node_next_with [simp]:
  "node_next (with_left l m) = node_next m" "node_next (with_right l m) = node_next m"
  "node_next (with_body b m) = node_next m" "node_next (new_node ty v) = None"
  by (cases m; simp add: new_node_def)+

lemma ast_of_next: "node_next (ast_of x) = None"
  by (cases x) simp_all

lemma tracks_list:
  assumes "list_all (tracks rnd rand V Q) ss" and "agree V Q s a"
  shows "\<exists>s' a'. exec_list rnd rand ss s = Inr s' \<and> execute rnd rand (chain (map ast_of ss)) a = Inr a' \<and> agree V Q s' a'"
  using assms
proof (induction ss arbitrary: s a)
  case (Cons x xs)
  obtain s1 a1 where 1: "exec rnd rand x s = Inr s1" "execute rnd rand (Some (ast_of x)) a = Inr a1" "agree V Q s1 a1"
    using Cons.prems unfolding list.pred_inject tracks_def by blast
  then show ?case using Cons.IH [OF _ 1(3)] Cons.prems(1) by (auto simp: execute_with_next ast_of_next)
qed simp

lemma execute_block: "execute rnd rand (Some (block_node ss)) a = execute rnd rand (chain ss) a"
  by (simp add: block_node_def new_node_def execute_None ebind_Inr_right)

lemma tracks_iter:
  assumes "\<And>s a. agree V Q s a \<Longrightarrow> \<exists>s' a'. f s = Inr s' \<and> g a = Inr a' \<and> agree V Q s' a'" and "agree V Q s a"
  shows "\<exists>s' a'. iter k f s = Inr s' \<and> iter k g a = Inr a' \<and> agree V Q s' a'"
  using assms(2)
proof (induction k arbitrary: s a)
  case (Suc k)
  obtain s1 a1 where "f s = Inr s1" "g a = Inr a1" "agree V Q s1 a1" using assms(1) [OF Suc.prems] by blast
  then show ?case using Suc.IH by simp
qed simp

lemma check_agrees:
  assumes "agree V Q s a" and "x \<in> set V" and "op \<in> set [''>'', ''<'', ''=='', ''>='', ''<='']"
    and "atof rnd v = Finite (of_int (number_of v))"
  shows "\<exists>pass. vm_check x op (number_of v) s = (pass, s) \<and>
     eval_expr rnd (with_right (ASTNode NODE_NUMBER v None None None None)
        (with_left (ASTNode NODE_IDENT x None None None None) (ASTNode NODE_BINOP op None None None None))) a = Inr pass"
proof -
  obtain i where i: "find_var x s = Some i" "i < length (vm_vars s)" using find_var_declared [OF assms(1,2)] by blast
  have g: "get_var x a = var_value (vm_vars s ! i)" using i assms(1) by (simp add: get_var_def agree_def find_var_def)
  have "op = ''>'' \<or> op = ''<'' \<or> op = ''=='' \<or> op = ''>='' \<or> op = ''<=''" using assms(3) by simp
  then show ?thesis
    by (elim disjE) (simp_all add: vm_check_def eval_expr_def value_of_def i g assms(4) Let_def)
qed

lemma tracksI:
  assumes "\<And>s a. agree V Q s a \<Longrightarrow>
     \<exists>s' a'. exec rnd rand x s = Inr s' \<and> execute rnd rand (Some (ast_of x)) a = Inr a' \<and> agree V Q s' a'"
  shows "tracks rnd rand V Q x"
  using assms unfolding tracks_def by blast

lemma tracks_say:
  assumes "agree V Q s a" and "v \<noteq> ''qmsg''" and "ty = NODE_STRING \<and> v \<notin> set V \<or> ty \<noteq> NODE_STRING \<and> v \<in> set V \<union> set Q"
  shows "\<exists>a'. execute rnd rand (Some (ASTNode NODE_SAY w (Some (ASTNode ty v None None None None)) None None None)) a = Inr a' \<and>
     agree V Q (vm_say v s) a'"
proof (cases "v \<in> set Q")
  case True
  obtain i where "find_qbit v s = Some i" "i < length (vm_qbits s)" using find_qbit_declared [OF assms(1) True] by blast
  then show ?thesis
    using assms(1,2) agree_find_qbit [OF assms(1)] agree_print [OF assms(1)] by (simp add: vm_say_def agree_say)
next
  case False
  have q: "find_qbit v s = None" by (rule find_qbit_undeclared [OF assms(1) False])
  show ?thesis
  proof (cases "v \<in> set V")
    case True
    obtain i where "find_var v s = Some i" using find_var_declared [OF assms(1) True] by blast
    moreover from this have "get_var v a = var_value (vm_vars s ! i)"
      using assms(1) by (simp add: get_var_def agree_def find_var_def)
    ultimately show ?thesis
      using assms True q agree_find_qbit [OF assms(1)] by (simp add: vm_say_def agree_say)
  next
    case nv: False
    then have "ty = NODE_STRING" using assms(3) False by blast
    then show ?thesis
      using assms(1,2) q agree_find_qbit [OF assms(1)] find_var_undeclared [OF assms(1) nv] by (simp add: vm_say_def agree_say)
  qed
qed

lemma tracks_stmt:
  assumes "fp_rounding p rnd" and "31 \<le> p" and "fits x" and "scoped V Q x"
  shows "tracks rnd rand V Q x"
  using assms(3,4)
proof (induction x)
  case (Say_text v)
  then show ?case
    using tracks_say [where ty = NODE_STRING and v = v and w = "''say''" and V = V and Q = Q and rnd = rnd and rand = rand]
    by (intro tracksI) (simp add: new_node_short arg_fits_short del: execute.simps)
next
  case (Say_name v)
  then show ?case
    using tracks_say [where ty = NODE_IDENT and v = v and w = "''say''" and V = V and Q = Q and rnd = rnd and rand = rand]
    by (intro tracksI) (simp add: new_node_short arg_fits_short del: execute.simps)
next
  case (Let y v)
  then show ?case
    by (intro tracksI) (simp add: new_node_short arg_fits_short value_of_def execute_None ebind_Inr_right agree_set_var)
next
  case (Check y ty op v ss)
  then have body: "list_all (tracks rnd rand V Q) ss" by (auto simp: list_all_iff)
  have num: "atof rnd v = Finite (of_int (number_of v))" using Check.prems by (intro number_exact [OF assms(1,2)]) simp_all
  show ?case
  proof (rule tracksI)
    fix s a assume ag: "agree V Q s a"
    have sc: "y \<in> set V" "op \<in> set [''>'', ''<'', ''=='', ''>='', ''<='']" using Check.prems(2) by simp_all
    obtain pass where "vm_check y op (number_of v) s = (pass, s)"
      "eval_expr rnd (with_right (ASTNode NODE_NUMBER v None None None None)
        (with_left (ASTNode NODE_IDENT y None None None None) (ASTNode NODE_BINOP op None None None None))) a = Inr pass"
      using check_agrees [OF ag sc num] by blast
    then show "\<exists>s' a'. exec rnd rand (Check y ty op v ss) s = Inr s' \<and>
        execute rnd rand (Some (ast_of (Check y ty op v ss))) a = Inr a' \<and> agree V Q s' a'"
      using tracks_list [OF body ag] ag Check.prems(1)
      by (auto simp: new_node_short arg_fits_short num_fits_def execute_block execute_None ebind_Inr_right)
  qed
next
  case (Repeat v ss)
  then have body: "list_all (tracks rnd rand V Q) ss" by (auto simp: list_all_iff)
  obtain k where k: "atoi v = Inr k" using Repeat.prems(1) by (auto simp: num_fits_def split: sum.split_asm)
  have it: "\<exists>s' a'. iter n (exec_list rnd rand ss) s = Inr s' \<and>
      iter n (execute rnd rand (Some (block_node (map ast_of ss)))) a = Inr a' \<and> agree V Q s' a'"
    if "agree V Q s a" for n s a
    by (rule tracks_iter [OF _ that]) (simp only: execute_block tracks_list [OF body])
  show ?case
    using it Repeat.prems(1) k
    by (intro tracksI) (simp add: new_node_short num_fits_def execute_None ebind_Inr_right number_of_def)
next
  case (Hadamard y)
  show ?case
  proof (rule tracksI)
    fix s a assume ag: "agree V Q s a"
    obtain i where i: "find_qbit y s = Some i" "i < length (vm_qbits s)"
      using find_qbit_declared [OF ag] Hadamard.prems by auto
    have "agree V Q (upd_qbit i (hadamard rnd) s) (upd_ast_qbit i (ast_hadamard rnd) a)"
      by (rule agree_upd_qbit [OF ag i(2) same_hadamard]) (simp_all add: hadamard_def)
    then show "\<exists>s' a'. exec rnd rand (Hadamard y) s = Inr s' \<and>
        execute rnd rand (Some (ast_of (Hadamard y))) a = Inr a' \<and> agree V Q s' a'"
      using agree_find_qbit [OF ag] i Hadamard.prems(1) by (simp add: new_node_short arg_fits_short)
  qed
next
  case (Measure y)
  show ?case
  proof (rule tracksI)
    fix s a assume ag: "agree V Q s a"
    obtain i where i: "find_qbit y s = Some i" "i < length (vm_qbits s)"
      using find_qbit_declared [OF ag] Measure.prems by auto
    then show "\<exists>s' a'. exec rnd rand (Measure y) s = Inr s' \<and>
        execute rnd rand (Some (ast_of (Measure y))) a = Inr a' \<and> agree V Q s' a'"
      using agree_find_qbit [OF ag] agree_measure [OF ag i(2)] Measure.prems
      by (simp add: new_node_short arg_fits_short)
  qed
qed simp_all

lemma program_agrees:
  assumes "fp_rounding p rnd" and "31 \<le> p" and "list_all fits xs" and "scoped_program V Q xs" and "agree V Q s a"
  shows "\<exists>s' a'. exec_list rnd rand xs s = Inr s' \<and> execute rnd rand (chain (map ast_of xs)) a = Inr a' \<and>
     as_out a' = vm_out s'"
  using assms(3-)
proof (induction xs arbitrary: V Q s a)
  case Nil
  then show ?case by (simp add: agree_def)
next
  case (Cons x xs)
  have "\<exists>V' Q' s1 a1. exec rnd rand x s = Inr s1 \<and> execute rnd rand (Some (ast_of x)) a = Inr a1 \<and> agree V' Q' s1 a1 \<and>
      scoped_program V' Q' xs"
  proof (cases "(\<exists>y v. x = Let y v \<and> y \<notin> set V) \<or> (\<exists>y ty st. x = Qbit y ty st)")
    case True
    then show ?thesis
    proof (elim disjE exE conjE)
      fix y v assume x: "x = Let y v" "y \<notin> set V"
      then have c: "length V < 64" "scoped_program (V @ [y]) Q xs" "arg_fits y" "arg_fits v"
        using Cons.prems by auto
      obtain a1 where "ast_set_var y (atof rnd v) a = Inr a1" "agree (V @ [y]) Q (set_var y (atof rnd v) s) a1"
        using agree_new_var [OF Cons.prems(3) x(2) c(1)] c(3) by (auto simp: arg_fits_def)
      then show ?thesis
        using x c by (intro exI [of _ "V @ [y]"] exI [of _ Q])
          (simp add: new_node_short arg_fits_short value_of_def execute_None ebind_Inr_right)
    next
      fix y ty st assume x: "x = Qbit y ty st"
      then have c: "y \<notin> set Q" "length Q < 32" "st \<in> set [''|0>'', ''|1>'', ''|+>'', ''|->'']" "scoped_program V (Q @ [y]) xs"
          "arg_fits y" "arg_fits st"
        using Cons.prems by auto
      have "length y < 64" using c(5) by (simp add: arg_fits_def)
      then obtain a1 where "ast_create_qbit rnd y st a = Inr a1" "agree V (Q @ [y]) (create_qbit rnd y st s) a1"
        using agree_new_qbit [OF Cons.prems(3) c(1,2) _ c(3)] by blast
      then show ?thesis
        using x c(4-6) by (intro exI [of _ V] exI [of _ "Q @ [y]"])
          (simp add: new_node_short arg_fits_short value_of_def execute_None ebind_Inr_right)
    qed
  next
    case False
    then have "scoped V Q x" "scoped_program V Q xs" "fits x" using Cons.prems by (auto split: stmt.split_asm)
    then show ?thesis using tracks_stmt [OF assms(1,2)] Cons.prems(3) unfolding tracks_def by blast
  qed
  then obtain V' Q' s1 a1 where 1: "exec rnd rand x s = Inr s1" "execute rnd rand (Some (ast_of x)) a = Inr a1"
      "agree V' Q' s1 a1" "scoped_program V' Q' xs" by blast
  then show ?case
    using Cons.IH [OF _ 1(4,3)] Cons.prems(1) by (simp add: execute_with_next ast_of_next)
qed

text \<open>
  C11: the two ways to run a program agree on the programs that fit the fields and the repeat stack of the bytecode machine and
  satisfy \<open>scoped_program\<close>: they have no \<^verbatim>\<open>cnot\<close>,
  \<^verbatim>\<open>entangle\<close>, message or hardware statement (the interpreter knows none of them); every variable and every qubit is
  declared before its first use and outside the blocks, at most 64 and 32 of them, each qubit once and with one of the four
  states; no text to be said is the name of a variable; \<^verbatim>\<open>qmsg\<close> is not a name; and checks compare
  with one of the five operators and a number in digits.  On these the interpreter and the bytecode machine
  print the same lines: both end without an error, for the same random numbers, in any floating-point arithmetic that has the
  32-bit integers.  The theorem \<open>interpreters_differ\<close> shows programs outside these bounds on which they do not.
\<close>

theorem interpreter_agrees:
  assumes "fp_rounding p rnd" and "31 \<le> p" and "list_all fits xs" and "scoped_program [] [] xs" and "depth_of xs \<le> 64"
  shows "\<exists>n s a. execute rnd rand (node_body (ast_program xs)) ast_init = Inr a \<and>
     (\<forall>fuel \<ge> n. run_bytecode rnd rand fuel (concat (map gen xs)) vm_init = Inr s) \<and> as_out a = vm_out s"
proof -
  have "agree [] [] vm_init ast_init" by (simp add: agree_def vm_init_def ast_init_def)
  from program_agrees [OF assms(1-4) this, of rand]
  obtain s a where "exec_list rnd rand xs vm_init = Inr s" "execute rnd rand (chain (map ast_of xs)) ast_init = Inr a"
    "as_out a = vm_out s" by blast
  moreover have "node_body (ast_program xs) = chain (map ast_of xs)" by (simp add: ast_program_def new_node_def)
  moreover have "depth_of xs \<le> REPEAT_STACK" using assms(5) by (simp add: REPEAT_STACK_def)
  then obtain n where "\<forall>fuel \<ge> n. run_bytecode rnd rand fuel (concat (map gen xs)) vm_init = exec_list rnd rand xs vm_init"
    using run_program by blast
  ultimately show ?thesis by auto
qed

definition coin_program :: "stmt list" where
  "coin_program = [Qbit ''q'' TOKEN_STATE_0 ''|0>'', Let ''n'' ''2'', Repeat ''3'' [Hadamard ''q'', Measure ''q'', Say_name ''q''],
     Check ''n'' TOKEN_GT ''>'' ''1'' [Say_text ''done'', Let ''n'' ''0''], Say_name ''n'']"

theorem interpreter_agrees_witness:
  "\<exists>n s a. execute (rnd_prec 53) (\<lambda>k. int k) (node_body (ast_program coin_program)) ast_init = Inr a \<and>
     (\<forall>fuel \<ge> n. run_bytecode (rnd_prec 53) (\<lambda>k. int k) fuel (concat (map gen coin_program)) vm_init = Inr s) \<and>
     as_out a = vm_out s"
  by (rule interpreter_agrees [OF fp_rounding_rnd_prec])
    (simp_all add: coin_program_def arg_fits_def num_fits_def atoi_def digits_value_def char_class_defs digits_def depth_of_def)

text \<open>
  Where the two differ: a text that is the name of a variable is said as the value of the variable by the bytecode
  machine and as it stands by the interpreter; a \<^verbatim>\<open>cnot\<close> is reported by the bytecode machine and ignored by the
  interpreter; an unknown name is said as a text by the bytecode machine and as the number 0 by the interpreter.
\<close>

lemma atof_one: "atof id ''1'' = Finite 1"
  using atof_digits [of "''1''" id] to_double_int [of id 1] by (simp add: digits_def char_class_defs digits_value_def)

theorem interpreters_differ:
  "execute id (\<lambda>_. 0) (node_body (ast_program [Let ''x'' ''1'', Say_text ''x''])) ast_init =
     Inr (ast_init\<lparr>as_vars := [\<lparr>var_name = ''x'', var_value = Finite 1\<rparr>], as_out := [L_text ''x'']\<rparr>) \<and>
   exec_list id (\<lambda>_. 0) [Let ''x'' ''1'', Say_text ''x''] vm_init =
     Inr (vm_init\<lparr>vm_vars := [\<lparr>var_name = ''x'', var_value = Finite 1\<rparr>], vm_out := [L_number (Finite 1)]\<rparr>) \<and>
   execute id (\<lambda>_. 0) (node_body (ast_program [Cnot ''a'' ''b''])) ast_init = Inr ast_init \<and>
   exec_list id (\<lambda>_. 0) [Cnot ''a'' ''b''] vm_init =
     Inr (vm_init\<lparr>vm_out := [L_error ''cannot CNOT missing qbit'' [''a'', ''b'']]\<rparr>) \<and>
   execute id (\<lambda>_. 0) (node_body (ast_program [Say_name ''x''])) ast_init = Inr (ast_init\<lparr>as_out := [L_number (Finite 0)]\<rparr>) \<and>
   exec_list id (\<lambda>_. 0) [Say_name ''x''] vm_init = Inr (vm_init\<lparr>vm_out := [L_text ''x'']\<rparr>)"
proof (intro conjI)
  note defs = ast_program_def new_node_def value_of_def ast_init_def ast_set_var_def MAX_VARS_def get_qbit_def get_var_def
    ast_say_def vm_init_def set_var_def find_var_def find_qbit_def MAX_VM_VARS_def vm_say_def say_def cnot_qbits_def atof_one
  show "execute id (\<lambda>_. 0) (node_body (ast_program [Let ''x'' ''1'', Say_text ''x''])) ast_init =
     Inr (ast_init\<lparr>as_vars := [\<lparr>var_name = ''x'', var_value = Finite 1\<rparr>], as_out := [L_text ''x'']\<rparr>)"
    by (simp add: defs)
  show "exec_list id (\<lambda>_. 0) [Let ''x'' ''1'', Say_text ''x''] vm_init =
     Inr (vm_init\<lparr>vm_vars := [\<lparr>var_name = ''x'', var_value = Finite 1\<rparr>], vm_out := [L_number (Finite 1)]\<rparr>)"
    by (simp add: defs)
  show "execute id (\<lambda>_. 0) (node_body (ast_program [Cnot ''a'' ''b''])) ast_init = Inr ast_init" by (simp add: defs)
  show "exec_list id (\<lambda>_. 0) [Cnot ''a'' ''b''] vm_init =
     Inr (vm_init\<lparr>vm_out := [L_error ''cannot CNOT missing qbit'' [''a'', ''b'']]\<rparr>)" by (simp add: defs)
  show "execute id (\<lambda>_. 0) (node_body (ast_program [Say_name ''x''])) ast_init = Inr (ast_init\<lparr>as_out := [L_number (Finite 0)]\<rparr>)"
    by (simp add: defs)
  show "exec_list id (\<lambda>_. 0) [Say_name ''x''] vm_init = Inr (vm_init\<lparr>vm_out := [L_text ''x'']\<rparr>)" by (simp add: defs)
qed

text \<open>
  A qubit declared again is a new entry, so the table of 32 qubits overflows on the 33rd execution of a
  declaration; the bytecode machine prepares the qubit it has.
\<close>

lemma redeclare_overflows:
  assumes "length (as_qbits a) + n = 33" and "length (as_qbits a) \<le> 32"
  shows "iter n (execute rnd rand (Some (block_node [ast_of (Qbit ''q'' TOKEN_STATE_0 ''|0>'')]))) a = Inl Table_full"
  using assms
proof (induction n arbitrary: a)
  case (Suc n)
  show ?case
  proof (cases "length (as_qbits a) = 32")
    case True
    then show ?thesis by (simp add: execute_block new_node_def value_of_def ast_create_qbit_def MAX_QBITS_def)
  next
    case False
    then show ?thesis
      using Suc by (simp add: execute_block new_node_def value_of_def ast_create_qbit_def MAX_QBITS_def)
  qed
qed simp

theorem interpreter_overflows:
  "execute rnd rand (node_body (ast_program [Repeat ''33'' [Qbit ''q'' TOKEN_STATE_0 ''|0>'']])) ast_init = Inl Table_full"
  using redeclare_overflows [of ast_init 33 rnd rand]
  by (simp add: ast_program_def new_node_def ast_init_def atoi_def digits_value_def char_class_defs)

end
