(* ===== verification/StateN.thy ===== *)
theory StateN
  imports Compiler Ghz
begin

text \<open>
  The stand-alone GHZ program \<^verbatim>\<open>src/src/quantum/stateN.c\<close>: a real state vector of 2 to 16 qubits.
  Arithmetic is rounded by \<open>rnd\<close>, \<open>random\<close> is what \<^verbatim>\<open>rand()\<close> returns and \<open>alloc\<close> whether \<^verbatim>\<open>calloc\<close> finds memory.
\<close>

unbundle bit_operations_syntax

section \<open>The program\<close>

datatype staten_line =
    N_alloc_failed
  | N_sizes nat nat
  | N_state "(string \<times> real) list"
  | N_measure string

definition print_bits :: "nat \<Rightarrow> nat \<Rightarrow> string" where
  "print_bits index n = map (\<lambda>j. if odd (drop_bit (n - 1 - j) index) then CHR ''1'' else CHR ''0'') [0..<n]"

definition h_gate_step :: "(real \<Rightarrow> real) \<Rightarrow> nat \<Rightarrow> real list \<Rightarrow> nat \<Rightarrow> real list" where
  "h_gate_step rnd p amp i =
     (if odd (drop_bit p i) then amp
      else let j = i OR push_bit p 1; a = amp ! i; b = amp ! j; inv = rnd (1 / rnd (sqrt 2))
           in amp[i := rnd (rnd (a + b) * inv), j := rnd (rnd (a - b) * inv)])"

definition h_gate :: "(real \<Rightarrow> real) \<Rightarrow> nat \<Rightarrow> nat \<Rightarrow> real list \<Rightarrow> real list" where
  "h_gate rnd n q amp = foldl (h_gate_step rnd (n - 1 - q)) amp [0..<push_bit n 1]"

text \<open>The loop of \<^verbatim>\<open>cnot\<close> is also that of the circuit machine, on complex amplitudes.\<close>

definition cnot_step :: "nat \<Rightarrow> nat \<Rightarrow> 'a list \<Rightarrow> nat \<Rightarrow> 'a list" where
  "cnot_step pc pt amp i =
     (if \<not> odd (drop_bit pc i) then amp
      else if odd (drop_bit pt i) then amp
      else let j = i OR push_bit pt 1; tmp = amp ! i in amp[i := amp ! j, j := tmp])"

definition cnot :: "nat \<Rightarrow> nat \<Rightarrow> nat \<Rightarrow> 'a list \<Rightarrow> 'a list" where
  "cnot n c t amp = foldl (cnot_step (n - 1 - c) (n - 1 - t)) amp [0..<push_bit n 1]"

text \<open>The first index at which the running sum of probabilities reaches \<open>r\<close>, or the last index.\<close>

fun pick_index :: "(real \<Rightarrow> real) \<Rightarrow> ('a \<Rightarrow> real) \<Rightarrow> real \<Rightarrow> nat \<Rightarrow> real \<Rightarrow> nat \<Rightarrow> 'a list \<Rightarrow> nat" where
  "pick_index rnd prob r dflt acc i [] = dflt"
| "pick_index rnd prob r dflt acc i (a # as) =
     (let acc = rnd (acc + prob a) in if r \<le> acc then i else pick_index rnd prob r dflt acc (i + 1) as)"

definition staten_measure :: "(real \<Rightarrow> real) \<Rightarrow> int \<Rightarrow> nat \<Rightarrow> real list \<Rightarrow> nat \<times> real list" where
  "staten_measure rnd random dm amp =
     (let r = rnd (of_int random / of_int 2147483647);
          picked = pick_index rnd (\<lambda>a. rnd (a * a)) r (dm - 1) 0 0 (take dm amp)
      in (picked, (replicate dm 0)[picked := 1]))"

definition staten_main :: "(real \<Rightarrow> real) \<Rightarrow> int \<Rightarrow> bool \<Rightarrow> string list \<Rightarrow> tool_error + int \<times> staten_line list" where
  "staten_main rnd random alloc argv =
     ebind (case argv of _ # a # _ \<Rightarrow> atoi a | _ \<Rightarrow> Inr 3) (\<lambda>k.
       let k = (if k < 2 then 2 else k); n = nat (if k > 16 then 16 else k); dm = push_bit n 1
       in if \<not> alloc then Inr (1, [N_alloc_failed])
          else let amp = (replicate dm 0)[0 := 1];
                   amp = h_gate rnd n 0 amp;
                   amp = foldl (\<lambda>amp q. cnot n q (q + 1) amp) amp [0..<n - 1];
                   shown = filter (\<lambda>i. \<bar>amp ! i\<bar> > rnd (1 / 10 ^ 9)) [0..<dm];
                   (m, amp') = staten_measure rnd random dm amp
               in Inr (0, [N_sizes n dm, N_state (map (\<lambda>i. (print_bits i n, amp ! i)) shown), N_measure (print_bits m n)]))"

section \<open>The loops\<close>

lemma bit_tests: "odd (drop_bit p i) \<longleftrightarrow> bit i p" for i :: nat
  by (simp add: bit_iff_odd_drop_bit)

lemma push_bit_one: "push_bit p 1 = (2 :: nat) ^ p"
  by (simp add: push_bit_eq_mult)

lemma cnot_nth:
  assumes "length amp = 2 ^ n" and "c < n" and "t < n" and "c \<noteq> t" and "j < 2 ^ n"
  shows "cnot n c t amp ! j = (if bit j (n - 1 - c) then amp ! flip_bit (n - 1 - t) j else amp ! j)"
proof -
  define pc where "pc = n - 1 - c"
  define pt where "pt = n - 1 - t"
  have ct: "pc \<noteq> pt" "pt < n" using assms by (auto simp: pc_def pt_def)
  have c: "bit (flip_bit pt i :: nat) pc = bit i pc" for i using ct by (simp add: bit_simps)
  show ?thesis
    unfolding cnot_def push_bit_one pc_def [symmetric] pt_def [symmetric]
    using assms ct
    by (subst nth_pair_loop [where P = "\<lambda>i. bit i pc \<and> \<not> bit i pt" and flip = "flip_bit pt"
          and f = "\<lambda>x y. y" and g = "\<lambda>x y. x"])
      (auto simp: cnot_step_def Let_def bit_tests push_bit_one or_exp_eq_flip_bit flip_bit_less_exp c)
qed

lemma length_cnot [simp]: "length (cnot n c t amp) = length amp"
  by (simp add: cnot_def length_foldl_step cnot_step_def Let_def)

lemma cnot_map:
  assumes "length amp = 2 ^ n" and "c < n" and "t < n" and "c \<noteq> t"
  shows "cnot n c t amp = map (\<lambda>j. if bit j (n - 1 - c) then amp ! flip_bit (n - 1 - t) j else amp ! j) [0..<2 ^ n]"
  using assms by (intro nth_equalityI) (simp_all add: cnot_nth)

lemma h_gate_nth:
  assumes "length amp = 2 ^ n" and "q < n" and "j < 2 ^ n"
  shows "h_gate rnd n q amp ! j =
     (if bit j (n - 1 - q) then rnd (rnd (amp ! flip_bit (n - 1 - q) j - amp ! j) * h_scale rnd)
      else rnd (rnd (amp ! j + amp ! flip_bit (n - 1 - q) j) * h_scale rnd))"
  unfolding h_gate_def push_bit_one
  using assms
  by (subst nth_pair_loop [where P = "\<lambda>i. \<not> bit i (n - 1 - q)" and flip = "flip_bit (n - 1 - q)"
        and f = "\<lambda>x y. rnd (rnd (x + y) * h_scale rnd)" and g = "\<lambda>x y. rnd (rnd (x - y) * h_scale rnd)"])
    (auto simp: h_gate_step_def Let_def bit_tests push_bit_one or_exp_eq_flip_bit flip_bit_less_exp h_scale_def)

lemma length_h_gate [simp]: "length (h_gate rnd n q amp) = length amp"
  by (simp add: h_gate_def length_foldl_step h_gate_step_def Let_def)

section \<open>The GHZ state\<close>

text \<open>The chain of controlled-nots carries the second amplitude to the last index.\<close>

lemma cnot_chain:
  assumes "k < n"
  shows "foldl (\<lambda>amp q. cnot n q (q + 1) amp) (two_point (2 ^ n) (2 ^ (n - 1)) s) [0..<k] =
     two_point (2 ^ n) (top_ones n (n - 1 - k)) s"
  using assms
proof (induction k)
  case 0
  then show ?case by (simp add: top_ones_start)
next
  case (Suc k)
  define lo where "lo = n - 1 - Suc k"
  have b: "n - 1 - k = Suc lo" "n - 1 - (k + 1) = lo" "Suc lo < n" using Suc.prems by (simp_all add: lo_def)
  have "cnot n k (k + 1) (two_point (2 ^ n) (top_ones n (Suc lo)) s) =
      map (\<lambda>j. if bit j (Suc lo) then two_point (2 ^ n) (top_ones n (Suc lo)) s ! flip_bit lo j
                else two_point (2 ^ n) (top_ones n (Suc lo)) s ! j) [0..<2 ^ n]"
    using Suc.prems cnot_map [of "two_point (2 ^ n) (top_ones n (Suc lo)) s" n k "k + 1"] unfolding b by simp
  then have "cnot n k (k + 1) (two_point (2 ^ n) (top_ones n (Suc lo)) s) = two_point (2 ^ n) (top_ones n lo) s"
    unfolding cx_two_point [OF b(3)] .
  then show ?case using Suc unfolding b lo_def [symmetric] by simp
qed

lemma ghz_chain_end:
  assumes "1 \<le> n"
  shows "foldl (\<lambda>amp q. cnot n q (q + 1) amp) (two_point (2 ^ n) (2 ^ (n - 1)) s) [0..<n - 1] = two_point (2 ^ n) (2 ^ n - 1) s"
  using cnot_chain [of "n - 1" n s] assms by (simp add: top_ones_0)

lemma flip_top: "flip_bit b 0 = (2 :: nat) ^ b"
  by (rule bit_eqI) (auto simp: bit_simps)

lemma filter_ends:
  assumes "2 \<le> N" and "\<And>i. i < N \<Longrightarrow> P i \<longleftrightarrow> i = 0 \<or> i = N - 1"
  shows "filter P [0..<N] = [0, N - 1]"
proof -
  define M where "M = N - 2"
  have N: "N = Suc (Suc M)" using assms(1) by (simp add: M_def)
  have "[0..<N] = 0 # [1..<Suc M] @ [Suc M]" using N by (simp add: upt_conv_Cons)
  moreover have "filter P [1..<Suc M] = []" using assms(2) N by (auto simp: filter_empty_conv)
  ultimately show ?thesis using assms(2) N by simp
qed

text \<open>Picking in a state with two amplitudes finds one of them.\<close>

lemma pick_zeros:
  assumes "\<And>a. a \<in> set as \<Longrightarrow> prob a = 0" and "rnd acc = acc" and "\<not> r \<le> acc"
  shows "pick_index rnd prob r dflt acc i (as @ bs) = pick_index rnd prob r dflt acc (i + length as) bs"
  using assms by (induction as arbitrary: i) (simp_all add: Let_def)

lemma two_point_split: "two_point (Suc (Suc M)) (Suc M) s = s # replicate M 0 @ [s]"
  by (rule nth_equalityI) (auto simp: two_point_nth nth_Cons nth_append split: nat.split)

lemma pick_two_point:
  assumes "2 \<le> N" and "prob 0 = 0" and "rnd (prob s) = prob s"
  shows "pick_index rnd prob r (N - 1) 0 0 (two_point N (N - 1) s) \<in> {0, N - 1}"
proof -
  define M where "M = N - 2"
  have N: "N = Suc (Suc M)" "N - 1 = Suc M" using assms(1) by (simp_all add: M_def)
  show ?thesis
  proof (cases "r \<le> prob s")
    case True
    then show ?thesis unfolding N using assms by (simp add: two_point_split)
  next
    case False
    then have "pick_index rnd prob r (Suc M) (prob s) 1 (replicate M 0 @ [s]) =
        pick_index rnd prob r (Suc M) (prob s) (Suc M) [s]"
      using assms pick_zeros [of "replicate M 0" prob rnd "prob s" r "Suc M" 1 "[s]"] by simp
    then show ?thesis unfolding N using assms False by (simp add: two_point_split Let_def)
  qed
qed

lemma print_bits_ends:
  "print_bits 0 n = replicate n (CHR ''0'')" "print_bits (2 ^ n - 1) n = replicate n (CHR ''1'')"
proof -
  show "print_bits 0 n = replicate n (CHR ''0'')" by (rule nth_equalityI) (simp_all add: print_bits_def)
  have "odd (drop_bit (n - Suc j) (2 ^ n - 1 :: nat))" if "j < n" for j
    using that unfolding bit_tests mask_eq_exp_minus_1 [symmetric] by (simp add: bit_simps)
  then show "print_bits (2 ^ n - 1) n = replicate n (CHR ''1'')"
    by (intro nth_equalityI) (simp_all add: print_bits_def)
qed

context fp_rounding
begin

lemma rnd_quarter: "0 < x \<Longrightarrow> 3 / 4 * x \<le> rnd x \<and> rnd x \<le> 5 / 4 * x"
proof -
  assume x: "0 < x"
  have "(2 :: real) ^ 2 \<le> 2 ^ p" using prec by (intro power_increasing) simp_all
  then have "x / 2 ^ p \<le> x / 4" using x by (intro divide_left_mono) simp_all
  then have "\<bar>rnd x - x\<bar> \<le> x / 4" using rnd_close [of x] x by (intro order_trans [OF rnd_close]) simp_all
  then show ?thesis by (simp only: abs_le_iff) linarith
qed

lemma h_scale_bounds: "1 / 4 < h_scale rnd" "h_scale rnd < 2"
proof -
  have "1 < sqrt 2" "sqrt 2 < 3 / 2" by (simp, rule real_less_lsqrt) (simp_all add: power2_eq_square)
  then have r: "3 / 4 \<le> rnd (sqrt 2)" "rnd (sqrt 2) \<le> 15 / 8" using rnd_quarter [of "sqrt 2"] by linarith+
  then have "8 / 15 \<le> 1 / rnd (sqrt 2)" "1 / rnd (sqrt 2) \<le> 4 / 3" by (simp_all add: field_simps)
  then show "1 / 4 < h_scale rnd" "h_scale rnd < 2"
    using rnd_quarter [of "1 / rnd (sqrt 2)"] unfolding h_scale_def by linarith+
qed

lemma h_gate_start:
  assumes "1 \<le> n"
  shows "h_gate rnd n 0 ((replicate (2 ^ n) 0)[0 := 1]) = two_point (2 ^ n) (2 ^ (n - 1)) (h_scale rnd)"
proof (rule nth_equalityI)
  fix j assume "j < length (h_gate rnd n 0 ((replicate (2 ^ n) 0)[0 := 1 :: real]))"
  then have j: "j < 2 ^ n" by simp
  define b where "b = n - Suc 0"
  have b: "b < n" "bit ((2 :: nat) ^ b) b" "flip_bit b j < 2 ^ n"
    using assms j by (auto simp: b_def bit_simps flip_bit_less_exp)
  show "h_gate rnd n 0 ((replicate (2 ^ n) 0)[0 := 1]) ! j = two_point (2 ^ n) (2 ^ (n - 1)) (h_scale rnd) ! j"
    using assms j b
    by (auto simp: h_gate_nth two_point_nth nth_list_update flip_bit_eq_iff flip_top simp flip: b_def)
qed simp

end

text \<open>
  The GHZ program measures all zeros or all ones.  For every number of qubits on the command line,
  every random number and every floating-point rounding, the program ends with success on a number
  of qubits between 2 and 16, shows exactly two amplitudes, equal ones, and reports one of the
  two states they belong to.
\<close>

theorem staten_ghz:
  assumes "fp_rounding p rnd" and "atoi arg = Inr k"
  shows "\<exists>n s outcome. 2 \<le> n \<and> n \<le> 16 \<and> (2 \<le> k \<and> k \<le> 16 \<longrightarrow> int n = k) \<and> 1 / 4 < s \<and>
     outcome \<in> {replicate n (CHR ''0''), replicate n (CHR ''1'')} \<and>
     staten_main rnd random True [prog, arg] =
       Inr (0, [N_sizes n (2 ^ n), N_state [(replicate n (CHR ''0''), s), (replicate n (CHR ''1''), s)], N_measure outcome])"
proof -
  define n where "n = nat (if (if k < 2 then 2 else k) > 16 then 16 else if k < 2 then 2 else k)"
  have n: "2 \<le> n" "n \<le> 16" "2 \<le> k \<and> k \<le> 16 \<longrightarrow> int n = k" by (auto simp: n_def)
  let ?N = "2 ^ n :: nat" let ?s = "h_scale rnd" let ?amp = "two_point ?N (?N - 1) ?s"
  have N: "2 \<le> ?N" using n(1) by (intro self_le_power [of 2 n, THEN order_trans [rotated]]) simp_all
  have amp: "foldl (\<lambda>amp q. cnot n q (q + 1) amp) (h_gate rnd n 0 ((replicate ?N 0)[0 := 1])) [0..<n - 1] = ?amp"
    using n(1) fp_rounding.h_gate_start [OF assms(1), of n] ghz_chain_end [of n ?s] by simp
  have s: "1 / 4 < ?s" by (rule fp_rounding.h_scale_bounds [OF assms(1)])
  have "rnd (1 / 10 ^ 9) \<le> 5 / 4 * (1 / 10 ^ 9)" using fp_rounding.rnd_quarter [OF assms(1), of "1 / 10 ^ 9"] by simp
  moreover have "3 / 4 * (1 / 10 ^ 9) \<le> rnd (1 / 10 ^ 9)" using fp_rounding.rnd_quarter [OF assms(1), of "1 / 10 ^ 9"] by simp
  ultimately have e: "0 < rnd (1 / 10 ^ 9)" "rnd (1 / 10 ^ 9) < ?s" using s by simp_all
  have shown: "filter (\<lambda>i. \<bar>?amp ! i\<bar> > rnd (1 / 10 ^ 9)) [0..<?N] = [0, ?N - 1]"
    using e s by (intro filter_ends [OF N]) (auto simp: two_point_nth)
  define m where "m = fst (staten_measure rnd random ?N ?amp)"
  have m: "m \<in> {0, ?N - 1}"
    unfolding m_def staten_measure_def Let_def fst_conv
    using pick_two_point [OF N, of "\<lambda>a. rnd (a * a)" rnd ?s] fp_rounding.rnd_0 [OF assms(1)] fp_rounding.rnd_rnd [OF assms(1)]
    by simp
  have "?amp ! 0 = ?s" "?amp ! (?N - 1) = ?s" using N by (simp_all add: two_point_nth)
  then have "staten_main rnd random True [prog, arg] =
      Inr (0, [N_sizes n ?N, N_state [(replicate n (CHR ''0''), ?s), (replicate n (CHR ''1''), ?s)], N_measure (print_bits m n)])"
    unfolding staten_main_def list.case assms(2) ebind_simps Let_def n_def [symmetric] push_bit_one amp shown m_def
    by (simp add: print_bits_ends print_bits_ends [unfolded One_nat_def] case_prod_beta)
  moreover have "print_bits m n \<in> {replicate n (CHR ''0''), replicate n (CHR ''1'')}"
    using m print_bits_ends [of n] by auto
  ultimately show ?thesis using n s by blast
qed

theorem staten_ghz_witness:
  "\<exists>n s outcome. int n = 5 \<and> 1 / 4 < s \<and> outcome \<in> {replicate n (CHR ''0''), replicate n (CHR ''1'')} \<and>
     staten_main (rnd_prec 53) 77 True [''qnova-staten'', ''5''] =
       Inr (0, [N_sizes n (2 ^ n), N_state [(replicate n (CHR ''0''), s), (replicate n (CHR ''1''), s)], N_measure outcome])"
proof -
  have "atoi ''5'' = Inr 5" by (simp add: atoi_def digits_value_def char_class_defs)
  from staten_ghz [OF fp_rounding_rnd_prec this, of 53 77 "''qnova-staten''"] show ?thesis by auto
qed

end
