(* ===== verification/Circuit.thy ===== *)
theory Circuit
  imports StateN Byte_VM
begin

text \<open>
  The circuit machine, \<^verbatim>\<open>src/src/quantum/qcircuit.c\<close>: it loads a circuit from a text file or builds a GHZ
  circuit, and simulates it on a complex state vector or prints it as OpenQASM.  Where the program
  stops with a message, or has no defined behaviour, the result is a value of \<open>circuit_stop\<close>.
\<close>

section \<open>Circuits\<close>

definition CIRCUIT_MAX_QUBITS :: int where "CIRCUIT_MAX_QUBITS = 16"
definition MAX_OPS :: nat where "MAX_OPS = 4096"

datatype circuit_stop =
    Fail string \<comment> \<open>\<^verbatim>\<open>fail(msg)\<close>\<close>
  | No_file string
  | Unknown_op string
  | Usage
  | Bad_number \<comment> \<open>a number that is no \<^verbatim>\<open>int\<close>: undefined\<close>
  | Bad_index \<comment> \<open>a shift by a negative amount: undefined\<close>

record Op =
  op_kind :: string
  op_a :: int
  op_b :: int

record circuit =
  NQ :: int
  HAS_MEASURE :: bool
  OPS :: "Op list"

definition circuit_init :: circuit where
  "circuit_init = \<lparr> NQ = 0, HAS_MEASURE = False, OPS = [] \<rparr>"

definition add_op :: "string \<Rightarrow> int \<Rightarrow> int \<Rightarrow> circuit \<Rightarrow> circuit_stop + circuit" where
  "add_op op a b c =
     (if length (OPS c) \<ge> MAX_OPS then Inl (Fail ''too many circuit operations'')
      else Inr (c\<lparr>OPS := OPS c @ [\<lparr>op_kind = take 7 op, op_a = a, op_b = b\<rparr>]\<rparr>))"

definition require_qubit :: "int \<Rightarrow> circuit \<Rightarrow> circuit_stop + circuit" where
  "require_qubit q c = (if q < 0 \<or> q \<ge> NQ c then Inl (Fail ''qubit index out of range'') else Inr c)"

fun add_cx_chain :: "nat list \<Rightarrow> circuit \<Rightarrow> circuit_stop + circuit" where
  "add_cx_chain [] c = Inr c"
| "add_cx_chain (q # qs) c = ebind (add_op ''cx'' (int q) (int q + 1) c) (add_cx_chain qs)"

definition add_ghz :: "circuit \<Rightarrow> circuit_stop + circuit" where
  "add_ghz c =
     (if NQ c < 2 then Inl (Fail ''ghz requires qubits N before ghz, with N >= 2'')
      else ebind (add_op ''h'' 0 0 c) (add_cx_chain [0..<nat (NQ c - 1)]))"

section \<open>Reading a circuit\<close>

text \<open>\<^verbatim>\<open>fgets(line, 256, f)\<close>: up to 255 characters, up to and with a line feed.\<close>

definition fgets_line :: "string \<Rightarrow> string" where
  "fgets_line s =
     (let w = takeWhile (\<lambda>c. c \<noteq> CHR 0x0A) (take 255 s)
      in if length w < 255 \<and> length w < length s then w @ [CHR 0x0A] else w)"

lemma fgets_line_progress: "s \<noteq> [] \<Longrightarrow> 0 < length (fgets_line s)"
  by (cases s) (auto simp: fgets_line_def Let_def take_Cons')

function read_lines :: "string \<Rightarrow> string list" where
  "read_lines s = (if s = [] then [] else fgets_line s # read_lines (drop (length (fgets_line s)) s))"
  by pat_completeness auto
termination
  by (relation "measure length") (use fgets_line_progress in \<open>auto intro!: diff_less\<close>)

declare read_lines.simps [simp del]

text \<open>The conversions \<^verbatim>\<open>%63s\<close> and \<^verbatim>\<open>%d\<close> of \<^verbatim>\<open>sscanf\<close>: the value and the rest of the input.\<close>

definition scan_word :: "string \<Rightarrow> (string \<times> string) option" where
  "scan_word s =
     (let s = dropWhile isspace s; w = take 63 (takeWhile (\<lambda>c. \<not> isspace c) s)
      in if w = [] then None else Some (w, drop (length w) s))"

definition scan_int :: "string \<Rightarrow> circuit_stop + (int \<times> string) option" where
  "scan_int s =
     (let s = dropWhile isspace s;
          neg = (s \<noteq> [] \<and> hd s = CHR ''-'');
          s = (if s \<noteq> [] \<and> (hd s = CHR ''-'' \<or> hd s = CHR ''+'') then tl s else s);
          ds = takeWhile isdigit s;
          v = (if neg then - digits_value ds else digits_value ds)
      in if ds = [] then Inr None
         else if - (2 ^ 31) \<le> v \<and> v < 2 ^ 31 then Inr (Some (v, drop (length ds) s))
         else Inl Bad_number)"

text \<open>\<^verbatim>\<open>sscanf(line, "%63s %d %d", kw, &q1, &q2)\<close>: the number of conversions and the three variables.\<close>

definition scan_op :: "string \<Rightarrow> circuit_stop + nat \<times> string \<times> int \<times> int" where
  "scan_op line =
     (case scan_word line of
        None \<Rightarrow> Inr (0, [], 0, 0)
      | Some (kw, rest) \<Rightarrow>
          ebind (scan_int rest) (\<lambda>r1.
            case r1 of
              None \<Rightarrow> Inr (1, kw, 0, 0)
            | Some (q1, rest) \<Rightarrow>
                ebind (scan_int rest) (\<lambda>r2.
                  case r2 of
                    None \<Rightarrow> Inr (2, kw, q1, 0)
                  | Some (q2, rest) \<Rightarrow> Inr (3, kw, q1, q2))))"

definition load_op :: "nat \<Rightarrow> string \<Rightarrow> int \<Rightarrow> int \<Rightarrow> circuit \<Rightarrow> circuit_stop + circuit" where
  "load_op got kw q1 q2 c =
     (if kw = ''qubits''
      then if got \<noteq> 2 then Inl (Fail ''qubits requires exactly one integer operand'')
           else if q1 < 1 \<or> q1 > CIRCUIT_MAX_QUBITS then Inl (Fail ''qubits must be 1..16'')
           else Inr (c\<lparr>NQ := q1\<rparr>)
      else if kw = ''ghz''
      then if got \<noteq> 1 then Inl (Fail ''ghz does not accept operands'') else add_ghz c
      else if kw = ''h'' \<or> kw = ''x'' \<or> kw = ''y'' \<or> kw = ''z'' \<or> kw = ''s'' \<or> kw = ''t''
      then if got \<noteq> 2 then Inl (Fail ''single-qubit gate requires exactly one integer operand'')
           else ebind (require_qubit q1 c) (\<lambda>c. add_op kw q1 0 c)
      else if kw = ''cx'' \<or> kw = ''swap''
      then if got \<noteq> 3 then Inl (Fail ''two-qubit gate requires exactly two integer operands'')
           else ebind (require_qubit q1 c) (\<lambda>c. ebind (require_qubit q2 c) (\<lambda>c. add_op kw q1 q2 c))
      else if kw = ''measure''
      then if got \<noteq> 1 then Inl (Fail ''measure does not accept operands'')
           else Inr (c\<lparr>HAS_MEASURE := True\<rparr>)
      else Inl (Unknown_op kw))"

definition load_line :: "string \<Rightarrow> circuit \<Rightarrow> circuit_stop + circuit" where
  "load_line line c =
     (if line \<noteq> [] \<and> (hd line = CHR ''#'' \<or> hd line = CHR 0x0A) then Inr c
      else ebind (scan_op line) (\<lambda>(got, kw, q1, q2). if got < 1 then Inr c else load_op got kw q1 q2 c))"

fun load_lines :: "string list \<Rightarrow> circuit \<Rightarrow> circuit_stop + circuit" where
  "load_lines [] c = Inr c"
| "load_lines (l # ls) c = ebind (load_line (cstr l) c) (load_lines ls)"

definition load_circuit :: "(string \<Rightarrow> string option) \<Rightarrow> string \<Rightarrow> circuit \<Rightarrow> circuit_stop + circuit" where
  "load_circuit files path c =
     (case files path of None \<Rightarrow> Inl (No_file path) | Some contents \<Rightarrow> load_lines (read_lines contents) c)"

section \<open>Gates\<close>

definition fp_cmul :: "(real \<Rightarrow> real) \<Rightarrow> complex \<Rightarrow> complex \<Rightarrow> complex" where
  "fp_cmul rnd x y =
     Complex (rnd (rnd (Re x * Re y) - rnd (Im x * Im y))) (rnd (rnd (Re x * Im y) + rnd (Im x * Re y)))"

type_synonym matrix2 = "complex \<times> complex \<times> complex \<times> complex"

fun g_single_step :: "(real \<Rightarrow> real) \<Rightarrow> nat \<Rightarrow> matrix2 \<Rightarrow> complex list \<Rightarrow> nat \<Rightarrow> complex list" where
  "g_single_step rnd p (m00, m01, m10, m11) amp i =
     (if odd (drop_bit p i) then amp
      else let j = i OR push_bit p 1; x = amp ! i; y = amp ! j
           in amp[i := fp_cadd rnd (fp_cmul rnd m00 x) (fp_cmul rnd m01 y),
                  j := fp_cadd rnd (fp_cmul rnd m10 x) (fp_cmul rnd m11 y)])"

definition g_single :: "(real \<Rightarrow> real) \<Rightarrow> nat \<Rightarrow> int \<Rightarrow> matrix2 \<Rightarrow> complex list \<Rightarrow> circuit_stop + complex list" where
  "g_single rnd n q m amp =
     (if q < 0 \<or> q \<ge> int n then Inl Bad_index
      else Inr (foldl (g_single_step rnd (n - 1 - nat q) m) amp [0..<push_bit n 1]))"

definition QPI :: real where "QPI = 3.14159265358979323846"

definition gate_matrix :: "(real \<Rightarrow> real) \<Rightarrow> string \<Rightarrow> matrix2 option" where
  "gate_matrix rnd op =
     (let s = rnd (1 / rnd (sqrt 2)); y = rnd (rnd QPI / 4)
      in if op = ''h'' then Some (Complex s 0, Complex s 0, Complex s 0, Complex (- s) 0)
         else if op = ''x'' then Some (0, 1, 1, 0)
         else if op = ''y'' then Some (0, - \<i>, \<i>, 0)
         else if op = ''z'' then Some (1, 0, 0, - 1)
         else if op = ''s'' then Some (1, 0, 0, \<i>)
         else if op = ''t'' then Some (1, 0, 0, Complex (rnd (cos y)) (rnd (sin y)))
         else None)"

definition g_cx :: "nat \<Rightarrow> int \<Rightarrow> int \<Rightarrow> complex list \<Rightarrow> circuit_stop + complex list" where
  "g_cx n c t amp =
     (if c = t then Inl (Fail ''cx control and target cannot be same'')
      else if c < 0 \<or> c \<ge> int n \<or> t < 0 \<or> t \<ge> int n then Inl Bad_index
      else Inr (cnot n (nat c) (nat t) amp))"

definition g_swap :: "nat \<Rightarrow> int \<Rightarrow> int \<Rightarrow> complex list \<Rightarrow> circuit_stop + complex list" where
  "g_swap n a b amp =
     (if a = b then Inr amp
      else ebind (g_cx n a b amp) (\<lambda>amp. ebind (g_cx n b a amp) (\<lambda>amp. g_cx n a b amp)))"

definition measure_all :: "(real \<Rightarrow> real) \<Rightarrow> int \<Rightarrow> nat \<Rightarrow> complex list \<Rightarrow> nat" where
  "measure_all rnd random dm amp =
     (let r = rnd (of_int random / of_int RAND_MAX)
      in pick_index rnd (fp_probability rnd) r (dm - 1) 0 0 (take dm amp))"

section \<open>The program\<close>

datatype amp_text = Real_only real | Imag_only real | Both_parts real real

datatype circuit_line =
    C_sizes int nat nat
  | C_state "(string \<times> amp_text) list"
  | C_measure string
  | C_qasm_header int
  | C_gate string "int list"
  | C_measure_bit nat

definition apply_op :: "(real \<Rightarrow> real) \<Rightarrow> nat \<Rightarrow> Op \<Rightarrow> complex list \<Rightarrow> circuit_stop + complex list" where
  "apply_op rnd n o' amp =
     (case gate_matrix rnd (op_kind o') of
        Some m \<Rightarrow> g_single rnd n (op_a o') m amp
      | None \<Rightarrow>
          if op_kind o' = ''cx'' then g_cx n (op_a o') (op_b o') amp
          else if op_kind o' = ''swap'' then g_swap n (op_a o') (op_b o') amp
          else Inr amp)"

fun apply_ops :: "(real \<Rightarrow> real) \<Rightarrow> nat \<Rightarrow> Op list \<Rightarrow> complex list \<Rightarrow> circuit_stop + complex list" where
  "apply_ops rnd n [] amp = Inr amp"
| "apply_ops rnd n (o' # os) amp = ebind (apply_op rnd n o' amp) (apply_ops rnd n os)"

definition show_amp :: "(real \<Rightarrow> real) \<Rightarrow> complex \<Rightarrow> amp_text" where
  "show_amp rnd a =
     (let eps = rnd (1 / 10 ^ 9)
      in if \<bar>Im a\<bar> < eps then Real_only (Re a) else if \<bar>Re a\<bar> < eps then Imag_only (Im a) else Both_parts (Re a) (Im a))"

definition simulate :: "(real \<Rightarrow> real) \<Rightarrow> int \<Rightarrow> bool \<Rightarrow> circuit \<Rightarrow> circuit_stop + circuit_line list" where
  "simulate rnd random alloc c =
     (let n = nat (NQ c); dm = push_bit n 1
      in if \<not> alloc then Inl (Fail ''state allocation failed'')
         else ebind (apply_ops rnd n (OPS c) ((replicate dm 0)[0 := 1])) (\<lambda>amp.
           let shown = filter (\<lambda>i. fp_probability rnd (amp ! i) > rnd (1 / 10 ^ 9)) [0..<dm]
           in Inr ([C_sizes (NQ c) dm (length (OPS c)), C_state (map (\<lambda>i. (print_bits i n, show_amp rnd (amp ! i))) shown)] @
                   (if HAS_MEASURE c then [C_measure (print_bits (measure_all rnd random dm amp) n)] else []))))"

definition emit_qasm :: "circuit \<Rightarrow> circuit_line list" where
  "emit_qasm c =
     C_qasm_header (NQ c) #
     concat (map (\<lambda>o'. if op_kind o' \<in> set [''h'', ''x'', ''y'', ''z'', ''s'', ''t''] then [C_gate (op_kind o') [op_a o']]
                       else if op_kind o' = ''cx'' \<or> op_kind o' = ''swap'' then [C_gate (op_kind o') [op_a o', op_b o']]
                       else []) (OPS c)) @
     (if HAS_MEASURE c then map C_measure_bit [0..<nat (NQ c)] else [])"

definition circuit_main ::
  "(real \<Rightarrow> real) \<Rightarrow> int \<Rightarrow> bool \<Rightarrow> (string \<Rightarrow> string option) \<Rightarrow> string list \<Rightarrow> circuit_stop + circuit_line list" where
  "circuit_main rnd random alloc files argv =
     (let qasm = (length argv > 1 \<and> argv ! 1 = ''--qasm''); argi = (if qasm then 2 else 1)
      in if argi \<ge> length argv then Inl Usage
         else let arg = argv ! argi
              in ebind
                   (if list_all (\<lambda>ch. 48 \<le> code_of ch \<and> code_of ch \<le> 57) arg
                    then (case atoi arg of
                            Inl _ \<Rightarrow> Inl Bad_number
                          | Inr k \<Rightarrow>
                              let k = (if k < 2 then 2 else k); k = (if k > CIRCUIT_MAX_QUBITS then CIRCUIT_MAX_QUBITS else k)
                              in ebind (add_ghz (circuit_init\<lparr>NQ := k\<rparr>)) (\<lambda>c. Inr (c\<lparr>HAS_MEASURE := True\<rparr>)))
                    else ebind (load_circuit files arg circuit_init) (\<lambda>c.
                           if NQ c < 1 then Inl (Fail ''circuit missing qubits N'') else Inr c))
                   (\<lambda>c. if qasm then Inr (emit_qasm c) else simulate rnd random alloc c))"

section \<open>What the loader accepts\<close>

definition op_ok :: "int \<Rightarrow> Op \<Rightarrow> bool" where
  "op_ok n o' \<longleftrightarrow> 0 \<le> op_a o' \<and> op_a o' < n \<and> (op_kind o' \<in> set [''cx'', ''swap''] \<longrightarrow> 0 \<le> op_b o' \<and> op_b o' < n) \<and>
     op_kind o' \<in> set [''h'', ''x'', ''y'', ''z'', ''s'', ''t'', ''cx'', ''swap'']"

definition wf_circuit :: "circuit \<Rightarrow> bool" where
  "wf_circuit c \<longleftrightarrow> 0 \<le> NQ c \<and> NQ c \<le> 16 \<and> length (OPS c) \<le> 4096 \<and> list_all (op_ok (NQ c)) (OPS c)"

definition declares_qubits :: "string \<Rightarrow> bool" where
  "declares_qubits l \<longleftrightarrow> (case scan_word (cstr l) of Some (kw, _) \<Rightarrow> kw = ''qubits'' | None \<Rightarrow> False)"

lemma add_op_wf:
  assumes "add_op k a b c = Inr c'" and "wf_circuit c" and "op_ok (NQ c) \<lparr>op_kind = take 7 k, op_a = a, op_b = b\<rparr>"
  shows "wf_circuit c' \<and> NQ c' = NQ c"
  using assms by (auto simp: add_op_def wf_circuit_def MAX_OPS_def split: if_split_asm)

lemma add_cx_chain_wf:
  assumes "add_cx_chain qs c = Inr c'" and "wf_circuit c" and "\<And>q. q \<in> set qs \<Longrightarrow> int q + 1 < NQ c"
  shows "wf_circuit c' \<and> NQ c' = NQ c"
  using assms
proof (induction qs arbitrary: c)
  case (Cons q qs)
  obtain c1 where c1: "add_op ''cx'' (int q) (int q + 1) c = Inr c1" "add_cx_chain qs c1 = Inr c'"
    using Cons.prems(1) by (auto simp: ebind_Inr_iff)
  have "wf_circuit c1 \<and> NQ c1 = NQ c"
    using Cons.prems(3) [of q] by (intro add_op_wf [OF c1(1) Cons.prems(2)]) (simp add: op_ok_def)
  then show ?case using Cons.IH [OF c1(2)] Cons.prems(3) by simp
qed simp

lemma add_ghz_wf:
  assumes "add_ghz c = Inr c'" and "wf_circuit c"
  shows "wf_circuit c' \<and> NQ c' = NQ c"
proof -
  obtain c1 where c1: "2 \<le> NQ c" "add_op ''h'' 0 0 c = Inr c1" "add_cx_chain [0..<nat (NQ c - 1)] c1 = Inr c'"
    using assms(1) by (auto simp: add_ghz_def ebind_Inr_iff split: if_split_asm)
  have "wf_circuit c1 \<and> NQ c1 = NQ c"
    using c1(1) by (intro add_op_wf [OF c1(2) assms(2)]) (simp add: op_ok_def)
  then show ?thesis using add_cx_chain_wf [OF c1(3)] by auto
qed

lemma scan_op_word: "scan_op line = Inr (got, kw, q1, q2) \<Longrightarrow> 1 \<le> got \<Longrightarrow> \<exists>rest. scan_word line = Some (kw, rest)"
  by (auto simp: scan_op_def ebind_Inr_iff split: option.split_asm prod.split_asm)

lemma require_qubit_Inr: "require_qubit q c = Inr c' \<longleftrightarrow> c' = c \<and> 0 \<le> q \<and> q < NQ c"
  by (auto simp: require_qubit_def)

lemma load_op_wf:
  assumes "load_op got kw q1 q2 c = Inr c'" and "wf_circuit c" and "kw = ''qubits'' \<Longrightarrow> OPS c = []"
  shows "wf_circuit c' \<and> (kw = ''qubits'' \<or> NQ c' = NQ c)"
proof -
  note inr = ebind_Inr_iff require_qubit_Inr
  consider (q) "kw = ''qubits''" | (g) "kw = ''ghz''" | (m) "kw = ''measure''"
    | (s) "kw = ''h'' \<or> kw = ''x'' \<or> kw = ''y'' \<or> kw = ''z'' \<or> kw = ''s'' \<or> kw = ''t''"
    | (t) "kw = ''cx'' \<or> kw = ''swap''"
    using assms(1) unfolding load_op_def by (metis Inl_Inr_False)
  then show ?thesis
  proof cases
    case q
    then show ?thesis
      using assms by (auto simp: load_op_def CIRCUIT_MAX_QUBITS_def wf_circuit_def split: if_split_asm)
  next
    case g
    then have "add_ghz c = Inr c'" using assms(1) by (simp add: load_op_def split: if_split_asm)
    then show ?thesis using add_ghz_wf assms(2) by blast
  next
    case m
    then have "c' = c\<lparr>HAS_MEASURE := True\<rparr>" using assms(1) by (simp add: load_op_def split: if_split_asm)
    then show ?thesis using assms(2) by (simp add: wf_circuit_def)
  next
    case s
    then have 1: "0 \<le> q1" "q1 < NQ c" "add_op kw q1 0 c = Inr c'"
      using assms(1) by (elim disjE; simp add: load_op_def inr split: if_split_asm)+
    have "op_ok (NQ c) \<lparr>op_kind = take 7 kw, op_a = q1, op_b = 0\<rparr>" using s 1 by (elim disjE) (simp_all add: op_ok_def)
    then show ?thesis using add_op_wf [OF 1(3) assms(2)] by blast
  next
    case t
    then have 1: "0 \<le> q1" "q1 < NQ c" "0 \<le> q2" "q2 < NQ c" "add_op kw q1 q2 c = Inr c'"
      using assms(1) by (elim disjE; simp add: load_op_def inr split: if_split_asm)+
    have "op_ok (NQ c) \<lparr>op_kind = take 7 kw, op_a = q1, op_b = q2\<rparr>" using t 1 by (elim disjE) (simp_all add: op_ok_def)
    then show ?thesis using add_op_wf [OF 1(5) assms(2)] by blast
  qed
qed

lemma load_line_wf:
  assumes "load_line (cstr l) c = Inr c'" and "wf_circuit c" and "declares_qubits l \<Longrightarrow> OPS c = []"
  shows "wf_circuit c' \<and> (declares_qubits l \<or> NQ c' = NQ c)"
proof (cases "c' = c")
  case False
  then obtain got kw q1 q2 where sc: "scan_op (cstr l) = Inr (got, kw, q1, q2)" "1 \<le> got" "load_op got kw q1 q2 c = Inr c'"
    using assms(1) by (auto simp: load_line_def ebind_Inr_iff split: if_split_asm)
  then have "declares_qubits l \<longleftrightarrow> kw = ''qubits''" using scan_op_word [OF sc(1,2)] by (auto simp: declares_qubits_def)
  then show ?thesis using load_op_wf [OF sc(3) assms(2)] assms(3) by blast
qed (use assms in simp)

lemma wf_no_qubits: "wf_circuit c \<Longrightarrow> NQ c = 0 \<Longrightarrow> OPS c = []"
  by (cases "OPS c") (auto simp: wf_circuit_def op_ok_def)

lemma load_lines_wf:
  assumes "load_lines ls c = Inr c'" and "wf_circuit c" and "length (filter declares_qubits ls) \<le> 1"
    and "NQ c \<noteq> 0 \<Longrightarrow> filter declares_qubits ls = []"
  shows "wf_circuit c'"
  using assms
proof (induction ls arbitrary: c)
  case (Cons l ls)
  obtain c1 where c1: "load_line (cstr l) c = Inr c1" "load_lines ls c1 = Inr c'"
    using Cons.prems(1) by (auto simp: ebind_Inr_iff)
  have "declares_qubits l \<Longrightarrow> OPS c = []"
    using Cons.prems(2,4) wf_no_qubits [of c] by (cases "NQ c = 0") auto
  then have w: "wf_circuit c1 \<and> (declares_qubits l \<or> NQ c1 = NQ c)" by (rule load_line_wf [OF c1(1) Cons.prems(2)])
  show ?case
    using Cons.prems(3,4) w by (intro Cons.IH [OF c1(2)]) (auto split: if_split_asm)
qed simp

section \<open>Gates on the state vector\<close>

lemma g_single_loop_nth:
  assumes "length amp = 2 ^ n" and "p < n" and "j < 2 ^ n"
  shows "foldl (g_single_step rnd p (m00, m01, m10, m11)) amp [0..<2 ^ n] ! j =
     (if bit j p then fp_cadd rnd (fp_cmul rnd m10 (amp ! flip_bit p j)) (fp_cmul rnd m11 (amp ! j))
      else fp_cadd rnd (fp_cmul rnd m00 (amp ! j)) (fp_cmul rnd m01 (amp ! flip_bit p j)))"
  using assms
  by (subst nth_pair_loop [where P = "\<lambda>i. \<not> bit i p" and flip = "flip_bit p"
        and f = "\<lambda>x y. fp_cadd rnd (fp_cmul rnd m00 x) (fp_cmul rnd m01 y)"
        and g = "\<lambda>x y. fp_cadd rnd (fp_cmul rnd m10 x) (fp_cmul rnd m11 y)"])
    (auto simp: Let_def bit_tests push_bit_one or_exp_eq_flip_bit flip_bit_less_exp)

lemma length_g_single_step: "length (g_single_step rnd p m amp i) = length amp"
  by (cases m) (simp add: Let_def)

lemma g_single_Inr: "g_single rnd n q m amp = Inr amp' \<longleftrightarrow>
    0 \<le> q \<and> q < int n \<and> amp' = foldl (g_single_step rnd (n - 1 - nat q) m) amp [0..<2 ^ n]"
  by (auto simp: g_single_def push_bit_one)

lemma g_cx_Inr: "g_cx n c t amp = Inr amp' \<longleftrightarrow>
    c \<noteq> t \<and> 0 \<le> c \<and> c < int n \<and> 0 \<le> t \<and> t < int n \<and> amp' = cnot n (nat c) (nat t) amp"
  by (auto simp: g_cx_def)

lemma apply_op_length:
  assumes "apply_op rnd n o' amp = Inr amp'"
  shows "length amp' = length amp"
  using assms
  by (auto simp: apply_op_def g_single_Inr g_swap_def ebind_Inr_iff g_cx_Inr length_foldl_step length_g_single_step
      split: option.split_asm if_split_asm)

text \<open>The sum of the probabilities.\<close>

definition total_prob :: "nat \<Rightarrow> complex list \<Rightarrow> real" where
  "total_prob n amp = (\<Sum>j<2 ^ n. (cmod (amp ! j))\<^sup>2)"

definition unitary2 :: "matrix2 \<Rightarrow> bool" where
  "unitary2 m \<longleftrightarrow> (case m of (m00, m01, m10, m11) \<Rightarrow>
     \<forall>x y. (cmod (m00 * x + m01 * y))\<^sup>2 + (cmod (m10 * x + m11 * y))\<^sup>2 = (cmod x)\<^sup>2 + (cmod y)\<^sup>2)"

lemma fp_exact: "fp_cmul id x y = x * y" "fp_cadd id x y = x + y"
  by (simp_all add: fp_cmul_def fp_cadd_def complex_eq_iff algebra_simps)

lemma g_single_prob:
  assumes "g_single id n q m amp = Inr amp'" and "length amp = 2 ^ n" and "unitary2 m"
  shows "total_prob n amp' = total_prob n amp"
proof -
  obtain m00 m01 m10 m11 where m: "m = (m00, m01, m10, m11)" by (cases m)
  have q: "0 \<le> q" "q < int n" using assms(1) by (auto simp: g_single_Inr)
  define p where "p = n - Suc (nat q)"
  have p: "p < n" using q by (simp add: p_def)
  have u: "(cmod (m00 * x + m01 * y))\<^sup>2 + (cmod (m10 * x + m11 * y))\<^sup>2 = (cmod x)\<^sup>2 + (cmod y)\<^sup>2" for x y
    using assms(3) by (simp add: unitary2_def m)
  have nth: "amp' ! j = (if bit j p then m10 * amp ! flip_bit p j + m11 * amp ! j else m00 * amp ! j + m01 * amp ! flip_bit p j)"
    if "j < 2 ^ n" for j
    using assms(1,2) that p g_single_loop_nth [of amp n p j id m00 m01 m10 m11]
    by (simp add: g_single_Inr m fp_exact flip: p_def)
  show ?thesis
    unfolding total_prob_def
  proof (rule sum_pairwise [OF p])
    fix j :: nat assume j: "j < 2 ^ n"
    then have "flip_bit p j < 2 ^ n" using p by (simp add: flip_bit_less_exp)
    then show "(cmod (amp' ! j))\<^sup>2 + (cmod (amp' ! flip_bit p j))\<^sup>2 = (cmod (amp ! j))\<^sup>2 + (cmod (amp ! flip_bit p j))\<^sup>2"
      using j u [of "amp ! j" "amp ! flip_bit p j"] u [of "amp ! flip_bit p j" "amp ! j"]
      by (cases "bit j p") (simp_all add: nth bit_simps add.commute)
  qed
qed

lemma g_cx_prob:
  assumes "g_cx n c t amp = Inr amp'" and "length amp = 2 ^ n"
  shows "total_prob n amp' = total_prob n amp"
proof -
  have ct: "nat c \<noteq> nat t" "nat c < n" "nat t < n" "amp' = cnot n (nat c) (nat t) amp" using assms(1) by (auto simp: g_cx_Inr)
  define pc where "pc = n - 1 - nat c"
  define pt where "pt = n - 1 - nat t"
  have p: "pt < n" "pc \<noteq> pt" using ct by (auto simp: pc_def pt_def)
  have nth: "amp' ! j = (if bit j pc then amp ! flip_bit pt j else amp ! j)" if "j < 2 ^ n" for j
    unfolding pc_def pt_def ct(4) by (rule cnot_nth [OF assms(2) ct(2,3,1) that])
  show ?thesis
    unfolding total_prob_def
  proof (rule sum_pairwise [OF p(1)])
    fix j :: nat assume j: "j < 2 ^ n"
    then have "flip_bit pt j < 2 ^ n" using p by (simp add: flip_bit_less_exp)
    moreover have "bit (flip_bit pt j :: nat) pc = bit j pc" using p(2) by (simp add: bit_simps)
    ultimately show "(cmod (amp' ! j))\<^sup>2 + (cmod (amp' ! flip_bit pt j))\<^sup>2 = (cmod (amp ! j))\<^sup>2 + (cmod (amp ! flip_bit pt j))\<^sup>2"
      using j by (cases "bit j pc") (simp_all add: nth)
  qed
qed

lemma gate_matrix_unitary:
  assumes "gate_matrix id op = Some m"
  shows "unitary2 m"
proof -
  have t: "cmod (Complex (cos y) (sin y)) = 1" for y by (simp add: complex_norm)
  have s: "Complex (1 / sqrt 2) 0 = complex_of_real (h_scale id)" "Complex (- (1 / sqrt 2)) 0 = - complex_of_real (h_scale id)"
    by (simp_all add: h_scale_def complex_eq_iff)
  have h: "(cmod (complex_of_real (h_scale id) * x + complex_of_real (h_scale id) * y))\<^sup>2 +
      (cmod (complex_of_real (h_scale id) * x + - complex_of_real (h_scale id) * y))\<^sup>2 = (cmod x)\<^sup>2 + (cmod y)\<^sup>2" for x y
    using parallelogram [of x y] by (simp add: algebra_simps)
  show ?thesis
    using assms h
    by (auto simp: gate_matrix_def Let_def unitary2_def s norm_mult t add.commute split: if_split_asm)
qed

lemma apply_op_prob:
  assumes "apply_op id n o' amp = Inr amp'" and "length amp = 2 ^ n"
  shows "total_prob n amp' = total_prob n amp"
proof (cases "gate_matrix id (op_kind o')")
  case (Some m)
  then show ?thesis
    using assms gate_matrix_unitary [OF Some] by (auto simp: apply_op_def intro: g_single_prob)
next
  case None
  have cx: "total_prob n a' = total_prob n a \<and> length a' = length a" if "g_cx n c t a = Inr a'" "length a = 2 ^ n" for c t a a'
    using that g_cx_prob [OF that] by (auto simp: g_cx_Inr)
  show ?thesis
    using assms None unfolding apply_op_def g_swap_def
    by (auto simp: ebind_Inr_iff split: if_split_asm dest!: cx)
qed

lemma apply_ops_prob:
  assumes "apply_ops id n os amp = Inr amp'" and "length amp = 2 ^ n"
  shows "total_prob n amp' = total_prob n amp \<and> length amp' = 2 ^ n"
  using assms
proof (induction os arbitrary: amp)
  case (Cons o' os)
  obtain a1 where a1: "apply_op id n o' amp = Inr a1" "apply_ops id n os a1 = Inr amp'"
    using Cons.prems(1) by (simp only: apply_ops.simps ebind_Inr_iff) blast
  then show ?case
    using Cons.IH [OF a1(2)] apply_op_prob [OF a1(1) Cons.prems(2)] apply_op_length [OF a1(1)] Cons.prems(2) by simp
qed simp

lemma start_prob: "total_prob n ((replicate (2 ^ n) 0)[0 := 1]) = 1"
proof -
  have "total_prob n ((replicate (2 ^ n) 0)[0 := 1]) = (\<Sum>j<(2 :: nat) ^ n. if j = 0 then 1 else 0)"
    unfolding total_prob_def by (intro sum.cong) (auto simp: nth_list_update)
  then show ?thesis by simp
qed

text \<open>Gates on declared qubits never shift by a negative amount; what can stop them is a gate that is its own control.\<close>

lemma apply_op_Inl:
  assumes "op_ok (int n) o'" and "apply_op rnd n o' amp = Inl e"
  shows "e = Fail ''cx control and target cannot be same'' \<and> op_kind o' = ''cx'' \<and> op_a o' = op_b o'"
proof (cases "gate_matrix rnd (op_kind o')")
  case (Some m)
  then show ?thesis using assms by (simp add: apply_op_def g_single_def op_ok_def split: if_split_asm)
next
  case None
  have cx: "g_cx n a b am = Inr (cnot n (nat a) (nat b) am)" if "0 \<le> a" "a < int n" "0 \<le> b" "b < int n" "a \<noteq> b" for a b am
    using that by (simp add: g_cx_def)
  show ?thesis
  proof (cases "op_kind o' = ''cx''")
    case True
    then show ?thesis using assms None by (simp add: apply_op_def op_ok_def g_cx_def split: if_split_asm)
  next
    case False
    then have "op_kind o' = ''swap''" using assms None by (auto simp: apply_op_def split: if_split_asm)
    then show ?thesis
      using assms None by (cases "op_a o' = op_b o'") (simp_all add: apply_op_def op_ok_def g_swap_def cx)
  qed
qed

lemma apply_ops_Inl:
  assumes "list_all (op_ok (int n)) os" and "apply_ops rnd n os amp = Inl e"
  shows "e = Fail ''cx control and target cannot be same'' \<and> (\<exists>o' \<in> set os. op_kind o' = ''cx'' \<and> op_a o' = op_b o')"
  using assms
proof (induction os arbitrary: amp)
  case (Cons o' os)
  then show ?case using apply_op_Inl [of n o' rnd amp e] by (auto simp: ebind_Inl_iff)
qed simp

text \<open>
  C29: loaded circuits are simulated.  A circuit file with at most one \<^verbatim>\<open>qubits\<close> line, once accepted, holds at most
  4096 gates on at most 16 qubits, each on declared qubits; the simulation of it ends and, in exact
  arithmetic, the probabilities of the final state add up to one, or it stops at a \<^verbatim>\<open>cx\<close> of a qubit with itself.
\<close>

theorem circuit_loaded:
  assumes "files path = Some contents" and "length (filter declares_qubits (read_lines contents)) \<le> 1"
    and "load_circuit files path circuit_init = Inr c"
  shows "length (OPS c) \<le> 4096 \<and> 0 \<le> NQ c \<and> NQ c \<le> 16 \<and> list_all (op_ok (NQ c)) (OPS c) \<and>
     (case apply_ops id (nat (NQ c)) (OPS c) ((replicate (2 ^ nat (NQ c)) 0)[0 := 1]) of
        Inr amp \<Rightarrow> length amp = 2 ^ nat (NQ c) \<and> (\<Sum>j<2 ^ nat (NQ c). (cmod (amp ! j))\<^sup>2) = 1
      | Inl e \<Rightarrow> e = Fail ''cx control and target cannot be same'' \<and>
          (\<exists>o' \<in> set (OPS c). op_kind o' = ''cx'' \<and> op_a o' = op_b o'))"
proof -
  have "load_lines (read_lines contents) circuit_init = Inr c" using assms(1,3) by (simp add: load_circuit_def)
  moreover have "wf_circuit circuit_init" by (simp add: wf_circuit_def circuit_init_def)
  ultimately have w: "wf_circuit c" using assms(2) by (rule load_lines_wf) (simp add: circuit_init_def)
  let ?run = "apply_ops id (nat (NQ c)) (OPS c) ((replicate (2 ^ nat (NQ c)) 0)[0 := 1])"
  have "case ?run of
        Inr amp \<Rightarrow> length amp = 2 ^ nat (NQ c) \<and> (\<Sum>j<2 ^ nat (NQ c). (cmod (amp ! j))\<^sup>2) = 1
      | Inl e \<Rightarrow> e = Fail ''cx control and target cannot be same'' \<and>
          (\<exists>o' \<in> set (OPS c). op_kind o' = ''cx'' \<and> op_a o' = op_b o')"
  proof (cases ?run)
    case (Inl e)
    then show ?thesis using apply_ops_Inl [of "nat (NQ c)" "OPS c" id _ e] w unfolding wf_circuit_def by simp
  next
    case (Inr amp)
    then show ?thesis using apply_ops_prob [OF Inr] start_prob [of "nat (NQ c)"] by (simp add: total_prob_def)
  qed
  then show ?thesis using w unfolding wf_circuit_def by blast
qed

lemma read_lines_cons:
  assumes "CHR 0x0A \<notin> set l" and "length l < 255"
  shows "read_lines (l @ CHR 0x0A # rest) = (l @ [CHR 0x0A]) # read_lines rest"
proof -
  have "takeWhile (\<lambda>c. c \<noteq> CHR 0x0A) (take 255 (l @ CHR 0x0A # rest)) = l"
  proof -
    have "take 255 (l @ CHR 0x0A # rest) = l @ CHR 0x0A # take (254 - length l) rest"
      using assms(2) by (simp add: take_Cons')
    moreover have "list_all (\<lambda>c. c \<noteq> CHR 0x0A) l" using assms(1) by (auto simp: list_all_iff)
    ultimately show ?thesis using takeWhile_sep [of _ l "CHR 0x0A"] by (simp only:) simp
  qed
  then have "fgets_line (l @ CHR 0x0A # rest) = l @ [CHR 0x0A]" using assms(2) by (simp add: fgets_line_def Let_def)
  then show ?thesis by (subst read_lines.simps) simp
qed

definition bell_circuit :: string where
  "bell_circuit = ''qubits 2'' @ CHR 0x0A # ''h 0'' @ CHR 0x0A # ''cx 0 1'' @ CHR 0x0A # []"

lemma bell_lines: "read_lines bell_circuit = [''qubits 2'' @ [CHR 0x0A], ''h 0'' @ [CHR 0x0A], ''cx 0 1'' @ [CHR 0x0A]]"
  unfolding bell_circuit_def by (subst read_lines_cons, simp, simp)+ (subst read_lines.simps, simp)

lemma bell_loads:
  "load_circuit [''bell'' \<mapsto> bell_circuit] ''bell'' circuit_init =
     Inr \<lparr>NQ = 2, HAS_MEASURE = False, OPS = [\<lparr>op_kind = ''h'', op_a = 0, op_b = 0\<rparr>, \<lparr>op_kind = ''cx'', op_a = 0, op_b = 1\<rparr>]\<rparr>"
  by (simp add: load_circuit_def bell_lines cstr_def load_line_def scan_op_def scan_word_def scan_int_def char_class_defs
      digits_value_def load_op_def CIRCUIT_MAX_QUBITS_def circuit_init_def require_qubit_def add_op_def MAX_OPS_def Let_def)

theorem circuit_loaded_witness:
  "case apply_ops id 2 [\<lparr>op_kind = ''h'', op_a = 0, op_b = 0\<rparr>, \<lparr>op_kind = ''cx'', op_a = 0, op_b = 1\<rparr>] ((replicate 4 0)[0 := 1]) of
     Inr amp \<Rightarrow> (\<Sum>j<4. (cmod (amp ! j))\<^sup>2) = 1 | Inl e \<Rightarrow> False"
proof -
  have "length (filter declares_qubits (read_lines bell_circuit)) \<le> 1"
    by (simp add: bell_lines declares_qubits_def cstr_def scan_word_def char_class_defs Let_def)
  from circuit_loaded [OF _ this bell_loads] show ?thesis by (simp split: sum.split_asm sum.split)
qed

text \<open>
  A second \<^verbatim>\<open>qubits\<close> line can make the register smaller than the gates before it allow for: the circuit is
  accepted, and its simulation shifts by a negative amount.
\<close>

definition shrinking_circuit :: string where
  "shrinking_circuit = ''qubits 3'' @ CHR 0x0A # ''x 2'' @ CHR 0x0A # ''qubits 1'' @ CHR 0x0A # []"

lemma shrinking_lines: "read_lines shrinking_circuit = [''qubits 3'' @ [CHR 0x0A], ''x 2'' @ [CHR 0x0A], ''qubits 1'' @ [CHR 0x0A]]"
  unfolding shrinking_circuit_def by (subst read_lines_cons, simp, simp)+ (subst read_lines.simps, simp)

theorem circuit_shrinks:
  "circuit_main rnd random True [''c.qc'' \<mapsto> shrinking_circuit] [''qnova-circuit'', ''c.qc''] = Inl Bad_index"
proof -
  have "load_circuit [''c.qc'' \<mapsto> shrinking_circuit] ''c.qc'' circuit_init =
      Inr \<lparr>NQ = 1, HAS_MEASURE = False, OPS = [\<lparr>op_kind = ''x'', op_a = 2, op_b = 0\<rparr>]\<rparr>"
    by (simp add: load_circuit_def shrinking_lines cstr_def load_line_def scan_op_def scan_word_def scan_int_def char_class_defs
      digits_value_def load_op_def CIRCUIT_MAX_QUBITS_def circuit_init_def require_qubit_def add_op_def MAX_OPS_def Let_def)
  then show ?thesis
    by (simp add: circuit_main_def char_class_defs simulate_def apply_op_def gate_matrix_def g_single_def Let_def)
qed

section \<open>The GHZ circuit\<close>

definition cx_chain :: "nat \<Rightarrow> Op list" where
  "cx_chain k = map (\<lambda>q. \<lparr>op_kind = ''cx'', op_a = int q, op_b = int q + 1\<rparr>) [0..<k]"

lemma add_cx_chain_eq:
  assumes "length (OPS c) + length qs \<le> MAX_OPS"
  shows "add_cx_chain qs c =
     Inr (c\<lparr>OPS := OPS c @ map (\<lambda>q. \<lparr>op_kind = ''cx'', op_a = int q, op_b = int q + 1\<rparr>) qs\<rparr>)"
  using assms by (induction qs arbitrary: c) (simp_all add: add_op_def)

lemma apply_chain:
  assumes "k < n"
  shows "apply_ops rnd n (cx_chain k) amp = Inr (foldl (\<lambda>amp q. cnot n q (q + 1) amp) amp [0..<k])"
proof -
  have app: "apply_ops rnd n (os @ os') a = ebind (apply_ops rnd n os a) (apply_ops rnd n os')" for os os' a
    by (induction os arbitrary: a) (simp_all add: ebind_def split: sum.split)
  show ?thesis using assms
    by (induction k)
      (simp_all add: cx_chain_def app apply_op_def gate_matrix_def g_cx_def Let_def nat_add_distrib)
qed

context fp_rounding
begin

lemma cmul_scale:
  "fp_cmul rnd (Complex (h_scale rnd) 0) 1 = Complex (h_scale rnd) 0" "fp_cmul rnd (Complex x 0) 0 = 0"
  by (simp_all add: fp_cmul_def complex_eq_iff)

lemma g_h_start:
  assumes "1 \<le> n"
  shows "apply_op rnd n \<lparr>op_kind = ''h'', op_a = 0, op_b = 0\<rparr> ((replicate (2 ^ n) 0)[0 := 1]) =
     Inr (two_point (2 ^ n) (2 ^ (n - 1)) (Complex (h_scale rnd) 0))"
proof -
  let ?s = "h_scale rnd" let ?amp = "(replicate (2 ^ n) 0)[0 := 1 :: complex]"
  let ?m = "(Complex ?s 0, Complex ?s 0, Complex ?s 0, Complex (- ?s) 0)"
  define b where "b = n - Suc 0"
  have b: "b < n" using assms by (simp add: b_def)
  have "foldl (g_single_step rnd b ?m) ?amp [0..<2 ^ n] = two_point (2 ^ n) (2 ^ b) (Complex ?s 0)"
  proof (rule nth_equalityI)
    show "length (foldl (g_single_step rnd b ?m) ?amp [0..<2 ^ n]) = length (two_point (2 ^ n) (2 ^ b) (Complex ?s 0))"
      by (simp add: length_foldl_step length_g_single_step del: g_single_step.simps)
    fix j assume "j < length (foldl (g_single_step rnd b ?m) ?amp [0..<2 ^ n])"
    then have j: "j < 2 ^ n" by (simp add: length_foldl_step length_g_single_step del: g_single_step.simps)
    then have f: "flip_bit b j < 2 ^ n" "bit ((2 :: nat) ^ b) b" using b by (auto simp: flip_bit_less_exp bit_simps)
    show "foldl (g_single_step rnd b ?m) ?amp [0..<2 ^ n] ! j = two_point (2 ^ n) (2 ^ b) (Complex ?s 0) ! j"
      using g_single_loop_nth [of ?amp n b j rnd] b j f
      by (auto simp: two_point_nth nth_list_update flip_bit_eq_iff flip_top cmul_scale fp_cadd_def complex_eq_iff
          simp del: g_single_step.simps)
  qed
  then show ?thesis
    using b by (simp add: apply_op_def gate_matrix_def g_single_def push_bit_one Let_def b_def
        h_scale_def [symmetric] del: g_single_step.simps)
qed

end

text \<open>
  C30: \<^verbatim>\<open>qnova-circuit N\<close> prepares and measures a GHZ state: for every number on the command line, every random number and
  every floating-point rounding, the program ends on 2 to 16 qubits, shows two equal real amplitudes, and
  reports all zeros or all ones.
\<close>

theorem circuit_ghz:
  assumes "fp_rounding p rnd" and "list_all isdigit arg" and "atoi arg = Inr k"
  shows "\<exists>n s outcome. 2 \<le> n \<and> n \<le> 16 \<and> (2 \<le> k \<and> k \<le> 16 \<longrightarrow> int n = k) \<and> 1 / 4 < s \<and>
     outcome \<in> {replicate n (CHR ''0''), replicate n (CHR ''1'')} \<and>
     circuit_main rnd random True files [prog, arg] =
       Inr [C_sizes (int n) (2 ^ n) n,
            C_state [(replicate n (CHR ''0''), Real_only s), (replicate n (CHR ''1''), Real_only s)], C_measure outcome]"
proof -
  define n where "n = nat (if (if k < 2 then 2 else k) > 16 then 16 else if k < 2 then 2 else k)"
  have n: "2 \<le> n" "n \<le> 16" "2 \<le> k \<and> k \<le> 16 \<longrightarrow> int n = k" by (auto simp: n_def)
  have kn: "(let k = (if k < 2 then 2 else k) in if k > CIRCUIT_MAX_QUBITS then CIRCUIT_MAX_QUBITS else k) = int n"
    by (auto simp: n_def CIRCUIT_MAX_QUBITS_def)
  let ?N = "2 ^ n :: nat" let ?s = "h_scale rnd" let ?z = "Complex ?s 0" let ?amp = "two_point ?N (?N - 1) ?z"
  let ?ops = "\<lparr>op_kind = ''h'', op_a = 0, op_b = 0\<rparr> # cx_chain (n - 1)"
  have N: "2 \<le> ?N" using n(1) by (intro self_le_power [of 2 n, THEN order_trans [rotated]]) simp_all
  have ghz: "add_ghz (circuit_init\<lparr>NQ := int n\<rparr>) = Inr (circuit_init\<lparr>NQ := int n, OPS := ?ops\<rparr>)"
    using n by (simp add: add_ghz_def add_op_def circuit_init_def MAX_OPS_def add_cx_chain_eq cx_chain_def nat_diff_distrib)
  have run: "apply_ops rnd n ?ops ((replicate ?N 0)[0 := 1]) = Inr ?amp"
    using n(1) fp_rounding.g_h_start [OF assms(1), of n] apply_chain [of "n - 1" n rnd] ghz_chain_end [of n ?z] by simp
  have s: "1 / 4 < ?s" by (rule fp_rounding.h_scale_bounds [OF assms(1)])
  have "1 / 16 < ?s * ?s" using mult_strict_mono [OF s s] s by simp
  then have pr: "3 / 64 \<le> rnd (?s * ?s)" using fp_rounding.rnd_quarter [OF assms(1), of "?s * ?s"] by linarith
  have e: "0 < rnd (1 / 10 ^ 9)" "rnd (1 / 10 ^ 9) < 3 / 64"
    using fp_rounding.rnd_quarter [OF assms(1), of "1 / 10 ^ 9"] by simp_all
  have z: "fp_probability rnd ?z = rnd (?s * ?s)" "fp_probability rnd 0 = 0"
    using fp_rounding.rnd_0 [OF assms(1)] fp_rounding.rnd_rnd [OF assms(1)] by (simp_all add: fp_probability_def)
  have shown: "filter (\<lambda>i. fp_probability rnd (?amp ! i) > rnd (1 / 10 ^ 9)) [0..<?N] = [0, ?N - 1]"
    using e pr by (intro filter_ends [OF N]) (auto simp: two_point_nth z)
  define m where "m = measure_all rnd random ?N ?amp"
  have m: "m \<in> {0, ?N - 1}"
    unfolding m_def measure_all_def Let_def
    using pick_two_point [OF N, of "fp_probability rnd" rnd ?z] fp_rounding.rnd_rnd [OF assms(1)] by (simp add: z)
  have "?amp ! 0 = ?z" "?amp ! (?N - 1) = ?z" using N by (simp_all add: two_point_nth)
  moreover have "show_amp rnd ?z = Real_only ?s" using e by (simp add: show_amp_def)
  ultimately have "simulate rnd random True (circuit_init\<lparr>NQ := int n, OPS := ?ops, HAS_MEASURE := True\<rparr>) =
      Inr [C_sizes (int n) ?N n, C_state [(replicate n (CHR ''0''), Real_only ?s), (replicate n (CHR ''1''), Real_only ?s)],
           C_measure (print_bits m n)]"
    using n(1) shown run
    by (simp add: simulate_def Let_def push_bit_one print_bits_ends print_bits_ends [unfolded One_nat_def] m_def cx_chain_def)
  moreover have "list_all (\<lambda>ch. 48 \<le> code_of ch \<and> code_of ch \<le> 57) arg" "arg \<noteq> ''--qasm''"
    using assms(2) by (auto simp: isdigit_def [abs_def] code_of_def)
  ultimately have "circuit_main rnd random True files [prog, arg] =
      Inr [C_sizes (int n) ?N n, C_state [(replicate n (CHR ''0''), Real_only ?s), (replicate n (CHR ''1''), Real_only ?s)],
           C_measure (print_bits m n)]"
    using kn ghz by (simp add: circuit_main_def assms(3) Let_def)
  moreover have "print_bits m n \<in> {replicate n (CHR ''0''), replicate n (CHR ''1'')}"
    using m print_bits_ends [of n] by auto
  ultimately show ?thesis using n s by blast
qed

theorem circuit_ghz_witness:
  "\<exists>n s outcome. int n = 4 \<and> outcome \<in> {replicate n (CHR ''0''), replicate n (CHR ''1'')} \<and>
     circuit_main (rnd_prec 53) 99 True Map.empty [''qnova-circuit'', ''4''] =
       Inr [C_sizes (int n) (2 ^ n) n,
            C_state [(replicate n (CHR ''0''), Real_only s), (replicate n (CHR ''1''), Real_only s)], C_measure outcome]"
proof -
  have "list_all isdigit ''4''" "atoi ''4'' = Inr 4" by (simp_all add: atoi_def digits_value_def char_class_defs)
  from circuit_ghz [OF fp_rounding_rnd_prec this, of 53 99 Map.empty "''qnova-circuit''"] show ?thesis by auto
qed

end
