(* ===== verification/Kernel_Cli.thy ===== *)
theory Kernel_Cli
  imports StateN Qcpud Strtod
begin

text \<open>
  The command-line program of the kernel, \<^verbatim>\<open>src/src/tools/qnova_kernel_cli.c\<close>, with \<^verbatim>\<open>strtoull\<close> as it and the
  device client use it.
\<close>

section \<open>Numbers on the command line\<close>

text \<open>
  \<^verbatim>\<open>strtoull(text, &end, base)\<close>: \<open>None\<close> when there is nothing to convert (\<^verbatim>\<open>end == text\<close>), else the value, whether
  \<^verbatim>\<open>errno\<close> is set to \<^verbatim>\<open>ERANGE\<close>, and the text at \<^verbatim>\<open>end\<close>.  Base 0 takes the base from a prefix.
\<close>

definition strtoull :: "nat \<Rightarrow> string \<Rightarrow> (nat \<times> bool \<times> string) option" where
  "strtoull base text =
     (let s = dropWhile isspace text;
          neg = (s \<noteq> [] \<and> hd s = CHR ''-'');
          s = (if s \<noteq> [] \<and> (hd s = CHR ''-'' \<or> hd s = CHR ''+'') then tl s else s);
          hex = (length s > 2 \<and> s ! 0 = CHR ''0'' \<and> (s ! 1 = CHR ''x'' \<or> s ! 1 = CHR ''X'') \<and> digit_of (s ! 2) < 16);
          b = (if base \<noteq> 0 then base else if hex then 16 else if s \<noteq> [] \<and> hd s = CHR ''0'' then 8 else 10);
          s = (if base = 0 \<and> hex then drop 2 s else s);
          ds = takeWhile (\<lambda>c. digit_of c < b) s;
          v = foldl (\<lambda>n c. b * n + digit_of c) 0 ds
      in if ds = [] then None
         else if v \<ge> 2 ^ 64 then Some (2 ^ 64 - 1, True, drop (length ds) s)
         else Some (if neg then (2 ^ 64 - v) mod 2 ^ 64 else v, False, drop (length ds) s))"

definition starts_negative :: "string \<Rightarrow> bool" where
  "starts_negative text \<longleftrightarrow> (let s = dropWhile isspace text in s \<noteq> [] \<and> hd s = CHR ''-'')"

datatype cli_line =
    K_usage
  | K_invalid string string
  | K_failed string string
  | K_input nat nat
  | K_expand nat real
  | K_state "(string \<times> real) list"
  | K_shots nat string u64 string u64 u64
  | K_collapse string nat
  | K_bad_result
  | K_pass

definition parse_size :: "string \<Rightarrow> string \<Rightarrow> cli_line + nat" where
  "parse_size text label =
     (case strtoull 10 text of
        Some (v, erange, []) \<Rightarrow> if starts_negative text \<or> erange then Inl (K_invalid label text) else Inr v
      | _ \<Rightarrow> Inl (K_invalid label text))"

definition parse_seed :: "string \<Rightarrow> cli_line + u64" where
  "parse_seed text =
     (case strtoull 0 text of
        Some (v, erange, []) \<Rightarrow> if erange then Inl (K_invalid ''seed'' text) else Inr (of_nat v)
      | _ \<Rightarrow> Inl (K_invalid ''seed'' text))"

section \<open>The program\<close>

definition print_basis :: "nat \<Rightarrow> nat \<Rightarrow> string" where
  "print_basis state n = ''|'' @ map (\<lambda>b. if odd (drop_bit (b - 1) state) then CHR ''1'' else CHR ''0'') (rev [1..<n + 1]) @ ''>''"

text \<open>From the prepared kernel on: shots, measurement and verdict.\<close>

definition cli_run ::
  "(real \<Rightarrow> real) \<Rightarrow> bool \<Rightarrow> QCPUKernel option \<Rightarrow> nat \<Rightarrow> nat \<Rightarrow> int \<times> cli_line list" where
  "cli_run rnd alloc kern qubits shots =
     (let k = the kern; amps = the (amplitudes k);
          shown = filter (\<lambda>state. rnd (cmod (amps ! state)) > rnd (1 / 10 ^ 12)) [0..<state_count k];
          start = [K_input qubits qubits, K_expand (state_count k) (qcpu_kernel_norm rnd kern),
                   K_state (map (\<lambda>state. (print_basis state qubits, rnd (cmod (amps ! state)))) shown)]
      in case qcpu_kernel_run_shots rnd alloc kern shots (Some zero_shot_result) of
           (status, kern, result) \<Rightarrow>
             if status \<noteq> QCPU_OK then (1, start @ [K_failed ''shot execution'' (qcpu_status_string status)])
             else let final_state = state_count (the kern) - 1;
                      counts = the (sr_counts (the result));
                      bad_count = count_invalid final_state (the result);
                      lines = start @ [K_shots shots (print_basis 0 qubits) (counts ! 0)
                                         (print_basis final_state qubits) (counts ! final_state) bad_count]
                  in case qcpu_kernel_measure rnd kern (Some 0) of
                       (status, kern, measured_at) \<Rightarrow>
                         if status \<noteq> QCPU_OK then (1, lines @ [K_failed ''measurement'' (qcpu_status_string status)])
                         else let m = the measured_at; lines = lines @ [K_collapse (print_basis m qubits) qubits]
                              in if bad_count \<noteq> 0 \<or> m \<noteq> 0 \<and> m \<noteq> final_state then (1, lines @ [K_bad_result])
                                 else (0, lines @ [K_pass]))"

definition kernel_cli_main :: "(real \<Rightarrow> real) \<Rightarrow> bool \<times> bool \<Rightarrow> string list \<Rightarrow> int \<times> cli_line list" where
  "kernel_cli_main rnd alloc argv =
     (if length argv > 4 then (1, [K_usage])
      else case (if length argv \<ge> 2 then parse_size (argv ! 1) ''qubit count'' else Inr 3) of
          Inl l \<Rightarrow> (1, [l])
        | Inr qubits \<Rightarrow>
        case (if length argv \<ge> 3 then parse_size (argv ! 2) ''shot count'' else Inr 20) of
          Inl l \<Rightarrow> (1, [l])
        | Inr shots \<Rightarrow>
        case (if length argv \<ge> 4 then parse_seed (argv ! 3) else Inr 424242) of
          Inl l \<Rightarrow> (1, [l])
        | Inr seed \<Rightarrow>
        case qcpu_kernel_init (fst alloc) (Some zero_kernel) qubits seed of
          (status, kern) \<Rightarrow>
            if status \<noteq> QCPU_OK then (1, [K_failed ''kernel initialization'' (qcpu_status_string status)])
            else case qcpu_kernel_apply_ghz rnd kern of
              (status, kern) \<Rightarrow>
                if status \<noteq> QCPU_OK then (1, [K_failed ''GHZ preparation'' (qcpu_status_string status)])
                else let status = qcpu_kernel_validate rnd kern (rnd (1 / 10 ^ 12))
                     in if status \<noteq> QCPU_OK then (1, [K_failed ''state validation'' (qcpu_status_string status)])
                        else cli_run rnd (snd alloc) kern qubits shots)"

section \<open>A run within the limits\<close>

definition ket :: "nat \<Rightarrow> char \<Rightarrow> string" where
  "ket n c = ''|'' @ replicate n c @ ''>''"

lemma print_basis_ends: "print_basis 0 n = ket n (CHR ''0'')" "print_basis (2 ^ n - 1) n = ket n (CHR ''1'')"
proof -
  have z: "map (\<lambda>b. if odd (drop_bit (b - 1) (0 :: nat)) then CHR ''1'' else CHR ''0'') (rev [1..<n + 1]) = replicate n (CHR ''0'')"
    by (rule nth_equalityI) (simp_all add: rev_nth del: upt_Suc)
  show "print_basis 0 n = ket n (CHR ''0'')" unfolding print_basis_def ket_def z ..
  have "odd (drop_bit (n - Suc j) (2 ^ n - 1 :: nat))" if "j < n" for j
    using that unfolding bit_tests mask_eq_exp_minus_1 [symmetric] by (simp add: bit_simps)
  then have o: "map (\<lambda>b. if odd (drop_bit (b - 1) (2 ^ n - 1 :: nat)) then CHR ''1'' else CHR ''0'') (rev [1..<n + 1]) = replicate n (CHR ''1'')"
    by (intro nth_equalityI) (simp_all add: rev_nth del: upt_Suc)
  show "print_basis (2 ^ n - 1) n = ket n (CHR ''1'')" unfolding print_basis_def ket_def o ..
qed

lemma sum_ends:
  fixes c :: "u64 list"
  assumes "length c = N" and "2 \<le> N" and "\<And>i. 0 < i \<Longrightarrow> i < N - 1 \<Longrightarrow> c ! i = 0"
  shows "sum_list (map unat c) = unat (c ! 0) + unat (c ! (N - 1))"
proof -
  define M where "M = N - 2"
  have N: "N = Suc (Suc M)" using assms(2) by (simp add: M_def)
  have "c = c ! 0 # replicate M 0 @ [c ! Suc M]"
    using assms N by (intro nth_equalityI) (auto simp: nth_Cons nth_append less_Suc_eq split: nat.split)
  then have "sum_list (map unat c) = sum_list (map unat (c ! 0 # replicate M 0 @ [c ! Suc M]))" by (rule arg_cong)
  then show ?thesis using N by (simp add: sum_list_replicate)
qed

text \<open>
  C32: the command-line program passes.  For every number of qubits from 1 to 20, every positive number of shots and
  every seed, when memory suffices, it exits with success after it has shown two equal amplitudes,
  counted every shot in the all-zeros or the all-ones state and none elsewhere, and measured one of the two.
\<close>

theorem kernel_cli_passes:
  assumes "parse_size q ''qubit count'' = Inr n" and "parse_size sh ''shot count'' = Inr shots" and "parse_seed sd = Inr seed"
    and "1 \<le> n" and "n \<le> 20" and "0 < shots"
  shows "\<exists>norm a c0 c1 outcome. a > 0 \<and> unat c0 + unat c1 = shots \<and>
     outcome \<in> {ket n (CHR ''0''), ket n (CHR ''1'')} \<and>
     kernel_cli_main rnd_double (True, True) [prog, q, sh, sd] =
       (0, [K_input n n, K_expand (2 ^ n) norm, K_state [(ket n (CHR ''0''), a), (ket n (CHR ''1''), a)],
            K_shots shots (ket n (CHR ''0'')) c0 (ket n (CHR ''1'')) c1 0, K_collapse outcome n, K_pass])"
proof -
  have n: "1 \<le> n" "n \<le> QCPU_KERNEL_MAX_QUBITS" using assms(4,5) by (simp_all add: QCPU_KERNEL_MAX_QUBITS_def)
  have "shots < 2 ^ 64"
    using assms(2) by (auto simp: parse_size_def strtoull_def Let_def split: option.split_asm list.split_asm if_split_asm)
  then have s: "0 < shots" "shots < 2 ^ 64" using assms(6) by simp_all
  obtain k where k: "qcpu_kernel_init True (Some zero_kernel) n seed = (QCPU_OK, Some k)" "wf_kernel k" "qubit_count k = n"
    using init_wf [OF n] by blast
  let ?g = "ghz_kernel rnd_double k" let ?N = "2 ^ n :: nat" let ?s = "h_scale rnd_double"
  have g: "dbl.holds_ghz ?g" "state_count ?g = ?N" "qubit_count ?g = n"
    using dbl.holds_ghz_kernel [OF k(2)] k(2,3) by (auto simp: ghz_kernel_def wf_kernel_def)
  have N: "2 \<le> ?N" using dbl.holds_ghz_size [OF g(1)] g(2) by simp
  obtain r c where c: "qcpu_kernel_run_shots rnd_double True (Some ?g) shots (Some zero_shot_result) =
       (QCPU_OK, Some (?g\<lparr>rng_state := r\<rparr>), Some \<lparr>sr_shots = shots, sr_state_count = ?N, sr_counts = Some c\<rparr>)" "r \<noteq> 0"
       "length c = ?N" "sum_list (map unat c) = shots" "\<forall>i. 0 < i \<and> i < ?N - 1 \<longrightarrow> c ! i = 0"
    using dbl.run_shots_ghz [OF g(1) s, of zero_shot_result] g(2) by auto
  have inv: "count_invalid (?N - 1) \<lparr>sr_shots = shots, sr_state_count = ?N, sr_counts = Some c\<rparr> = 0"
    using c(5) by (intro count_invalid_zero) auto
  have sum: "unat (c ! 0) + unat (c ! (?N - 1)) = shots" using sum_ends [OF c(3) N] c(4,5) by simp
  obtain k' j where m: "qcpu_kernel_measure rnd_double (Some (?g\<lparr>rng_state := r\<rparr>)) (Some 0) = (QCPU_OK, Some k', Some j)"
      "j = 0 \<or> j = ?N - 1"
    using dbl.measure_ghz [of "?g\<lparr>rng_state := r\<rparr>" 0] g c(2) by auto
  have amps: "the (amplitudes ?g) = two_point ?N (?N - 1) (Complex ?s 0)" "state_count ?g = ?N"
    using g by (simp_all add: ghz_kernel_def k(3))
  have sc: "state_count k = ?N" using k(2,3) by (simp add: wf_kernel_def)
  have s4: "1 / 4 < ?s" by (rule dbl.h_scale_bounds)
  have e: "0 < rnd_double (1 / 10 ^ 12)" "rnd_double (1 / 10 ^ 12) < ?s" using dbl.rnd_quarter [of "1 / 10 ^ 12"] s4 by simp_all
  have mag: "rnd_double (cmod (Complex ?s 0)) = ?s" using s4 by (simp add: complex_norm)
  have shown: "filter (\<lambda>i. rnd_double (cmod (two_point ?N (?N - 1) (Complex ?s 0) ! i)) > rnd_double (1 / 10 ^ 12)) [0..<?N] = [0, ?N - 1]"
    using e mag by (intro filter_ends [OF N]) (auto simp: two_point_nth)
  have tp: "two_point ?N (?N - 1) (Complex ?s 0) ! 0 = Complex ?s 0" "two_point ?N (?N - 1) (Complex ?s 0) ! (?N - 1) = Complex ?s 0"
    using N by (simp_all add: two_point_nth)
  have st: "map (\<lambda>state. (print_basis state n, rnd_double (cmod (two_point ?N (?N - 1) (Complex ?s 0) ! state)))) [0, ?N - 1] =
      [(ket n (CHR ''0''), ?s), (ket n (CHR ''1''), ?s)]"
    unfolding list.map tp mag print_basis_ends ..
  have run: "cli_run rnd_double True (Some ?g) n shots =
      (0, [K_input n n, K_expand ?N (qcpu_kernel_norm rnd_double (Some ?g)), K_state [(ket n (CHR ''0''), ?s), (ket n (CHR ''1''), ?s)],
           K_shots shots (ket n (CHR ''0'')) (c ! 0) (ket n (CHR ''1'')) (c ! (?N - 1)) 0, K_collapse (print_basis j n) n, K_pass])"
    unfolding cli_run_def Let_def option.sel amps shown st c(1) prod.case m(1)
    using m(2) inv by (simp add: amps(2) g(2) print_basis_ends print_basis_ends [unfolded One_nat_def])
  have "kernel_cli_main rnd_double (True, True) [prog, q, sh, sd] = cli_run rnd_double True (Some ?g) n shots"
    using ghz_validate_ok [OF k(2)] by (simp add: kernel_cli_main_def assms(1-3) k(1) dbl.apply_ghz_wf [OF k(2)] Let_def)
  moreover have "print_basis j n \<in> {ket n (CHR ''0''), ket n (CHR ''1'')}" using m(2) print_basis_ends [of n] by auto
  moreover have "0 < ?s" using s4 by simp
  ultimately show ?thesis
    using run sum
    by (intro exI [of _ "qcpu_kernel_norm rnd_double (Some ?g)"] exI [of _ ?s] exI [of _ "c ! 0"] exI [of _ "c ! (?N - 1)"]
        exI [of _ "print_basis j n"] conjI) (simp_all only:)
qed

lemma cli_numbers:
  "parse_size ''5'' ''qubit count'' = Inr 5" "parse_size ''40'' ''shot count'' = Inr 40" "parse_seed ''0x2a'' = Inr 42"
  by (simp_all add: parse_size_def parse_seed_def strtoull_def starts_negative_def digit_of_def char_class_defs Let_def)

theorem kernel_cli_passes_witness:
  "\<exists>norm a c0 c1 outcome. unat c0 + unat c1 = 40 \<and> outcome \<in> {''|00000>'', ''|11111>''} \<and>
     kernel_cli_main rnd_double (True, True) [''qnova-kernel'', ''5'', ''40'', ''0x2a''] =
       (0, [K_input 5 5, K_expand 32 norm, K_state [(''|00000>'', a), (''|11111>'', a)], K_shots 40 ''|00000>'' c0 ''|11111>'' c1 0,
            K_collapse outcome 5, K_pass])"
  using kernel_cli_passes [OF cli_numbers, of "''qnova-kernel''"] by (auto simp: ket_def numeral_eq_Suc)

end
