(* ===== verification/Device_Client.thy ===== *)
theory Device_Client
  imports Adapter Kernel_Cli
begin

text \<open>
  The command-line client of the daemon, \<^verbatim>\<open>src/src/tools/qnova_device_client.c\<close>, over the scripted system calls.
\<close>

section \<open>Arguments\<close>

datatype client_value = V_text string | V_unsigned nat | V_double u64

datatype client_line =
    C_usage
  | C_error string
  | C_unknown string
  | C_invalid string string
  | C_perror string
  | C_field string client_value

definition parse_unsigned :: "string \<Rightarrow> nat \<Rightarrow> string \<Rightarrow> client_line + u64" where
  "parse_unsigned text maximum label =
     (if starts_negative text then Inl (C_invalid label text)
      else case strtoull 0 text of
             Some (v, erange, []) \<Rightarrow> if erange \<or> v > maximum then Inl (C_invalid label text) else Inr (of_nat v)
           | _ \<Rightarrow> Inl (C_invalid label text))"

definition empty_request :: QCPUDeviceRequest where
  "empty_request = \<lparr> dq_magic = QCPU_DEVICE_REQUEST_MAGIC, dq_version = QCPU_DEVICE_PROTOCOL_VERSION,
     dq_command = 0, dq_qubits = 0, dq_shots = 0, dq_seed = 0 \<rparr>"

definition client_request :: "string list \<Rightarrow> client_line + QCPUDeviceRequest" where
  "client_request argv =
     (if length argv < 4 \<or> argv ! 1 \<noteq> ''--socket'' then Inl C_usage
      else if argv ! 3 = ''status''
      then if length argv \<noteq> 4 then Inl (C_error ''status takes no arguments'')
           else Inr (empty_request\<lparr>dq_command := QCPU_DEVICE_COMMAND_STATUS\<rparr>)
      else if argv ! 3 = ''run-ghz''
      then if length argv \<noteq> 7 then Inl (C_error ''run-ghz requires QUBITS SHOTS SEED'')
           else case parse_unsigned (argv ! 4) (unat QCPU_DEVICE_MAX_QUBITS) ''qubit count'' of
               Inl l \<Rightarrow> Inl l
             | Inr qubits \<Rightarrow>
             case parse_unsigned (argv ! 5) (unat QCPU_DEVICE_MAX_SHOTS) ''shot count'' of
               Inl l \<Rightarrow> Inl l
             | Inr shots \<Rightarrow>
             case parse_unsigned (argv ! 6) (2 ^ 64 - 1) ''seed'' of
               Inl l \<Rightarrow> Inl l
             | Inr seed \<Rightarrow>
               Inr (empty_request\<lparr>dq_command := QCPU_DEVICE_COMMAND_RUN_GHZ,
                      dq_qubits := ucast qubits, dq_shots := ucast shots, dq_seed := seed\<rparr>)
      else Inl (C_unknown (argv ! 3)))"

section \<open>The exchange\<close>

definition print_response :: "QCPUDeviceResponse \<Rightarrow> client_line list" where
  "print_response response =
     [C_field ''DEVICE'' (V_text ''qcpu0''),
      C_field ''TYPE'' (V_text ''SOFTWARE_VIRTUAL_QCPU''),
      C_field ''HOST'' (V_text ''CLASSICAL_CPU''),
      C_field ''PHYSICAL_QPU_PRESENT''
        (V_text (if dr_flags response AND QCPU_DEVICE_FLAG_PHYSICAL_QPU_ABSENT \<noteq> 0 then ''NO'' else ''UNKNOWN'')),
      C_field ''Q0_ORDER''
        (V_text (if dr_flags response AND QCPU_DEVICE_FLAG_Q0_MOST_SIGNIFICANT \<noteq> 0 then ''MOST_SIGNIFICANT''
                 else ''UNKNOWN'')),
      C_field ''QUBITS'' (V_unsigned (unat (dr_qubits response))),
      C_field ''BASIS_STATES'' (V_unsigned (unat (dr_basis_states response))),
      C_field ''SHOTS'' (V_unsigned (unat (dr_shots response))),
      C_field ''MEASURED_STATE'' (V_unsigned (unat (dr_measured_state response))),
      C_field ''INVALID_RESULTS'' (V_unsigned (unat (dr_invalid_results response))),
      C_field ''NORM'' (V_double (dr_norm response)),
      C_field ''STATUS_CODE'' (V_unsigned (unat (dr_status response))),
      C_field ''STATUS''
        (V_text (if dr_status response = device_status_code QCPU_DEVICE_STATUS_OK then ''PASS'' else ''FAIL''))]"

definition client_receive :: "int \<Rightarrow> os \<Rightarrow> ((int \<times> client_line list) \<times> os) option" where
  "client_receive fd s =
     do { ((io_status, response_wire), s) \<leftarrow>
            qcpu_device_read_all fd (Some (replicate QCPU_DEVICE_RESPONSE_WIRE_SIZE 0))
              QCPU_DEVICE_RESPONSE_WIRE_SIZE QCPU_DEVICE_IO_TIMEOUT_MS False s;
          if io_status \<noteq> QCPU_DEVICE_IO_OK
          then Some ((1, [C_error (if io_status = QCPU_DEVICE_IO_TIMEOUT then ''response read timeout''
                                   else ''response read failed'')]), close_fd fd s)
          else let s = close_fd fd s
               in case qcpu_device_decode_response (Some zero_response) response_wire QCPU_DEVICE_RESPONSE_WIRE_SIZE of
                    (QCPU_DEVICE_STATUS_OK, response) \<Rightarrow>
                      Some ((if dr_status (the response) = device_status_code QCPU_DEVICE_STATUS_OK then 0 else 1,
                             print_response (the response)), s)
                  | (_, _) \<Rightarrow> Some ((1, [C_error ''invalid response packet'']), s) }"

definition client_send :: "int \<Rightarrow> u8 list option \<Rightarrow> os \<Rightarrow> ((int \<times> client_line list) \<times> os) option" where
  "client_send fd request_wire s =
     do { (io_status, s) \<leftarrow>
            qcpu_device_write_all fd request_wire QCPU_DEVICE_REQUEST_WIRE_SIZE QCPU_DEVICE_IO_TIMEOUT_MS False s;
          if io_status \<noteq> QCPU_DEVICE_IO_OK
          then Some ((1, [C_error (if io_status = QCPU_DEVICE_IO_TIMEOUT then ''request write timeout''
                                   else ''request write failed'')]), close_fd fd s)
          else do { (shut, s) \<leftarrow> sys_call (act (Act_shut fd 1) s);
                    case shut of
                      Inl _ \<Rightarrow> Some ((1, [C_perror ''shutdown'']), close_fd fd s)
                    | Inr _ \<Rightarrow> client_receive fd s } }"

definition client_main :: "string list \<Rightarrow> os \<Rightarrow> ((int \<times> client_line list) \<times> os) option" where
  "client_main argv s =
     (case client_request argv of
        Inl l \<Rightarrow> Some ((1, [l]), s)
      | Inr request \<Rightarrow>
          (case qcpu_device_encode_request (Some (replicate QCPU_DEVICE_REQUEST_WIRE_SIZE 0)) (Some request) of
             (QCPU_DEVICE_STATUS_OK, request_wire) \<Rightarrow>
               do { ((fd, errno), s) \<leftarrow> qcpu_device_connect_unix (Some (argv ! 2)) QCPU_DEVICE_IO_TIMEOUT_MS s;
                    if fd < 0
                    then Some ((1, [if fd = io_status_code QCPU_DEVICE_IO_TIMEOUT then C_error ''connection timeout''
                                    else C_perror ''connect'']), s)
                    else client_send fd request_wire s }
           | (_, _) \<Rightarrow> Some ((1, [C_error ''request encoding failed'']), s)))"

section \<open>Descriptors and packets\<close>

text \<open>
  The outcome of the part of the program that owns the descriptor \<open>fd\<close>: a prefix of the request went out, \<open>packet\<close>
  came in; the exit status is 0 only for a whole packet with status OK, and every whole packet is reported.
\<close>

definition client_owns :: "int \<Rightarrow> u8 list \<Rightarrow> os \<Rightarrow> int \<Rightarrow> client_line list \<Rightarrow> os \<Rightarrow> bool" where
  "client_owns fd out s r lines s' \<longleftrightarrow>
     opens (trace s') = opens (trace s) \<and> closes (trace s') = closes (trace s) @ [fd] \<and> (r = 0 \<or> r = 1) \<and>
     (\<exists>n packet. sent fd (trace s') = sent fd (trace s) @ take n out \<and>
        received fd (trace s') = received fd (trace s) @ packet \<and>
        (r = 0 \<longrightarrow> take n out = out \<and> length packet = QCPU_DEVICE_RESPONSE_WIRE_SIZE \<and>
          (\<exists>d. qcpu_device_decode_response (Some zero_response) (Some packet) QCPU_DEVICE_RESPONSE_WIRE_SIZE =
              (QCPU_DEVICE_STATUS_OK, Some d) \<and>
            dr_status d = device_status_code QCPU_DEVICE_STATUS_OK \<and> lines = print_response d)) \<and>
        (\<forall>d. length packet = QCPU_DEVICE_RESPONSE_WIRE_SIZE \<longrightarrow>
          qcpu_device_decode_response (Some zero_response) (Some packet) QCPU_DEVICE_RESPONSE_WIRE_SIZE =
            (QCPU_DEVICE_STATUS_OK, Some d) \<longrightarrow>
          r = (if dr_status d = device_status_code QCPU_DEVICE_STATUS_OK then 0 else 1) \<and> lines = print_response d))"

lemma client_owns_failed:
  assumes "transfers s s1" and "sent fd (trace s1) = sent fd (trace s) @ take n out"
    and "received fd (trace s1) = received fd (trace s) @ packet"
    and "\<And>d. length packet = QCPU_DEVICE_RESPONSE_WIRE_SIZE \<Longrightarrow>
      qcpu_device_decode_response (Some zero_response) (Some packet) QCPU_DEVICE_RESPONSE_WIRE_SIZE =
        (QCPU_DEVICE_STATUS_OK, Some d) \<Longrightarrow>
      dr_status d \<noteq> device_status_code QCPU_DEVICE_STATUS_OK \<and> lines = print_response d"
  shows "client_owns fd out s 1 lines (close_fd fd s1)"
  unfolding client_owns_def using transfers_fds [OF assms(1)] assms(2-4)
  by (intro conjI exI [of _ n] exI [of _ packet]) simp_all

lemma client_owns_silent:
  assumes "transfers s s1" and "sent fd (trace s1) = sent fd (trace s) @ take n out"
    and "received fd (trace s1) = received fd (trace s)"
  shows "client_owns fd out s 1 lines (close_fd fd s1)"
  using assms client_owns_failed [of s s1 fd n out "[]"] by (simp add: QCPU_DEVICE_RESPONSE_WIRE_SIZE_def)

lemma client_receive_owns:
  assumes "client_receive fd s = Some ((r, lines), s')"
  shows "client_owns fd [] s r lines s'"
proof -
  let ?buf = "replicate QCPU_DEVICE_RESPONSE_WIRE_SIZE (0 :: u8)"
  obtain st wire s1 where rd: "qcpu_device_read_all fd (Some ?buf) QCPU_DEVICE_RESPONSE_WIRE_SIZE
      QCPU_DEVICE_IO_TIMEOUT_MS False s = Some ((st, wire), s1)"
    using assms by (auto simp: client_receive_def elim!: bindE)
  have t: "transfers s s1" by (rule read_all_transfers [OF rd])
  obtain new where new: "received fd (trace s1) = received fd (trace s) @ new"
      "\<forall>f. sent f (trace s1) = sent f (trace s)" "wire = Some (new @ drop (length new) ?buf)"
      "st = QCPU_DEVICE_IO_OK \<longleftrightarrow> length new = QCPU_DEVICE_RESPONSE_WIRE_SIZE"
    using read_all_exact [OF rd] by (auto simp: QCPU_DEVICE_RESPONSE_WIRE_SIZE_def)
  show ?thesis
  proof (cases "st = QCPU_DEVICE_IO_OK")
    case False
    then have "r = 1" "s' = close_fd fd s1" using assms rd by (auto simp: client_receive_def)
    then show ?thesis using client_owns_failed [OF t, of fd 0 "[]" new lines] new False by simp
  next
    case True
    then have wire: "wire = Some new" "length new = QCPU_DEVICE_RESPONSE_WIRE_SIZE" using new by auto
    obtain ds d where dec: "qcpu_device_decode_response (Some zero_response) (Some new) QCPU_DEVICE_RESPONSE_WIRE_SIZE =
        (ds, Some d)"
      using decode_response_Some by blast
    show ?thesis
    proof (cases "ds = QCPU_DEVICE_STATUS_OK \<and> dr_status d = device_status_code QCPU_DEVICE_STATUS_OK")
      case ok: True
      then have "r = 0" "lines = print_response d" "s' = close_fd fd s1"
        using assms rd True wire dec by (auto simp: client_receive_def Let_def)
      then show ?thesis
        unfolding client_owns_def using transfers_fds [OF t] new(1,2) wire dec ok
        by (intro conjI exI [of _ 0] exI [of _ new]) simp_all
    next
      case bad: False
      then have "r = 1" "s' = close_fd fd s1" "ds = QCPU_DEVICE_STATUS_OK \<longrightarrow> lines = print_response d"
        using assms rd True wire dec by (cases ds; auto simp: client_receive_def Let_def)+
      then show ?thesis using client_owns_failed [OF t, of fd 0 "[]" new lines] new(1,2) dec bad by auto
    qed
  qed
qed

lemma client_send_owns:
  assumes "client_send fd (Some out) s = Some ((r, lines), s')" and len: "length out = QCPU_DEVICE_REQUEST_WIRE_SIZE"
  shows "client_owns fd out s r lines s'"
proof -
  obtain st s1 where wr: "qcpu_device_write_all fd (Some out) QCPU_DEVICE_REQUEST_WIRE_SIZE
      QCPU_DEVICE_IO_TIMEOUT_MS False s = Some (st, s1)"
    using assms by (auto simp: client_send_def elim!: bindE)
  have t: "transfers s s1" by (rule write_all_transfers [OF wr])
  obtain n where n: "sent fd (trace s1) = sent fd (trace s) @ take n out"
      "\<forall>f. received f (trace s1) = received f (trace s)"
      "st = QCPU_DEVICE_IO_OK \<longleftrightarrow> n = QCPU_DEVICE_REQUEST_WIRE_SIZE"
    using write_all_exact [OF wr len] by (auto simp: QCPU_DEVICE_REQUEST_WIRE_SIZE_def)
  show ?thesis
  proof (cases "st = QCPU_DEVICE_IO_OK")
    case False
    then have "r = 1" "s' = close_fd fd s1" using assms wr by (auto simp: client_send_def)
    then show ?thesis using client_owns_silent [OF t n(1)] n(2) by simp
  next
    case True
    obtain shut s2 where sh: "sys_call (act (Act_shut fd 1) s1) = Some (shut, s2)"
      using assms wr True by (auto simp: client_send_def elim!: bindE)
    have q: "silent s1 s2" by (rule shut_silent [OF sh])
    have t2: "transfers s s2" using t q by (rule transfers_silent)
    show ?thesis
    proof (cases shut)
      case (Inl e)
      then have "r = 1" "s' = close_fd fd s2" using assms wr True sh by (auto simp: client_send_def)
      then show ?thesis using client_owns_silent [OF t2, of fd n out lines] n q by (simp add: silent_def)
    next
      case (Inr v)
      then have "client_receive fd s2 = Some ((r, lines), s')" using assms wr True sh by (auto simp: client_send_def)
      note own = client_receive_owns [OF this]
      have b: "sent fd (trace s2) = sent fd (trace s) @ out" "received fd (trace s2) = received fd (trace s)"
        using n q True len by (auto simp: silent_def)
      show ?thesis
        using own transfers_fds [OF t2] b unfolding client_owns_def
        by (elim exE conjE) (intro conjI exI [of _ "length out"] exI, simp_all)
    qed
  qed
qed

text \<open>The whole program: the descriptors, and what it moved on the one it opened.\<close>

lemma client_main_owns:
  assumes "client_main argv s = Some ((r, lines), s')"
  shows "r = 1 \<and> opens (trace s') = opens (trace s) \<and> closes (trace s') = closes (trace s) \<or>
     r = 1 \<and> (\<exists>fd. opens (trace s') = opens (trace s) @ [fd] \<and> closes (trace s') = closes (trace s) @ [fd]) \<and>
       (\<forall>f. received f (trace s') = received f (trace s) \<and> sent f (trace s') = sent f (trace s)) \<or>
     (\<exists>fd request s1. client_request argv = Inr request \<and> client_owns fd (request_bytes request) s1 r lines s' \<and>
        opens (trace s1) = opens (trace s) @ [fd] \<and> closes (trace s1) = closes (trace s) \<and>
        received fd (trace s1) = received fd (trace s) \<and> sent fd (trace s1) = sent fd (trace s))"
proof (cases "client_request argv")
  case (Inl l)
  then show ?thesis using assms by (auto simp: client_main_def)
next
  case (Inr request)
  obtain fd e s1 where c: "qcpu_device_connect_unix (Some (argv ! 2)) QCPU_DEVICE_IO_TIMEOUT_MS s = Some ((fd, e), s1)"
    using assms Inr by (auto simp: client_main_def encode_request_bytes elim!: bindE)
  show ?thesis
  proof (cases "fd < 0")
    case True
    then have "r = 1" "s' = s1" using assms Inr c by (auto simp: client_main_def encode_request_bytes)
    then show ?thesis using connect_cases [OF c] connect_bytes [OF c] True by auto
  next
    case False
    then have snd: "client_send fd (Some (request_bytes request)) s1 = Some ((r, lines), s')"
      using assms Inr c by (simp add: client_main_def encode_request_bytes)
    have "opens (trace s1) = opens (trace s) @ [fd]" "closes (trace s1) = closes (trace s)"
      using connect_cases [OF c] False by auto
    then show ?thesis
      using client_send_owns [OF snd length_request_bytes] Inr connect_bytes [OF c, of fd] by blast
  qed
qed

lemma client_connection:
  assumes "client_main argv \<lparr>script = es, trace = []\<rparr> = Some ((r, lines), s')" and "client_request argv = Inr request"
    and "opens (trace s') = [fd]"
  obtains n packet where "sent fd (trace s') = take n (request_bytes request)" "received fd (trace s') = packet"
      "closes (trace s') = [fd]" "r = 0 \<or> r = 1" "r = 0 \<longrightarrow> length packet = QCPU_DEVICE_RESPONSE_WIRE_SIZE"
      "\<forall>d. length packet = QCPU_DEVICE_RESPONSE_WIRE_SIZE \<longrightarrow>
         qcpu_device_decode_response (Some zero_response) (Some packet) QCPU_DEVICE_RESPONSE_WIRE_SIZE =
           (QCPU_DEVICE_STATUS_OK, Some d) \<longrightarrow>
         r = (if dr_status d = device_status_code QCPU_DEVICE_STATUS_OK then 0 else 1) \<and> lines = print_response d"
proof -
  from client_main_owns [OF assms(1)] consider (failed) "r = 1" "closes (trace s') = [fd]" "received fd (trace s') = []"
      "sent fd (trace s') = []"
    | (run) f req s1 where "client_request argv = Inr req" "client_owns f (request_bytes req) s1 r lines s'"
        "opens (trace s1) = [f]" "closes (trace s1) = []" "received f (trace s1) = []" "sent f (trace s1) = []"
    using assms(3) by (elim disjE exE conjE) simp_all
  then show ?thesis
  proof cases
    case failed
    then show ?thesis using that [of 0 "[]"] by (simp add: QCPU_DEVICE_RESPONSE_WIRE_SIZE_def)
  next
    case run
    have f: "f = fd" "req = request" using run(1-3) assms(2,3) by (simp_all add: client_owns_def)
    have g: "client_owns fd (request_bytes request) s1 r lines s'" "closes (trace s1) = []" "received fd (trace s1) = []"
        "sent fd (trace s1) = []"
      using run f by simp_all
    show ?thesis
      using g(1) unfolding client_owns_def g(2-4) append_Nil
      by (elim exE conjE) (rule that, assumption+, blast, assumption)
  qed
qed

text \<open>
  C31: on every path through the client, whatever its arguments and whatever fails, each descriptor it opened is closed
  and no other, and the exit status is 0 or 1.  It is 0 only when the arguments describe a request, exactly the
  packet of that request was sent on the one connection and exactly one packet was received there, which
  decodes to a response with status OK; the output is then that response.
\<close>

theorem client_main_protocol:
  assumes "client_main argv s = Some ((r, lines), s')"
  shows "\<exists>fds. opens (trace s') = opens (trace s) @ fds \<and> closes (trace s') = closes (trace s) @ fds \<and> length fds \<le> 1 \<and>
     (r = 0 \<or> r = 1) \<and>
     (r = 0 \<longrightarrow> (\<exists>fd request packet d. fds = [fd] \<and> client_request argv = Inr request \<and>
        sent fd (trace s') = sent fd (trace s) @ request_bytes request \<and>
        received fd (trace s') = received fd (trace s) @ packet \<and> length packet = QCPU_DEVICE_RESPONSE_WIRE_SIZE \<and>
        qcpu_device_decode_response (Some zero_response) (Some packet) QCPU_DEVICE_RESPONSE_WIRE_SIZE =
          (QCPU_DEVICE_STATUS_OK, Some d) \<and>
        dr_status d = device_status_code QCPU_DEVICE_STATUS_OK \<and> lines = print_response d))"
  using client_main_owns [OF assms]
proof (elim disjE exE conjE)
  fix fd request s1
  assume "client_request argv = Inr request" "client_owns fd (request_bytes request) s1 r lines s'"
    "opens (trace s1) = opens (trace s) @ [fd]" "closes (trace s1) = closes (trace s)"
    "received fd (trace s1) = received fd (trace s)" "sent fd (trace s1) = sent fd (trace s)"
  then show ?thesis
    by (intro exI [of _ "[fd]"]) (auto simp: client_owns_def)
qed auto

section \<open>An exchange with nothing in its way\<close>

definition clean_client :: "int \<Rightarrow> u8 list \<Rightarrow> os_event list" where
  "clean_client fd packet =
     [Ev_call (Inr fd), Ev_getfl 2048, Ev_call (Inr 0),
      Ev_clock (Some (1, 0)), Ev_getfl 2048, Ev_send (Inr QCPU_DEVICE_REQUEST_WIRE_SIZE), Ev_call (Inr 0),
      Ev_clock (Some (1, 0)), Ev_getfl 2048, Ev_read (Inr packet)]"

lemma clean_client_main:
  assumes req: "client_request argv = Inr request"
    and dec: "qcpu_device_decode_response (Some zero_response) (Some packet) QCPU_DEVICE_RESPONSE_WIRE_SIZE =
      (QCPU_DEVICE_STATUS_OK, Some d)"
    and len: "length packet = QCPU_DEVICE_RESPONSE_WIRE_SIZE" and path: "length (argv ! 2) < 108" and fd: "0 \<le> fd"
  shows "client_main argv \<lparr>script = clean_client fd packet, trace = []\<rparr> =
     Some ((if dr_status d = device_status_code QCPU_DEVICE_STATUS_OK then 0 else 1, print_response d),
       \<lparr>script = [], trace = clean_trace fd (request_bytes request) packet\<rparr>)"
proof -
  have s: "0 < QCPU_DEVICE_REQUEST_WIRE_SIZE" "0 < QCPU_DEVICE_RESPONSE_WIRE_SIZE" by (simp_all add: wire_size_defs)
  have ms: "0 < QCPU_DEVICE_IO_TIMEOUT_MS" by (simp add: QCPU_DEVICE_IO_TIMEOUT_MS_def)
  show ?thesis
    by (simp add: client_main_def req encode_request_bytes clean_client_def path fd not_less [THEN iffD2, OF fd] s ms
        clean_connect clean_write clean_read client_send_def client_receive_def sys_call_def act_def len dec close_fd_def
        clean_trace_def Let_def del: replicate.simps)
qed

lemma client_numbers:
  "parse_unsigned ''3'' (unat QCPU_DEVICE_MAX_QUBITS) ''qubit count'' = Inr 3"
  "parse_unsigned ''50'' (unat QCPU_DEVICE_MAX_SHOTS) ''shot count'' = Inr 50"
  "parse_unsigned ''42'' (2 ^ 64 - 1) ''seed'' = Inr 42"
  by (simp_all add: parse_unsigned_def strtoull_def starts_negative_def digit_of_def char_class_defs Let_def protocol_consts)

lemma sample_client_request:
  "client_request [''qnova-device'', ''--socket'', ''q'', ''run-ghz'', ''3'', ''50'', ''42''] = Inr sample_request"
  by (simp add: client_request_def client_numbers [simplified] empty_request_def sample_request_def)

theorem client_main_protocol_witness:
  "\<exists>packet lines s'. client_main [''qnova-device'', ''--socket'', ''q'', ''run-ghz'', ''3'', ''50'', ''42'']
        \<lparr>script = clean_client 3 packet, trace = []\<rparr> = Some ((0, lines), s') \<and>
     sent 3 (trace s') = request_bytes sample_request \<and> closes (trace s') = [3]"
proof -
  let ?argv = "[''qnova-device'', ''--socket'', ''q'', ''run-ghz'', ''3'', ''50'', ''42'']"
  let ?d = "process_request rnd_double (True, True) sample_request"
  have dec: "qcpu_device_decode_response (Some zero_response) (Some (response_bytes ?d)) QCPU_DEVICE_RESPONSE_WIRE_SIZE =
      (QCPU_DEVICE_STATUS_OK, Some ?d)"
    by (simp add: decode_response_bytes answer_header header_status_def)
  have st: "dr_status ?d = device_status_code QCPU_DEVICE_STATUS_OK"
    using run_ghz_answer [OF sample_request_in_range, of response_init]
    by (auto simp: process_request_def sample_request_fields protocol_consts)
  have run: "client_main ?argv \<lparr>script = clean_client 3 (response_bytes ?d), trace = []\<rparr> =
      Some ((0, print_response ?d), \<lparr>script = [], trace = clean_trace 3 (request_bytes sample_request) (response_bytes ?d)\<rparr>)"
    using clean_client_main [OF sample_client_request dec length_response_bytes, of 3] st by simp
  from client_main_protocol [OF run] run show ?thesis
    by (intro exI [of _ "response_bytes ?d"] exI [of _ "print_response ?d"] exI conjI) (auto simp: clean_trace_def)
qed

end
