(* ===== verification/Drag.thy ===== *)
theory Drag
  imports Circuit
begin

text \<open>
  The stand-alone reader of \<^verbatim>\<open>.drag\<close> files, \<^verbatim>\<open>src/src/drag.c\<close>.  It shares the reading of lines with the circuit
  machine, whose buffer has the same size.
\<close>

section \<open>The program\<close>

text \<open>A quoted message whose rest has fewer than two characters makes the program write before its start.\<close>

datatype drag_stop = Write_before_message

datatype drag_line = D_banner | D_usage | D_cannot_open string | D_say string

definition say_message :: "string \<Rightarrow> drag_stop + string" where
  "say_message msg =
     (if msg \<noteq> [] \<and> hd msg = CHR 0x22
      then let msg = tl msg in if length msg < 2 then Inl Write_before_message else Inr (take (length msg - 2) msg)
      else Inr msg)"

definition drag_step :: "string \<Rightarrow> drag_stop + drag_line list" where
  "drag_step line =
     (if take 4 line = ''say '' then ebind (say_message (drop 4 line)) (\<lambda>msg. Inr [D_say msg]) else Inr [])"

fun drag_loop :: "string list \<Rightarrow> drag_stop + drag_line list" where
  "drag_loop [] = Inr []"
| "drag_loop (l # ls) = ebind (drag_step (cstr l)) (\<lambda>out. ebind (drag_loop ls) (\<lambda>rest. Inr (out @ rest)))"

definition drag_main :: "(string \<Rightarrow> string option) \<Rightarrow> string list \<Rightarrow> drag_stop + int \<times> drag_line list" where
  "drag_main files argv =
     (if length argv < 2 then Inr (0, [D_banner, D_usage])
      else case files (argv ! 1) of
             None \<Rightarrow> Inr (1, [D_cannot_open (argv ! 1)])
           | Some contents \<Rightarrow> ebind (drag_loop (read_lines contents)) (\<lambda>out. Inr (0, out)))"

section \<open>What a file says\<close>

text \<open>The lines of a file, as they are written and as they should be answered.\<close>

datatype drag_command = Say_quoted string | Say_plain string | Ignored string

fun drag_text :: "drag_command \<Rightarrow> string" where
  "drag_text (Say_quoted m) = ''say '' @ CHR 0x22 # m @ [CHR 0x22]"
| "drag_text (Say_plain m) = ''say '' @ m"
| "drag_text (Ignored l) = l"

fun drag_output :: "drag_command \<Rightarrow> drag_line list" where
  "drag_output (Say_quoted m) = [D_say m]"
| "drag_output (Say_plain m) = [D_say (m @ [CHR 0x0A])]"
| "drag_output (Ignored l) = []"

definition drag_command_ok :: "drag_command \<Rightarrow> bool" where
  "drag_command_ok c \<longleftrightarrow> length (drag_text c) < 255 \<and> CHR 0x0A \<notin> set (drag_text c) \<and> CHR 0x00 \<notin> set (drag_text c) \<and>
     (case c of Say_quoted _ \<Rightarrow> True | Say_plain m \<Rightarrow> take 1 m \<noteq> [CHR 0x22] | Ignored l \<Rightarrow> take 4 l \<noteq> ''say '')"

definition drag_source :: "drag_command list \<Rightarrow> string" where
  "drag_source cs = concat (map (\<lambda>c. drag_text c @ [CHR 0x0A]) cs)"

lemma drag_step_text:
  assumes "drag_command_ok c"
  shows "drag_step (drag_text c @ [CHR 0x0A]) = Inr (drag_output c)"
proof (cases c)
  case (Say_plain m)
  then show ?thesis
    using assms by (cases m) (simp_all add: drag_step_def say_message_def drag_command_ok_def)
next
  case (Ignored l)
  then have "take 4 l \<noteq> ''say ''" using assms by (simp add: drag_command_ok_def)
  moreover have "take 4 (l @ [CHR 0x0A]) \<noteq> ''say ''" if "length l < 4"
  proof
    assume e: "take 4 (l @ [CHR 0x0A]) = ''say ''"
    then have "l @ [CHR 0x0A] = ''say ''" using that by (simp add: take_all)
    from arg_cong [OF this, of last] show False by simp
  qed
  ultimately have "take 4 (l @ [CHR 0x0A]) \<noteq> ''say ''" by (cases "length l < 4") simp_all
  then show ?thesis using Ignored by (simp add: drag_step_def)
qed (simp add: drag_step_def say_message_def)

lemma drag_loop_source:
  assumes "list_all drag_command_ok cs"
  shows "drag_loop (read_lines (drag_source cs @ rest)) =
     ebind (drag_loop (read_lines rest)) (\<lambda>out. Inr (concat (map drag_output cs) @ out))"
  using assms
proof (induction cs)
  case Nil
  then show ?case by (cases "drag_loop (read_lines rest)") (simp_all add: drag_source_def)
next
  case (Cons c cs)
  then have ok: "length (drag_text c) < 255" "CHR 0x0A \<notin> set (drag_text c)" "CHR 0x00 \<notin> set (drag_text c)"
    by (simp_all add: drag_command_ok_def)
  have "cstr (drag_text c @ [CHR 0x0A]) = drag_text c @ [CHR 0x0A]"
    using ok(3) unfolding cstr_def takeWhile_eq_all_conv by auto
  moreover have "read_lines (drag_source (c # cs) @ rest) = (drag_text c @ [CHR 0x0A]) # read_lines (drag_source cs @ rest)"
    using read_lines_cons [OF ok(2,1)] by (simp add: drag_source_def)
  ultimately show ?case
    using Cons drag_step_text [of c] by (cases "drag_loop (read_lines rest)") simp_all
qed

text \<open>
  A file of lines that fit the buffer is answered line by line: a quoted message is said without its quotes, a
  message without quotes with its line feed, and every other line is ignored.  Only in a last line without line feed
  a quoted message loses its last character.
\<close>

theorem drag_says:
  assumes "list_all drag_command_ok cs" and "drag_command_ok (Say_quoted m)" and "m \<noteq> []"
    and "files path = Some (drag_source cs @ final_line)"
    and "final_line \<in> {[], drag_text (Say_quoted m)}"
  shows "drag_main files [prog, path] =
     Inr (0, concat (map drag_output cs) @ (if final_line = [] then [] else [D_say (butlast m)]))"
proof -
  have "drag_loop (read_lines final_line) = Inr (if final_line = [] then [] else [D_say (butlast m)])"
  proof (cases "final_line = []")
    case True
    then show ?thesis by (simp add: read_lines.simps)
  next
    case False
    then have l: "final_line = drag_text (Say_quoted m)" using assms(5) by blast
    have w: "length final_line < 255" "CHR 0x0A \<notin> set final_line" "CHR 0x00 \<notin> set final_line"
      using assms(2) unfolding drag_command_ok_def l by blast+
    have "takeWhile (\<lambda>c. c \<noteq> CHR 0x0A) (take 255 final_line) = final_line"
      using w(1,2) by (simp add: takeWhile_eq_all_conv) blast
    then have "fgets_line final_line = final_line" unfolding fgets_line_def Let_def by simp
    then have "read_lines final_line = [final_line]" using False by (simp add: read_lines.simps)
    moreover have "cstr final_line = final_line" using w(3) unfolding cstr_def takeWhile_eq_all_conv by auto
    moreover have "drag_step final_line = Inr [D_say (butlast m)]"
      using assms(3) unfolding l by (simp add: drag_step_def say_message_def butlast_conv_take Suc_le_eq)
    ultimately show ?thesis using False by simp
  qed
  then show ?thesis using drag_loop_source [OF assms(1), of final_line] assms(4) by (simp add: drag_main_def)
qed

theorem drag_says_witness:
  "drag_main [''f'' \<mapsto> ''say '' @ CHR 0x22 # ''hello'' @ CHR 0x22 # CHR 0x0A # ''say '' @ CHR 0x22 # ''you'' @ [CHR 0x22]] [''drag'', ''f''] =
     Inr (0, [D_say ''hello'', D_say ''yo''])"
  using drag_says [of "[Say_quoted ''hello'']" "''you''" "[''f'' \<mapsto> ''say '' @ CHR 0x22 # ''hello'' @ CHR 0x22 # CHR 0x0A # ''say '' @ CHR 0x22 # ''you'' @ [CHR 0x22]]"
      "''f''" "''say '' @ CHR 0x22 # ''you'' @ [CHR 0x22]" "''drag''"]
  by (simp add: drag_command_ok_def drag_source_def)

end
