(* ===== verification/Spec2Isabelle.thy ===== *)
theory Spec2Isabelle
  imports "HOL-Library.Sublist" Wire Qcpud Frontend_Properties Adapter Runner Qasm Interpreter Circuit Kernel_Cli Device_Client Drag
begin

text \<open>
  \<^bold>\<open>QBIT NOVA C: a verification of the virtual QCPU stack.\<close>

  The program simulates a quantum processor on a classical host.  Its parts, and how they meet:

  \<^item> the \<^emph>\<open>kernel\<close> (\<^verbatim>\<open>src/src/quantum/qcpu_kernel.c\<close>) holds a state vector of at most 20 qubits and
    applies gates, prepares GHZ states, samples shots and measures;
  \<^item> the \<^emph>\<open>daemon\<close> (\<^verbatim>\<open>src/src/device/qcpud.c\<close>) accepts one 24-byte request per connection on a Unix
    socket, runs the kernel and answers with 56 bytes; \<^verbatim>\<open>qcpu_device_wire.c\<close> and
    \<^verbatim>\<open>qcpu_device_protocol.h\<close> are the packet format, \<^verbatim>\<open>qcpu_device_io.c\<close> the socket I/O with deadlines;
  \<^item> the \<^emph>\<open>frontend\<close> (\<^verbatim>\<open>src/src/device/qcpu_mock_frontend.c\<close>, with the interface
    \<^verbatim>\<open>src/include/uapi/qcpu_device_uapi.h\<close>) is a device in user space: one session, one exchange in
    flight, a worker thread per exchange, timeouts, cancellation, counters, and a backend behind
    two function pointers;
  \<^item> the \<^emph>\<open>adapter\<close> (\<^verbatim>\<open>src/src/device/qcpu_qcpud_adapter.c\<close>) is the backend that forwards an
    exchange to the daemon;
  \<^item> the \<^emph>\<open>tool chain\<close> of the language: lexer, parser and compiler to bytecode
    (\<^verbatim>\<open>src/src/lexer\<close>, \<^verbatim>\<open>src/src/parser\<close>, \<^verbatim>\<open>src/src/compiler\<close>), two virtual machines for the
    bytecode (\<^verbatim>\<open>src/src/vm/byte_vm.c\<close>, and \<^verbatim>\<open>state2_vm.c\<close> on the two-qubit vector of
    \<^verbatim>\<open>src/src/quantum/state2.c\<close>), the whitelist of hardware actions the first one calls
    (\<^verbatim>\<open>src/src/adapter/safe_adapter.c\<close>), the runner that connects them (\<^verbatim>\<open>src/src/qnova.c\<close>), an
    interpreter of syntax trees (\<^verbatim>\<open>src/src/vm/interpreter.c\<close>) and an exporter to OpenQASM
    (\<^verbatim>\<open>src/src/tools/qasm_export.c\<close>);
  \<^item> \<^emph>\<open>programs\<close> beside them: the client of the daemon and a front end of the kernel
    (\<^verbatim>\<open>src/src/tools/qnova_device_client.c\<close>, \<^verbatim>\<open>qnova_kernel_cli.c\<close>), a GHZ demonstration and a machine for
    circuit files with state vectors of their own (\<^verbatim>\<open>src/src/quantum/stateN.c\<close>, \<^verbatim>\<open>qcircuit.c\<close>), and
    a small reader of \<^verbatim>\<open>.drag\<close> files (\<^verbatim>\<open>src/src/drag.c\<close>).

  \<^bold>\<open>Theories and the code they model.\<close>

  \<^item> \<open>Prelude\<close>: integer types, bytes of words, list and loop lemmas.
  \<^item> \<open>Wire\<close>: \<^verbatim>\<open>qcpu_device_protocol.h\<close>, \<^verbatim>\<open>qcpu_device_wire.c\<close>.  Structs are records of words, a packet is
    a list of bytes; the locale \<open>le_field\<close> is the contract of a little-endian field, interpreted for
    16, 32 and 64 bits, and the round trips of the codec rest on its facts.
  \<^item> \<open>Binary64\<close>: \<^verbatim>\<open>double\<close> arithmetic is real arithmetic followed by a rounding, which every
    floating-point definition takes as an argument; the locale \<open>fp_rounding\<close> says what is used of a
    rounding, and \<open>rnd_prec p\<close> (round to nearest even at \<open>p\<close> bits) interprets it; \<open>rnd_double\<close> is the
    instance of 53 bits.  Exponents are unbounded: no computation of the kernel overflows or
    underflows, since amplitudes are at most one and at least \<open>2 ^ -20\<close> or zero in the theorems on
    binary64.  The exact-arithmetic theorems are the instance \<open>id\<close>.
  \<^item> \<open>Kernel\<close>, \<open>Kernel_Gates\<close>, \<open>Ghz\<close>: \<^verbatim>\<open>qcpu_kernel.c\<close>.  A kernel object is the record \<open>QCPUKernel\<close>,
    \<^verbatim>\<open>NULL\<close> arguments are \<open>None\<close>, the result of \<^verbatim>\<open>calloc\<close> is an argument, the generator is a 64-bit word.
    Shown: the invariant of the object under every sequence of operations, statuses, gate algebra,
    and the GHZ workload in binary64 (outcomes, validation, norm exactly one after measuring).
  \<^item> \<open>Posix\<close>, \<open>Device_IO\<close>, \<open>Qcpud\<close>: system calls are answered by a script, the list of their
    results, and leave a trace; a computation is \<open>None\<close> only when the script ends or its next
    result is of another call, so a theorem about every script is one about every behaviour of the
    environment.  Loops end because each round consumes a result.  Stop signals come in at points of the script in
    start-up and in the accept loop and run the handler, whose closing of the listener is an action of its own in the
    trace.  Shown: exact transfers, no descriptor leak, what every connection sends, what every request is
    answered with, how the server ends.
  \<^item> \<open>Uapi\<close>, \<open>Frontend\<close>, \<open>Frontend_Machine\<close>, \<open>Frontend_Properties\<close>: the frontend.  Each function is
    the sequence of its critical sections, one definition each; \<open>fe_step\<close> interleaves the sections of
    any number of threads over a heap of reference-counted tasks.  The locale
    \<open>invariant_system\<close> turns an inductive invariant into one of all reachable states, and
    \<open>Frontend_Properties\<close> draws the consequences, among them a refinement of the documented
    device state diagram, drawn as the design document has it, with the one move of the code that is not in it.
  \<^item> \<open>Adapter\<close>: the adapter, with cancel calls of another thread between its critical sections.

  \<^item> \<open>Tool_Error\<close>: what the tool chain does where C has no answer.  The code checks few bounds; a write or read
    outside an array, a \<^verbatim>\<open>NULL\<close> pointer that is followed, a conversion that overflows are values
    of \<open>tool_error\<close>, and every function that can meet one returns \<open>tool_error + 'a\<close>.
  \<^item> \<open>Lexer\<close>, \<open>Parser\<close>, \<open>Compiler\<close>: the code up to the bytecode, and bytecode files as bytes.  The
    tokenizer is a function with a termination proof.  The parser has fuel \<open>3 n + 3\<close> for \<open>n\<close> tokens, which is
    shown to be enough for every token list.  The datatype \<open>stmt\<close> is the abstract syntax of the language:
    \<open>source_of\<close> prints it, \<open>ast_of\<close> and \<open>gen\<close> are the tree and the code it should become.  Shown: print and
    read back, shape of tokens and trees, compilation to the intended code, where each stage can fail.
  \<^item> \<open>Strtod\<close>: \<^verbatim>\<open>atof\<close> with decimal, hexadecimal, infinity and not-a-number notation, and the comparisons of the
    values it gives (\<open>double_value\<close>), which the variables of both machines hold.
  \<^item> \<open>Safe_Adapter\<close>, \<open>Byte_VM\<close>, \<open>Byte_VM_Correct\<close>: the whitelist and the bytecode machine.  A run has fuel, one unit
    for each round; every bytecode, compiled or not, ends with enough fuel (a measure of the rounds left in the repeat
    stack decreases).  \<open>exec_list\<close> says what a program means, without jumps (its simple statements are those of the
    machine), and a simulation shows that enough fuel gives it.  The locale \<open>vm_invariant\<close> lifts a property every instruction keeps to
    whole runs, of compiled code or not; its interpretations are the bounds of the tables and the
    safety of the dispatched actions.
  \<^item> \<open>State2\<close>, \<open>Runner\<close>: the two-qubit machine and the runner, with the theorems from source text to output.
  \<^item> \<open>Interpreter\<close>, \<open>Qasm\<close>: the interpreter, with a simulation between it and the bytecode machine on the
    programs of \<open>scoped_program\<close> and examples of programs on which the two differ, and the exporter, with the round trip of its circuits.
  \<^item> \<open>StateN\<close>, \<open>Circuit\<close>: the GHZ demonstration and the circuit machine.  \<^verbatim>\<open>fail\<close> and what C leaves undefined are values
    of \<open>circuit_stop\<close>; a stop discards the lines printed before it.  \<^verbatim>\<open>cexp\<close> is the rounded cosine and sine, \<^verbatim>\<open>cabs\<close> the
    rounded modulus.  Shown: accepted circuits address only their qubits and keep total probability one; GHZ outcomes.
  \<^item> \<open>Kernel_Cli\<close>, \<open>Device_Client\<close>, \<open>Drag\<close>: the remaining programs, with \<^verbatim>\<open>strtoull\<close>.  Shown: the kernel program passes for all
    sizes the kernel has, the client leaks no descriptor and succeeds only on an answer with status OK, and what a
    \<^verbatim>\<open>.drag\<close> file says.

  This theory holds what spans the components of the device: a request from the check of the frontend through the
  adapter, the wire, the daemon and the kernel back to the validation of the frontend, and a command of the
  client through the daemon back to its report.  Both hold for every script of either side; what is assumed of the
  socket between them is the predicate \<open>connected\<close>, that each end receives a prefix of what the other sent.

  \<^bold>\<open>Not modelled.\<close>  The mutex and the condition variable are what the steps assume of them; the text of
  diagnostics is abbreviated and a printed line of the tool chain is a value that names its kind and its
  arguments.  The parser is assumed to get the memory it asks for, the character classes are those of the C
  locale, and the C stack is unbounded.  A signal that comes in inside one of the transfers of a
  connection is seen there as a read of the stop flag, and its handler is run at the end of the connection.  The memory the
  command-line programs free at their exits is not tracked.  \<^verbatim>\<open>src/benchmarks/gpu_roundtrip.c\<close> drives a Vulkan driver and measures time.
  Tests and scripts are not part of the program.
\<close>

section \<open>A request from end to end\<close>

definition clean_serve :: "u8 list \<Rightarrow> os_event list" where
  "clean_serve packet =
     [Ev_clock (Some (1, 0)), Ev_getfl 2048, Ev_stop False, Ev_read (Inr packet), Ev_alloc True True,
      Ev_clock (Some (1, 0)), Ev_getfl 2048, Ev_stop False, Ev_send (Inr QCPU_DEVICE_RESPONSE_WIRE_SIZE)]"

lemma clean_serve_connection:
  assumes len: "length packet = QCPU_DEVICE_REQUEST_WIRE_SIZE" and fd: "0 \<le> fd"
  shows "\<exists>c st. serve_connection rnd fd \<lparr>script = clean_serve packet, trace = []\<rparr> =
     Some (0, \<lparr>script = [], trace = [Act_recv fd packet, Act_send fd (answer_packet rnd (True, True) packet),
       Act_served c st]\<rparr>)"
proof -
  have rd: "qcpu_device_read_all fd (Some (replicate QCPU_DEVICE_REQUEST_WIRE_SIZE 0)) QCPU_DEVICE_REQUEST_WIRE_SIZE
      QCPU_DEVICE_IO_TIMEOUT_MS True \<lparr>script = clean_serve packet, trace = []\<rparr> =
    Some ((QCPU_DEVICE_IO_OK, Some packet),
      \<lparr>script = drop 4 (clean_serve packet), trace = [Act_recv fd packet]\<rparr>)"
    using len fd
    by (auto simp: qcpu_device_read_all_def prepare_deadline_def monotonic_milliseconds_def clean_serve_def
        set_nonblocking_def sys_defs O_NONBLOCK_def read_loop.simps wire_size_defs QCPU_DEVICE_IO_TIMEOUT_MS_def)
  have wr: "qcpu_device_write_all fd (Some b) QCPU_DEVICE_RESPONSE_WIRE_SIZE QCPU_DEVICE_IO_TIMEOUT_MS True
      \<lparr>script = drop 5 (clean_serve packet), trace = [Act_recv fd packet]\<rparr> =
    Some (QCPU_DEVICE_IO_OK, \<lparr>script = [], trace = [Act_recv fd packet, Act_send fd b]\<rparr>)"
    if "length b = QCPU_DEVICE_RESPONSE_WIRE_SIZE" for b
    using that fd
    by (simp add: qcpu_device_write_all_def prepare_deadline_def monotonic_milliseconds_def clean_serve_def
        set_nonblocking_def sys_defs O_NONBLOCK_def write_loop.simps write_without_sigpipe_def wire_size_defs
        QCPU_DEVICE_IO_TIMEOUT_MS_def)
  have al: "sys_alloc \<lparr>script = drop 4 (clean_serve packet), trace = tr\<rparr> =
      Some ((True, True), \<lparr>script = drop 5 (clean_serve packet), trace = tr\<rparr>)" for tr
    by (simp add: sys_alloc_def clean_serve_def)
  obtain st r where d: "qcpu_device_decode_request (Some zero_request) (Some packet) QCPU_DEVICE_REQUEST_WIRE_SIZE = (st, r)"
    by force
  show ?thesis
    by (simp add: serve_connection_def rd al d encode_response_bytes wr act_def answer_packet_def Let_def)
qed

text \<open>
  What a connected pair of stream sockets is relied on for: each end receives a prefix of what the other end sent.  When the bytes
  move, in which pieces, and whether all of them arrive, is left to the two scripts.
\<close>

definition connected :: "int \<Rightarrow> os_action list \<Rightarrow> int \<Rightarrow> os_action list \<Rightarrow> bool" where
  "connected fd tr fd' tr' \<longleftrightarrow> prefix (received fd' tr') (sent fd tr) \<and> prefix (received fd tr) (sent fd' tr')"

text \<open>
  A peer that has sent at most the request \<open>out\<close> and has received a whole answer: then the daemon has read all of \<open>out\<close> and the
  peer has read all the daemon sent, the answer to \<open>out\<close>.
\<close>

lemma whole_answer:
  assumes serve: "serve_connection rnd client_fd \<lparr>script = ds, trace = []\<rparr> = Some (ret, d')"
    and mem: "\<forall>a b. Ev_alloc a b \<in> set ds \<longrightarrow> a \<and> b"
    and conn: "connected fd tr client_fd (trace d')"
    and out: "sent fd tr = take n out" "length out = QCPU_DEVICE_REQUEST_WIRE_SIZE"
    and whole: "length (received fd tr) = QCPU_DEVICE_RESPONSE_WIRE_SIZE"
  shows "ret = 0 \<and> sent fd tr = out \<and> received client_fd (trace d') = out \<and> sent client_fd (trace d') = received fd tr \<and>
     received fd tr = answer_packet rnd (True, True) out"
proof -
  obtain packet alloc k where p: "received client_fd (trace d') = packet"
      "sent client_fd (trace d') = take k (answer_packet rnd alloc packet)"
      "length packet \<le> QCPU_DEVICE_REQUEST_WIRE_SIZE" "k \<le> QCPU_DEVICE_RESPONSE_WIRE_SIZE"
      "length packet < QCPU_DEVICE_REQUEST_WIRE_SIZE \<longrightarrow> k = 0"
      "length packet = QCPU_DEVICE_REQUEST_WIRE_SIZE \<longrightarrow> Ev_alloc (fst alloc) (snd alloc) \<in> set ds"
      "ret = (if length packet = QCPU_DEVICE_REQUEST_WIRE_SIZE \<and> k = QCPU_DEVICE_RESPONSE_WIRE_SIZE then 0 else - 1)"
    using serve_connection_exact [OF serve, simplified os.select_convs received_simps sent_simps append_Nil] by (elim exE conjE)
  have "length (received fd tr) \<le> length (sent client_fd (trace d'))"
    using conn by (auto simp: connected_def dest: prefix_length_le)
  then have k: "k = QCPU_DEVICE_RESPONSE_WIRE_SIZE" using whole p(2,4) by (simp add: length_answer_packet)
  then have len: "length packet = QCPU_DEVICE_REQUEST_WIRE_SIZE"
    using p(3,5) by (cases "length packet < QCPU_DEVICE_REQUEST_WIRE_SIZE") (auto simp: wire_size_defs)
  have al: "alloc = (True, True)" using p(6) len mem by (cases alloc) auto
  have full: "take n out = out"
  proof -
    have "length packet \<le> length (take n out)" using conn p(1) out(1) by (auto simp: connected_def dest: prefix_length_le)
    then show ?thesis using len out(2) by simp
  qed
  have "packet = out"
    using conn p(1) out full len by (auto simp: connected_def prefix_def)
  moreover have "length (sent client_fd (trace d')) = QCPU_DEVICE_RESPONSE_WIRE_SIZE"
    using p(2) k by (simp add: length_answer_packet)
  then have "received fd tr = sent client_fd (trace d')" using conn whole by (auto simp: connected_def prefix_def)
  ultimately show ?thesis using p k len al out(1) full by (simp add: length_answer_packet)
qed

text \<open>
  C6: the whole path of a request, over every behaviour of the two environments.  An idle adapter
  exchanges a request that the frontend lets through (\<open>check_request\<close>) over a connection whose other end the daemon serves;
  clocks, interruptions, short reads and writes, polls, timeouts, failing calls, stop requests and cancel calls are
  arbitrary; it is assumed of the connection that each end receives a prefix of what the other sent, and of the daemon's
  memory that it is not exhausted.  Then the exchange returns 0 only if a whole answer arrived; and whenever a whole answer
  arrived, the daemon had read exactly the bytes of the translated request and reports success, the adapter has read exactly the
  bytes the daemon sent, and the exchange returns 0 with a response that passes the frontend's validation of backend
  responses (a GHZ run reports the norm one exactly), unless a cancel call came in and the result is \<^verbatim>\<open>-ECANCELED\<close>.  The adapter
  is idle again in every case.  This holds for every \<^verbatim>\<open>long double\<close> arithmetic of at least 64 bits of precision.
\<close>

theorem device_end_to_end:
  assumes "check_request request = None" and "fp_rounding p rndl" and "64 \<le> p" and "\<not> ad_active ad"
    and "exchange_run rndl ad request dl \<lparr>script = es, trace = []\<rparr> = Some ((r, resp), ad', s')"
    and "opens (trace s') = [fd]"
    and "serve_connection rnd_double client_fd \<lparr>script = ds, trace = []\<rparr> = Some (ret, d')"
    and "\<forall>a b. Ev_alloc a b \<in> set ds \<longrightarrow> a \<and> b"
    and "connected fd (trace s') client_fd (trace d')"
  shows "\<not> ad_active ad' \<and> closes (trace s') = [fd] \<and>
     (r = 0 \<longrightarrow> length (received fd (trace s')) = 56) \<and>
     (length (received fd (trace s')) = 56 \<longrightarrow>
        ret = 0 \<and> sent fd (trace s') = request_bytes (snd (qcpu_adapter_translate_request request)) \<and>
        received client_fd (trace d') = sent fd (trace s') \<and> received fd (trace s') = sent client_fd (trace d') \<and>
        (r = 0 \<and> qcpu_validate_backend_response request resp = Inr () \<and>
           (uq_command request = 2 \<longrightarrow> ur_norm_q32_32 resp = 2 ^ 32) \<or>
         r = - ECANCELED \<and> Ev_cancel True \<in> set es))"
proof -
  let ?t = "snd (qcpu_adapter_translate_request request)"
  let ?d = "process_request rnd_double (True, True) ?t"
  have e: "\<not> ad_active ad'" "closes (trace s') = [fd]"
      "answered rndl fd (request_bytes ?t) (Ev_cancel True \<notin> set es) \<lparr>script = es, trace = []\<rparr> r resp s'"
    using exchange_owns [OF assms(5,4)] assms(6) by (auto simp: exchanged_def)
  obtain n packet where io: "sent fd (trace s') = take n (request_bytes ?t)" "received fd (trace s') = packet"
    and ok: "r = 0 \<longrightarrow> take n (request_bytes ?t) = request_bytes ?t \<and> length packet = QCPU_DEVICE_RESPONSE_WIRE_SIZE \<and>
       (\<exists>d. qcpu_device_decode_response (Some zero_response) (Some packet) QCPU_DEVICE_RESPONSE_WIRE_SIZE =
          (QCPU_DEVICE_STATUS_OK, Some d) \<and> qcpu_adapter_translate_response rndl d = (0, resp))"
    and got: "\<forall>d. length packet = QCPU_DEVICE_RESPONSE_WIRE_SIZE \<longrightarrow>
       qcpu_device_decode_response (Some zero_response) (Some packet) QCPU_DEVICE_RESPONSE_WIRE_SIZE =
         (QCPU_DEVICE_STATUS_OK, Some d) \<longrightarrow>
       r = fst (qcpu_adapter_translate_response rndl d) \<or> r = - ECANCELED \<and> Ev_cancel True \<in> set es"
    using e(3) [unfolded answered_def os.select_convs received_simps sent_simps append_Nil not_not] by (elim exE conjE)
  have full: "ret = 0 \<and> sent fd (trace s') = request_bytes ?t \<and> received client_fd (trace d') = request_bytes ?t \<and>
      sent client_fd (trace d') = packet \<and> packet = response_bytes ?d"
    if "length packet = QCPU_DEVICE_RESPONSE_WIRE_SIZE"
    using whole_answer [OF assms(7-9) io(1) length_request_bytes] that io(2) translated_answer by metis
  have dec: "qcpu_device_decode_response (Some zero_response) (Some (response_bytes ?d)) QCPU_DEVICE_RESPONSE_WIRE_SIZE =
      (QCPU_DEVICE_STATUS_OK, Some ?d)"
    by (simp add: decode_response_bytes answer_header header_status_def)
  obtain resp' where resp': "qcpu_adapter_translate_response rndl ?d = (0, resp')" "good_response request resp'"
      "uq_command request = 2 \<longrightarrow> ur_norm_q32_32 resp' = 2 ^ 32"
    using answer_translated [OF assms(1-3)] by auto
  have "r = 0 \<and> resp = resp' \<or> r = - ECANCELED \<and> Ev_cancel True \<in> set es"
    if "length packet = QCPU_DEVICE_RESPONSE_WIRE_SIZE"
    using got ok full [OF that] that dec resp'(1) by (cases "r = 0") auto
  then show ?thesis
    using e(1,2) io(2) ok full resp' by (auto simp: validate_iff_good QCPU_DEVICE_RESPONSE_WIRE_SIZE_def)
qed

text \<open>The GHZ request of the samples, sent and answered at once.\<close>

theorem device_end_to_end_witness:
  "\<exists>out answer resp s' d'.
     exchange_run (rnd_prec 64) (idle_adapter ''/run/qcpu.sock'') sample_uapi_request 3000000000
       \<lparr>script = clean_exchange 3 answer, trace = []\<rparr> = Some ((0, resp), idle_adapter ''/run/qcpu.sock'', s') \<and>
     serve_connection rnd_double 5 \<lparr>script = clean_serve out, trace = []\<rparr> = Some (0, d') \<and>
     sent 3 (trace s') = received 5 (trace d') \<and> sent 5 (trace d') = received 3 (trace s') \<and>
     qcpu_validate_backend_response sample_uapi_request resp = Inr () \<and> ur_norm_q32_32 resp = 4294967296"
proof -
  let ?t = "snd (qcpu_adapter_translate_request sample_uapi_request)"
  let ?d = "process_request rnd_double (True, True) ?t"
  let ?tr = "clean_trace 3 (request_bytes ?t) (response_bytes ?d)"
  have ok: "check_request sample_uapi_request = None"
    by (simp add: check_request_def sample_uapi_request_def uapi_consts)
  have t: "qcpu_adapter_translate_request sample_uapi_request = (0, ?t)" using check_request_translates [OF ok] by simp
  have dec: "qcpu_device_decode_response (Some zero_response) (Some (response_bytes ?d)) QCPU_DEVICE_RESPONSE_WIRE_SIZE =
      (QCPU_DEVICE_STATUS_OK, Some ?d)"
    by (simp add: decode_response_bytes answer_header header_status_def)
  obtain resp where resp: "qcpu_adapter_translate_response (rnd_prec 64) ?d = (0, resp)"
    using answer_translated [OF ok fp_rounding_rnd_prec, of 64] by auto
  have run: "exchange_run (rnd_prec 64) (idle_adapter ''/run/qcpu.sock'') sample_uapi_request 3000000000
      \<lparr>script = clean_exchange 3 (response_bytes ?d), trace = []\<rparr> =
      Some ((0, resp), idle_adapter ''/run/qcpu.sock'', \<lparr>script = [], trace = ?tr\<rparr>)"
    using clean_exchange_run [OF t dec, of "''/run/qcpu.sock''" 3 "rnd_prec 64"] resp by simp
  obtain c st where s: "serve_connection rnd_double 5 \<lparr>script = clean_serve (request_bytes ?t), trace = []\<rparr> =
     Some (0, \<lparr>script = [], trace = [Act_recv 5 (request_bytes ?t), Act_send 5 (response_bytes ?d), Act_served c st]\<rparr>)"
    using clean_serve_connection [OF length_request_bytes, of 5] translated_answer by (metis zero_le_numeral)
  have "qcpu_validate_backend_response sample_uapi_request resp = Inr () \<and> ur_norm_q32_32 resp = 4294967296"
    using device_end_to_end [OF ok fp_rounding_rnd_prec _ _ run _ s, of 3]
    by (simp add: idle_adapter_def clean_trace_def connected_def clean_serve_def sample_uapi_request_def
        QCPU_DEVICE_RESPONSE_WIRE_SIZE_def ECANCELED_def)
  then show ?thesis
    using run s by (intro exI [of _ "request_bytes ?t"] exI [of _ "response_bytes ?d"] exI [of _ resp] exI conjI)
      (assumption, assumption, simp_all add: clean_trace_def)
qed

section \<open>The client and the daemon\<close>

text \<open>The report of the client on a response of a daemon that sets every device flag.\<close>

definition client_report :: "nat \<Rightarrow> nat \<Rightarrow> nat \<Rightarrow> nat \<Rightarrow> u64 \<Rightarrow> nat \<Rightarrow> string \<Rightarrow> client_line list" where
  "client_report qubits states shots outcome norm_bits status_code verdict =
     [C_field ''DEVICE'' (V_text ''qcpu0''), C_field ''TYPE'' (V_text ''SOFTWARE_VIRTUAL_QCPU''),
      C_field ''HOST'' (V_text ''CLASSICAL_CPU''), C_field ''PHYSICAL_QPU_PRESENT'' (V_text ''NO''),
      C_field ''Q0_ORDER'' (V_text ''MOST_SIGNIFICANT''), C_field ''QUBITS'' (V_unsigned qubits),
      C_field ''BASIS_STATES'' (V_unsigned states), C_field ''SHOTS'' (V_unsigned shots),
      C_field ''MEASURED_STATE'' (V_unsigned outcome), C_field ''INVALID_RESULTS'' (V_unsigned 0),
      C_field ''NORM'' (V_double norm_bits), C_field ''STATUS_CODE'' (V_unsigned status_code),
      C_field ''STATUS'' (V_text verdict)]"

lemma print_report:
  assumes "dr_flags d = 15" and "dr_invalid_results d = 0"
  shows "print_response d = client_report (unat (dr_qubits d)) (unat (dr_basis_states d)) (unat (dr_shots d))
     (unat (dr_measured_state d)) (dr_norm d) (unat (dr_status d)) (if dr_status d = 0 then ''PASS'' else ''FAIL'')"
  using assms by (simp add: print_response_def client_report_def QCPU_DEVICE_FLAG_PHYSICAL_QPU_ABSENT_def
      QCPU_DEVICE_FLAG_Q0_MOST_SIGNIFICANT_def)

lemma parse_unsigned_at_most: "parse_unsigned text maximum label = Inr v \<Longrightarrow> maximum < 2 ^ 64 \<Longrightarrow> unat v \<le> maximum"
  by (auto simp: parse_unsigned_def unat_of_nat split: if_split_asm option.split_asm list.split_asm)

text \<open>What the daemon answers to the request of \<^verbatim>\<open>run-ghz\<close>, as the client reports it.\<close>

lemma client_ghz_report:
  assumes cmd: "dq_command request = QCPU_DEVICE_COMMAND_RUN_GHZ"
    and n: "unat (dq_qubits request) \<le> 20" and shots: "unat (dq_shots request) \<le> 100"
  shows "\<exists>m. m \<in> {0, 2 ^ unat (dq_qubits request) - 1} \<and>
     print_response (process_request rnd_double (True, True) request) =
       (if dq_qubits request = 0 \<or> dq_shots request = 0 then client_report 0 0 0 0 0 4 ''FAIL''
        else client_report (unat (dq_qubits request)) (2 ^ unat (dq_qubits request)) (unat (dq_shots request)) m
          0x3ff0000000000000 0 ''PASS'') \<and>
     (dr_status (process_request rnd_double (True, True) request) = 0 \<longleftrightarrow> dq_qubits request \<noteq> 0 \<and> dq_shots request \<noteq> 0)"
proof -
  let ?d = "process_request rnd_double (True, True) request"
  have r: "request_in_range request \<longleftrightarrow> dq_qubits request \<noteq> 0 \<and> dq_shots request \<noteq> 0"
    using n shots by (auto simp: request_in_range_def word_le_nat_alt unat_eq_zero [symmetric] Suc_le_eq simp del: unat_eq_zero)
  note s = request_status [of "(True, True)" request, unfolded cmd QCPU_DEVICE_COMMAND_RUN_GHZ_def, simplified]
  show ?thesis
  proof (cases "request_in_range request")
    case False
    then show ?thesis using s r print_report [of ?d] by auto
  next
    case True
    obtain m where m: "process_run_ghz rnd_double (True, True) request response_init =
       response_init\<lparr>dr_status := device_status_code QCPU_DEVICE_STATUS_OK,
         dr_qubits := dq_qubits request, dr_basis_states := 2 ^ unat (dq_qubits request),
         dr_shots := ucast (dq_shots request), dr_measured_state := of_nat m,
         dr_invalid_results := 0, dr_norm := dbl_bits 1\<rparr>" "m = 0 \<or> m = 2 ^ unat (dq_qubits request) - 1"
      using run_ghz_answer [OF True] by blast
    have d: "?d = process_run_ghz rnd_double (True, True) request response_init"
      using cmd by (simp add: process_request_def protocol_consts)
    have p: "2 ^ unat (dq_qubits request) < (2 :: nat) ^ 64"
      using n by (intro power_strict_increasing) simp_all
    have "unat (2 ^ unat (dq_qubits request) :: u64) = 2 ^ unat (dq_qubits request)"
      using p by (simp add: unat_of_nat [of "2 ^ unat (dq_qubits request)", where 'a = 64, simplified])
    moreover have "m < 2 ^ 64" using m(2) p by (auto intro: le_less_trans)
    then have "unat (of_nat m :: u64) = m" by (simp add: unat_of_nat)
    moreover have "unat (ucast (dq_shots request) :: u64) = unat (dq_shots request)"
      using shots by (simp add: unsigned_ucast_eq take_bit_nat_eq_self)
    ultimately have "print_response ?d = client_report (unat (dq_qubits request)) (2 ^ unat (dq_qubits request))
        (unat (dq_shots request)) m 0x3ff0000000000000 0 ''PASS''"
      using print_report [of ?d] s True by (simp add: d m(1) dbl_bits_one)
    then show ?thesis using s r True m(2) by auto
  qed
qed

text \<open>
  C8: the client and the daemon together, over every behaviour of the two environments.  The client runs a
  \<^verbatim>\<open>run-ghz\<close> command with accepted numbers over a connection whose other end the daemon serves; clocks,
  interruptions, short reads and writes, timeouts and failing calls are arbitrary; each end receives a prefix of what the
  other sent, and the daemon's memory is not exhausted.  If a whole answer reaches the client, the daemon had read
  exactly the bytes the client sent and reports success, and for positive numbers of qubits and shots the client reports the numbers
  asked for, no invalid results, a measured state of all zeros or all ones, the norm 1.0 exactly and PASS, and exits with
  success; a number of zero is reported as FAIL with the code of a range error, with exit status 1.  If no
  whole answer reaches it, the exit status is 1.
\<close>

theorem client_end_to_end:
  assumes "parse_unsigned q 20 ''qubit count'' = Inr n" and "parse_unsigned sh 100 ''shot count'' = Inr shots"
    and "parse_unsigned sd (2 ^ 64 - 1) ''seed'' = Inr seed"
    and "client_main [prog, ''--socket'', path, ''run-ghz'', q, sh, sd] \<lparr>script = es, trace = []\<rparr> = Some ((r, lines), s')"
    and "opens (trace s') = [fd]"
    and "serve_connection rnd_double client_fd \<lparr>script = ds, trace = []\<rparr> = Some (ret, d')"
    and "\<forall>a b. Ev_alloc a b \<in> set ds \<longrightarrow> a \<and> b"
    and "connected fd (trace s') client_fd (trace d')"
  shows "closes (trace s') = [fd] \<and>
     (length (received fd (trace s')) = 56 \<longrightarrow>
        ret = 0 \<and> received client_fd (trace d') = sent fd (trace s') \<and> received fd (trace s') = sent client_fd (trace d') \<and>
        (\<exists>m. m \<in> {0, 2 ^ unat n - 1} \<and>
           (r, lines) = (if n = 0 \<or> shots = 0 then (1, client_report 0 0 0 0 0 4 ''FAIL'')
             else (0, client_report (unat n) (2 ^ unat n) (unat shots) m 0x3ff0000000000000 0 ''PASS'')))) \<and>
     (length (received fd (trace s')) \<noteq> 56 \<longrightarrow> r = 1)"
proof -
  let ?argv = "[prog, ''--socket'', path, ''run-ghz'', q, sh, sd]"
  define request where "request = empty_request\<lparr>dq_command := QCPU_DEVICE_COMMAND_RUN_GHZ, dq_qubits := ucast n,
    dq_shots := ucast shots, dq_seed := seed\<rparr>"
  let ?d = "process_request rnd_double (True, True) request"
  have le: "unat n \<le> 20" "unat shots \<le> 100" using assms(1,2) by (auto dest!: parse_unsigned_at_most)
  have u: "unat (ucast n :: u32) = unat n" "unat (ucast shots :: u32) = unat shots"
    using le by (simp_all add: unsigned_ucast_eq take_bit_nat_eq_self)
  have z: "(ucast n :: u32) = 0 \<longleftrightarrow> n = 0" "(ucast shots :: u32) = 0 \<longleftrightarrow> shots = 0"
    using u by (metis unat_eq_zero)+
  have req: "client_request ?argv = Inr request"
    using assms(1-3) by (simp add: client_request_def request_def protocol_consts)
  have f: "dq_magic request = QCPU_DEVICE_REQUEST_MAGIC" "dq_version request = QCPU_DEVICE_PROTOCOL_VERSION"
      "dq_command request = QCPU_DEVICE_COMMAND_RUN_GHZ" "dq_qubits request = ucast n" "dq_shots request = ucast shots"
    by (simp_all add: request_def empty_request_def)
  have a: "answer_packet rnd_double (True, True) (request_bytes request) = response_bytes ?d"
    by (simp add: answer_packet_def decode_request_bytes f header_status_def)
  have dec: "qcpu_device_decode_response (Some zero_response) (Some (response_bytes ?d)) QCPU_DEVICE_RESPONSE_WIRE_SIZE =
      (QCPU_DEVICE_STATUS_OK, Some ?d)"
    by (simp add: decode_response_bytes answer_header header_status_def)
  obtain m where m: "m \<in> {0, 2 ^ unat n - 1}" "print_response ?d =
       (if n = 0 \<or> shots = 0 then client_report 0 0 0 0 0 4 ''FAIL''
        else client_report (unat n) (2 ^ unat n) (unat shots) m 0x3ff0000000000000 0 ''PASS'')"
      "dr_status ?d = 0 \<longleftrightarrow> n \<noteq> 0 \<and> shots \<noteq> 0"
    using client_ghz_report [OF f(3), unfolded f(4,5) u z, OF le] by (elim exE conjE)
  have report: "(if dr_status ?d = device_status_code QCPU_DEVICE_STATUS_OK then 0 else 1, print_response ?d) =
     (if n = 0 \<or> shots = 0 then (1 :: int, client_report 0 0 0 0 0 4 ''FAIL'')
      else (0, client_report (unat n) (2 ^ unat n) (unat shots) m 0x3ff0000000000000 0 ''PASS''))"
    unfolding m(2) using m(3) by (simp split: if_split)
  obtain k packet where io: "sent fd (trace s') = take k (request_bytes request)" "received fd (trace s') = packet"
      "closes (trace s') = [fd]" "r = 0 \<or> r = 1"
    and ok: "r = 0 \<longrightarrow> length packet = QCPU_DEVICE_RESPONSE_WIRE_SIZE"
    and got: "\<forall>d. length packet = QCPU_DEVICE_RESPONSE_WIRE_SIZE \<longrightarrow>
       qcpu_device_decode_response (Some zero_response) (Some packet) QCPU_DEVICE_RESPONSE_WIRE_SIZE =
         (QCPU_DEVICE_STATUS_OK, Some d) \<longrightarrow>
       r = (if dr_status d = device_status_code QCPU_DEVICE_STATUS_OK then 0 else 1) \<and> lines = print_response d"
    by (rule client_connection [OF assms(4) req assms(5)]) blast
  have full: "ret = 0 \<and> sent fd (trace s') = request_bytes request \<and> received client_fd (trace d') = request_bytes request \<and>
      sent client_fd (trace d') = packet \<and> packet = response_bytes ?d"
    if "length packet = QCPU_DEVICE_RESPONSE_WIRE_SIZE"
    using whole_answer [OF assms(6-8) io(1) length_request_bytes] that io(2) a by metis
  have "(r, lines) = (if dr_status ?d = device_status_code QCPU_DEVICE_STATUS_OK then 0 else 1, print_response ?d)"
    if "length packet = QCPU_DEVICE_RESPONSE_WIRE_SIZE"
    using got [rule_format, OF that, of ?d] full [OF that] dec by simp
  then show ?thesis
    using io full ok m(1) unfolding report by (simp add: QCPU_DEVICE_RESPONSE_WIRE_SIZE_def) blast
qed

theorem client_end_to_end_witness:
  "\<exists>answer out m s' d'. m \<in> {0, 7} \<and>
     client_main [''qnova-device'', ''--socket'', ''q'', ''run-ghz'', ''3'', ''50'', ''42'']
       \<lparr>script = clean_client 3 answer, trace = []\<rparr> =
       Some ((0, client_report 3 8 50 m 0x3ff0000000000000 0 ''PASS''), s') \<and>
     serve_connection rnd_double 5 \<lparr>script = clean_serve out, trace = []\<rparr> = Some (0, d') \<and>
     sent 3 (trace s') = received 5 (trace d') \<and> sent 5 (trace d') = received 3 (trace s')"
proof -
  let ?argv = "[''qnova-device'', ''--socket'', ''q'', ''run-ghz'', ''3'', ''50'', ''42'']"
  let ?d = "process_request rnd_double (True, True) sample_request"
  let ?tr = "clean_trace 3 (request_bytes sample_request) (response_bytes ?d)"
  have num: "parse_unsigned ''3'' 20 ''qubit count'' = Inr 3" "parse_unsigned ''50'' 100 ''shot count'' = Inr 50"
      "parse_unsigned ''42'' (2 ^ 64 - 1) ''seed'' = Inr 42"
    using client_numbers by (simp_all add: protocol_consts)
  have dec: "qcpu_device_decode_response (Some zero_response) (Some (response_bytes ?d)) QCPU_DEVICE_RESPONSE_WIRE_SIZE =
      (QCPU_DEVICE_STATUS_OK, Some ?d)"
    by (simp add: decode_response_bytes answer_header header_status_def)
  have a: "answer_packet rnd_double (True, True) (request_bytes sample_request) = response_bytes ?d"
    by (simp add: answer_packet_def decode_request_bytes sample_request_def header_status_def)
  obtain r where run: "client_main ?argv \<lparr>script = clean_client 3 (response_bytes ?d), trace = []\<rparr> =
      Some ((r, print_response ?d), \<lparr>script = [], trace = ?tr\<rparr>)"
    using clean_client_main [OF sample_client_request dec length_response_bytes, of 3] by simp
  obtain c st where s: "serve_connection rnd_double 5 \<lparr>script = clean_serve (request_bytes sample_request), trace = []\<rparr> =
     Some (0, \<lparr>script = [], trace = [Act_recv 5 (request_bytes sample_request), Act_send 5 (response_bytes ?d), Act_served c st]\<rparr>)"
    using clean_serve_connection [OF length_request_bytes, of 5] a by (metis zero_le_numeral)
  have tr: "opens ?tr = [3]" "connected 3 ?tr 5 (trace \<lparr>script = [], trace =
      [Act_recv 5 (request_bytes sample_request), Act_send 5 (response_bytes ?d), Act_served c st]\<rparr>)"
      "length (received 3 ?tr) = 56"
    by (simp_all add: clean_trace_def connected_def QCPU_DEVICE_RESPONSE_WIRE_SIZE_def)
  obtain m where "m \<in> {0, 2 ^ unat (3 :: u64) - 1}" "(r, print_response ?d) = (0, client_report 3 8 50 m 0x3ff0000000000000 0 ''PASS'')"
    using client_end_to_end [OF num run _ s, where fd = 3] tr by (auto simp: clean_serve_def)
  then show ?thesis
    using run s by (intro exI [of _ "response_bytes ?d"] exI [of _ "request_bytes sample_request"] exI [of _ m] exI conjI)
      (auto simp: clean_trace_def)
qed

end
